(* ===== verification/Prelude.thy ===== *)
theory Prelude
  imports Main "HOL-Library.List_Lexorder" "HOL-Library.Char_ord" "HOL-Library.Sublist"
begin

text \<open>
  Shared vocabulary of the development.

  \<^item> The computation type of the Go code: a function that reads and changes some world and
    returns a value or an error (\<open>(T, error)\<close> in Go). \<open>andThen\<close> is the idiom
    \<open>x, err := f(); if err != nil { return err }\<close>, \<open>attempt\<close> is the call whose error the
    caller inspects itself.
  \<^item> A weakest-precondition calculus for those computations (the collection \<open>wp\<close>), and a
    closure calculus for "this call leaves that part of the world alone" (the collection
    \<open>frame\<close>), which carry the proofs of the storage components.
  \<^item> The facts on object paths (strings split at the slash) that make deterministic storage
    keys injective, and the few generic facts on lists the components share.
\<close>

named_theorems wp \<open>weakest preconditions of the computation combinators\<close>
named_theorems frame \<open>computations that leave an observation of the world unchanged\<close>
named_theorems path_simps \<open>rewriting of object paths into their segments\<close>

section \<open>Computations\<close>

type_synonym ('s, 'e, 'a) io = "'s \<Rightarrow> ('e + 'a) \<times> 's"

definition ret :: "'a \<Rightarrow> ('s, 'e, 'a) io" where
  "ret a s = (Inr a, s)"

definition fail :: "'e \<Rightarrow> ('s, 'e, 'a) io" where
  "fail e s = (Inl e, s)"

definition andThen :: "('s, 'e, 'a) io \<Rightarrow> ('a \<Rightarrow> ('s, 'e, 'b) io) \<Rightarrow> ('s, 'e, 'b) io" where
  "andThen m f s = (case m s of (Inl e, s1) \<Rightarrow> (Inl e, s1) | (Inr a, s1) \<Rightarrow> f a s1)"

definition lift :: "'e + 'a \<Rightarrow> ('s, 'e, 'a) io" where
  "lift r s = (r, s)"

definition attempt :: "('s, 'e, 'a) io \<Rightarrow> ('s, 'f, 'e + 'a) io" where
  "attempt m s = (case m s of (r, s1) \<Rightarrow> (Inr r, s1))"

lemma ret_apply: "ret a s = (Inr a, s)"
  by (simp add: ret_def)

lemma fail_apply: "fail e s = (Inl e, s)"
  by (simp add: fail_def)

lemma lift_apply: "lift r s = (r, s)"
  by (simp add: lift_def)

lemmas run_apply = ret_apply fail_apply lift_apply

lemma andThen_ret [simp]: "andThen (ret a) f = f a"
  by (simp add: andThen_def fun_eq_iff run_apply)

lemma andThen_fail [simp]: "andThen (fail e) f = fail e"
  by (simp add: andThen_def fun_eq_iff run_apply)

lemma andThen_lift_Inr [simp]: "andThen (lift (Inr a)) f = f a"
  by (simp add: andThen_def fun_eq_iff run_apply)

lemma andThen_lift_Inl [simp]: "andThen (lift (Inl e)) f = fail e"
  by (simp add: andThen_def fun_eq_iff run_apply)

lemma andThen_Inr: "m s = (Inr a, s1) \<Longrightarrow> andThen m f s = f a s1"
  by (simp add: andThen_def)

lemma andThen_Inl: "m s = (Inl e, s1) \<Longrightarrow> andThen m f s = (Inl e, s1)"
  by (simp add: andThen_def)

lemma attempt_apply: "m s = (r, s1) \<Longrightarrow> attempt m s = (Inr r, s1)"
  by (simp add: attempt_def)

lemma andThen_eq_Inr:
  "andThen m f s = (Inr b, s2) \<longleftrightarrow> (\<exists>a s1. m s = (Inr a, s1) \<and> f a s1 = (Inr b, s2))"
  by (auto simp: andThen_def split: prod.splits sum.splits)

text \<open>Naming the outcome of a run that is known to succeed or to fail.\<close>

lemma run_Inr: "\<not> isl (fst x) \<Longrightarrow> x = (Inr (projr (fst x)), snd x)"
  by (cases x; cases "fst x") auto

lemma run_Inl: "isl (fst x) \<Longrightarrow> x = (Inl (projl (fst x)), snd x)"
  by (cases x; cases "fst x") auto

lemma andThen_assoc: "andThen (andThen m f) g = andThen m (\<lambda>a. andThen (f a) g)"
  by (auto simp: andThen_def fun_eq_iff split: prod.splits sum.splits)

subsection \<open>Weakest preconditions\<close>

text \<open>
  \<open>wpre m Q E s\<close>: run from \<open>s\<close>, the computation \<open>m\<close> ends either with a value for which
  \<open>Q\<close> holds or with an error for which \<open>E\<close> holds, each of the final world.
\<close>

definition wpre ::
  "('s, 'e, 'a) io \<Rightarrow> ('a \<Rightarrow> 's \<Rightarrow> bool) \<Rightarrow> ('e \<Rightarrow> 's \<Rightarrow> bool) \<Rightarrow> 's \<Rightarrow> bool" where
  "wpre m Q E s = (case m s of (Inr a, s1) \<Rightarrow> Q a s1 | (Inl e, s1) \<Rightarrow> E e s1)"

lemma wpre_ret [wp]: "wpre (ret a) Q E s = Q a s"
  by (simp add: wpre_def run_apply)

lemma wpre_fail [wp]: "wpre (fail e) Q E s = E e s"
  by (simp add: wpre_def run_apply)

lemma wpre_andThen [wp]: "wpre (andThen m f) Q E s = wpre m (\<lambda>a. wpre (f a) Q E) E s"
  by (simp add: wpre_def andThen_def split: prod.splits sum.splits)

lemma wpre_attempt [wp]: "wpre (attempt m) Q E s = wpre m (\<lambda>a. Q (Inr a)) (\<lambda>e. Q (Inl e)) s"
  by (simp add: wpre_def attempt_def split: prod.splits sum.splits)

lemma wpre_lift [wp]:
  "wpre (lift r) Q E s = (case r of Inl e \<Rightarrow> E e s | Inr a \<Rightarrow> Q a s)"
  by (simp add: wpre_def run_apply split: sum.splits)

lemma wpre_if [wp]: "wpre (if b then m else n) Q E s = (if b then wpre m Q E s else wpre n Q E s)"
  by simp

lemma wpre_case_option [wp]:
  "wpre (case x of None \<Rightarrow> m | Some a \<Rightarrow> f a) Q E s =
   (case x of None \<Rightarrow> wpre m Q E s | Some a \<Rightarrow> wpre (f a) Q E s)"
  by (simp split: option.splits)

lemma wpre_case_sum [wp]:
  "wpre (case x of Inl a \<Rightarrow> f a | Inr b \<Rightarrow> g b) Q E s =
   (case x of Inl a \<Rightarrow> wpre (f a) Q E s | Inr b \<Rightarrow> wpre (g b) Q E s)"
  by (simp split: sum.splits)

lemma wpre_case_prod [wp]:
  "wpre (case x of (a, b) \<Rightarrow> f a b) Q E s = (case x of (a, b) \<Rightarrow> wpre (f a b) Q E s)"
  by (simp split: prod.splits)

lemma wpre_let [wp]: "wpre (let x = a in f x) Q E s = (let x = a in wpre (f x) Q E s)"
  by (simp add: Let_def)

lemma wpre_mono:
  assumes "wpre m Q E s" and "\<And>a s1. Q a s1 \<Longrightarrow> Q' a s1" and "\<And>e s1. E e s1 \<Longrightarrow> E' e s1"
  shows "wpre m Q' E' s"
  using assms by (auto simp: wpre_def split: prod.splits sum.splits)

lemma wpre_conj:
  "wpre m Q E s \<Longrightarrow> wpre m Q' E' s \<Longrightarrow>
   wpre m (\<lambda>a s1. Q a s1 \<and> Q' a s1) (\<lambda>e s1. E e s1 \<and> E' e s1) s"
  by (auto simp: wpre_def split: prod.splits sum.splits)

lemma wpre_InrD: "wpre m Q E s \<Longrightarrow> m s = (Inr a, s1) \<Longrightarrow> Q a s1"
  by (simp add: wpre_def)

lemma wpre_InlD: "wpre m Q E s \<Longrightarrow> m s = (Inl e, s1) \<Longrightarrow> E e s1"
  by (simp add: wpre_def)

lemma wpreI:
  "(\<And>a s1. m s = (Inr a, s1) \<Longrightarrow> Q a s1) \<Longrightarrow> (\<And>e s1. m s = (Inl e, s1) \<Longrightarrow> E e s1) \<Longrightarrow> wpre m Q E s"
  by (auto simp: wpre_def split: prod.splits sum.splits)

subsection \<open>Frames\<close>

text \<open>\<open>keeps ob m\<close>: the computation \<open>m\<close> never changes the observation \<open>ob\<close> of the world.\<close>

definition keeps :: "('s \<Rightarrow> 'o) \<Rightarrow> ('s, 'e, 'a) io \<Rightarrow> bool" where
  "keeps ob m \<longleftrightarrow> (\<forall>s. ob (snd (m s)) = ob s)"

lemma keepsI: "(\<And>s r s1. m s = (r, s1) \<Longrightarrow> ob s1 = ob s) \<Longrightarrow> keeps ob m"
  by (metis keeps_def prod.collapse)

lemma keepsD: "keeps ob m \<Longrightarrow> m s = (r, s1) \<Longrightarrow> ob s1 = ob s"
  by (metis keeps_def snd_conv)

lemma keeps_ret [frame]: "keeps ob (ret a)"
  by (simp add: keeps_def run_apply)

lemma keeps_fail [frame]: "keeps ob (fail e)"
  by (simp add: keeps_def run_apply)

lemma keeps_lift [frame]: "keeps ob (lift r)"
  by (simp add: keeps_def run_apply)

lemma keeps_andThen [frame]:
  "keeps ob m \<Longrightarrow> (\<And>a. keeps ob (f a)) \<Longrightarrow> keeps ob (andThen m f)"
  unfolding keeps_def andThen_def
  by (auto split: prod.splits sum.splits) (metis snd_conv)+

lemma keeps_attempt [frame]: "keeps ob m \<Longrightarrow> keeps ob (attempt m)"
  by (simp add: keeps_def attempt_def split: prod.splits) (metis snd_conv)

lemma keeps_if [frame]: "keeps ob m \<Longrightarrow> keeps ob n \<Longrightarrow> keeps ob (if b then m else n)"
  by simp

lemma keeps_case_option [frame]:
  "keeps ob m \<Longrightarrow> (\<And>a. keeps ob (f a)) \<Longrightarrow> keeps ob (case x of None \<Rightarrow> m | Some a \<Rightarrow> f a)"
  by (simp split: option.splits)

lemma keeps_case_sum [frame]:
  "(\<And>a. keeps ob (f a)) \<Longrightarrow> (\<And>b. keeps ob (g b)) \<Longrightarrow>
   keeps ob (case x of Inl a \<Rightarrow> f a | Inr b \<Rightarrow> g b)"
  by (simp split: sum.splits)

lemma keeps_case_prod [frame]:
  "(\<And>a b. keeps ob (f a b)) \<Longrightarrow> keeps ob (case x of (a, b) \<Rightarrow> f a b)"
  by (simp split: prod.splits)

lemma keeps_let [frame]: "(\<And>x. keeps ob (f x)) \<Longrightarrow> keeps ob (let x = a in f x)"
  by (simp add: Let_def)

lemma keeps_wpre: "keeps ob m \<Longrightarrow> wpre m (\<lambda>_ s1. ob s1 = ob s) (\<lambda>_ s1. ob s1 = ob s) s"
  by (auto simp: wpre_def split: prod.splits sum.splits dest: keepsD)

lemma wpre_keepsI:
  assumes "keeps ob m" and "keeps ob' m"
    and "\<And>a s1. m s = (Inr a, s1) \<Longrightarrow> ob s1 = ob s \<Longrightarrow> ob' s1 = ob' s \<Longrightarrow> Q a s1"
    and "\<And>e s1. m s = (Inl e, s1) \<Longrightarrow> ob s1 = ob s \<Longrightarrow> ob' s1 = ob' s \<Longrightarrow> E e s1"
  shows "wpre m Q E s"
  using assms(3,4) keepsD [OF assms(1)] keepsD [OF assms(2)] by (intro wpreI) blast+

section \<open>Object paths\<close>

type_synonym path = string

text \<open>The segments of a path: the strings between its slashes.\<close>

fun segs :: "path \<Rightarrow> string list" where
  "segs [] = [[]]"
| "segs (c # cs) =
     (if c = CHR ''/'' then [] # segs cs
      else case segs cs of [] \<Rightarrow> [[c]] | s # ss \<Rightarrow> (c # s) # ss)"

definition slash_free :: "string \<Rightarrow> bool" where
  "slash_free x \<longleftrightarrow> CHR ''/'' \<notin> set x"

lemma slash_free_simps [simp]:
  "slash_free []"
  "slash_free (c # cs) \<longleftrightarrow> c \<noteq> CHR ''/'' \<and> slash_free cs"
  "slash_free (xs @ ys) \<longleftrightarrow> slash_free xs \<and> slash_free ys"
  by (auto simp: slash_free_def)

lemma segs_nonempty [simp]: "segs p \<noteq> []"
  by (cases p) (auto split: list.splits)

lemma segs_slash_free [simp]: "slash_free x \<Longrightarrow> segs x = [x]"
  by (induction x) auto

lemma segs_append_slash [simp]:
  "slash_free x \<Longrightarrow> segs (x @ CHR ''/'' # p) = x # segs p"
  by (induction x) auto

lemma append_eq_same_tail: "(xs @ z = ys @ z) \<longleftrightarrow> xs = ys"
  by simp

section \<open>Sorting and searching\<close>

lemma sorted_list_of_set_filter:
  assumes "finite A"
  shows "filter P (sorted_list_of_set A) = sorted_list_of_set {x \<in> A. P x}"
proof -
  have "set (filter P (sorted_list_of_set A)) = {x \<in> A. P x}"
    using assms by auto
  moreover have "sorted (filter P (sorted_list_of_set A))"
    by (simp add: sorted_wrt_filter)
  moreover have "distinct (filter P (sorted_list_of_set A))"
    by simp
  ultimately show ?thesis
    by (metis sorted_list_of_set.idem_if_sorted_distinct)
qed

lemma sort_eq_sorted_list_of_set: "distinct xs \<Longrightarrow> sort xs = sorted_list_of_set (set xs)"
  by (rule sorted_list_of_set_sort_remdups [THEN ssubst]) (simp add: distinct_remdups_id)

end
