(* ===== verification/Messages.thy ===== *)
theory Messages
  imports Prelude Complex_Main
begin

text \<open>
  The data of the system: the protobuf contract of \<open>api/temporaless/v1/temporaless.proto\<close> as
  the Go runtime sees it, and the storage keys of \<open>core/go/storage/key.go\<close>.

  \<^item> A message pointer that may be nil is an \<open>option\<close>; a scalar has its zero value.
  \<^item> An open protobuf enum is a datatype with one constructor per declared value and one for
    every other wire value.
  \<^item> The five Go key structs share their first three fields, so the child keys extend the
    record \<open>WorkflowKey\<close>. A generated key message has the fields of its Go struct and is
    modelled by the same record.
  \<^item> A Go \<open>time.Time\<close> is an instant, a whole number of nanoseconds since the Unix epoch; a
    Go \<open>time.Duration\<close> is a number of nanoseconds.
  \<^item> A \<open>uint32\<close> is a \<open>nat\<close>; where the code adds to one, the wrap-around is written out.
\<close>

section \<open>Scalars\<close>

type_synonym time = int
type_synonym duration = int

text \<open>The zero \<open>time.Time\<close>, January 1 of year 1.\<close>

definition zero_time :: time where
  "zero_time = -62135596800 * 1000000000"

record Timestamp =
  ts_seconds :: int
  ts_nanos :: int

record Duration =
  du_seconds :: int
  du_nanos :: int

record Any =
  any_type_url :: string
  any_value :: string

text \<open>An IEEE double: the value of a finite one is a rational number.\<close>

datatype float64 = NaN | Infinity bool | Finite rat

section \<open>Enumerations\<close>

datatype RecordSchemaVersion =
    RECORD_SCHEMA_VERSION_UNSPECIFIED
  | RECORD_SCHEMA_VERSION_ACTIVITY
  | RECORD_SCHEMA_VERSION_WORKFLOW
  | RECORD_SCHEMA_VERSION_TIMER
  | RECORD_SCHEMA_VERSION_CLAIM
  | RECORD_SCHEMA_VERSION_EVENT
  | RECORD_SCHEMA_VERSION_OTHER int

datatype WorkflowStatus =
    WORKFLOW_STATUS_UNSPECIFIED
  | WORKFLOW_STATUS_COMPLETED
  | WORKFLOW_STATUS_FAILED
  | WORKFLOW_STATUS_IN_PROGRESS
  | WORKFLOW_STATUS_OTHER int

datatype ActivityStatus =
    ACTIVITY_STATUS_UNSPECIFIED
  | ACTIVITY_STATUS_COMPLETED
  | ACTIVITY_STATUS_FAILED
  | ACTIVITY_STATUS_RETRYING
  | ACTIVITY_STATUS_OTHER int

datatype TimerStatus =
    TIMER_STATUS_UNSPECIFIED
  | TIMER_STATUS_SCHEDULED
  | TIMER_STATUS_FIRED
  | TIMER_STATUS_CANCELED
  | TIMER_STATUS_OTHER int

datatype TimerKind =
    TIMER_KIND_UNSPECIFIED
  | TIMER_KIND_SLEEP
  | TIMER_KIND_ACTIVITY_RETRY
  | TIMER_KIND_POLL
  | TIMER_KIND_OTHER int

datatype ClaimResourceType =
    CLAIM_RESOURCE_TYPE_UNSPECIFIED
  | CLAIM_RESOURCE_TYPE_WORKFLOW
  | CLAIM_RESOURCE_TYPE_ACTIVITY
  | CLAIM_RESOURCE_TYPE_TIMER
  | CLAIM_RESOURCE_TYPE_CONCURRENCY_KEY
  | CLAIM_RESOURCE_TYPE_OTHER int

datatype ClaimCapability =
    CLAIM_CAPABILITY_UNSPECIFIED
  | CLAIM_CAPABILITY_NO_CLAIMS
  | CLAIM_CAPABILITY_CREATE_ONLY_CLAIMS
  | CLAIM_CAPABILITY_CAS_CLAIMS
  | CLAIM_CAPABILITY_OTHER int

datatype EventDeliveryCapability =
    EVENT_DELIVERY_CAPABILITY_UNSPECIFIED
  | EVENT_DELIVERY_CAPABILITY_NO_ATOMIC_CREATE
  | EVENT_DELIVERY_CAPABILITY_CREATE_ONLY
  | EVENT_DELIVERY_CAPABILITY_OTHER int

datatype EventDeliveryDisposition =
    EVENT_DELIVERY_DISPOSITION_UNSPECIFIED
  | EVENT_DELIVERY_DISPOSITION_CREATED
  | EVENT_DELIVERY_DISPOSITION_IDEMPOTENT
  | EVENT_DELIVERY_DISPOSITION_OTHER int

datatype FencedExecutionCapability =
    FENCED_EXECUTION_CAPABILITY_UNSPECIFIED
  | FENCED_EXECUTION_CAPABILITY_UNSUPPORTED
  | FENCED_EXECUTION_CAPABILITY_OTHER int

section \<open>Keys\<close>

record WorkflowKey =
  Namespace :: string
  WorkflowID :: string
  RunID :: string

record ActivityKey = WorkflowKey +
  ActivityID :: string

record TimerKey = WorkflowKey +
  TimerID :: string

record ClaimKey = WorkflowKey +
  ClaimID :: string

record EventKey = WorkflowKey +
  EventID :: string

section \<open>Records\<close>

record RetryPolicy =
  rp_InitialInterval :: "Duration option"
  rp_BackoffCoefficient :: float64
  rp_MaximumInterval :: "Duration option"
  rp_MaximumAttempts :: nat
  rp_NonRetryableErrorCodes :: "string list"
  rp_DurableBackoffThreshold :: "Duration option"

record ActivityFailure =
  af_Code :: string
  af_Message :: string
  af_RetryAfter :: "Duration option"

record ActivityAttempt =
  aa_Attempt :: nat
  aa_StartedAt :: "Timestamp option"
  aa_CompletedAt :: "Timestamp option"
  aa_Failure :: "ActivityFailure option"

record ActivityRecord =
  ar_SchemaVersion :: RecordSchemaVersion
  ar_Key :: "ActivityKey option"
  ar_ActivityType :: string
  ar_Input :: "Any option"
  ar_Status :: ActivityStatus
  ar_Result :: "Any option"
  ar_Failure :: "ActivityFailure option"
  ar_CreatedAt :: "Timestamp option"
  ar_CompletedAt :: "Timestamp option"
  ar_Attempts :: "ActivityAttempt list"
  ar_Annotations :: "string \<rightharpoonup> string"
  ar_NextAttemptAt :: "Timestamp option"
  ar_RetryPolicy :: "RetryPolicy option"
  ar_RetryTimerId :: string

record WorkflowRecord =
  wr_SchemaVersion :: RecordSchemaVersion
  wr_Key :: "WorkflowKey option"
  wr_WorkflowType :: string
  wr_Input :: "Any option"
  wr_Status :: WorkflowStatus
  wr_Result :: "Any option"
  wr_Failure :: "ActivityFailure option"
  wr_CreatedAt :: "Timestamp option"
  wr_CompletedAt :: "Timestamp option"
  wr_Annotations :: "string \<rightharpoonup> string"
  wr_RunOrderTime :: "Timestamp option"

record TimerRecord =
  tr_SchemaVersion :: RecordSchemaVersion
  tr_Key :: "TimerKey option"
  tr_TimerKind :: TimerKind
  tr_Duration :: "Duration option"
  tr_Status :: TimerStatus
  tr_FireAt :: "Timestamp option"
  tr_CreatedAt :: "Timestamp option"
  tr_FiredAt :: "Timestamp option"
  tr_RetryActivityId :: string

record EventRecord =
  er_SchemaVersion :: RecordSchemaVersion
  er_Key :: "EventKey option"
  er_Payload :: "Any option"
  er_ReceivedAt :: "Timestamp option"

record ClaimRecord =
  cr_SchemaVersion :: RecordSchemaVersion
  cr_Key :: "ClaimKey option"
  cr_OwnerId :: string
  cr_ResourceType :: ClaimResourceType
  cr_ResourceId :: string
  cr_LeaseExpiresAt :: "Timestamp option"
  cr_CreatedAt :: "Timestamp option"
  cr_HeartbeatAt :: "Timestamp option"

record LatestWorkflowRunPointer =
  lp_Key :: "WorkflowKey option"
  lp_Status :: WorkflowStatus
  lp_RecordTime :: "Timestamp option"
  lp_UpdatedAt :: "Timestamp option"
  lp_RunOrderTime :: "Timestamp option"

record DueTimerEntry =
  de_Key :: "TimerKey option"
  de_WorkflowKey :: "WorkflowKey option"
  de_FireAt :: "Timestamp option"
  de_Record :: "TimerRecord option"

section \<open>The library functions on well-known types\<close>

text \<open>
  \<open>CheckValid\<close>, \<open>AsTime\<close>, \<open>AsDuration\<close> and the constructors of
  \<open>google.golang.org/protobuf/types/known\<close> are not part of the repository: every definition
  that calls them takes them as an argument. The laws the code relies on are the assumptions
  of the locale \<open>well_known_types\<close>, each a sentence of that package's documentation.
\<close>

record wkt =
  Timestamp_CheckValid :: "Timestamp \<Rightarrow> bool"
  Timestamp_AsTime :: "Timestamp \<Rightarrow> time"
  Timestamp_New :: "time \<Rightarrow> Timestamp"
  Duration_CheckValid :: "Duration \<Rightarrow> bool"
  Duration_AsDuration :: "Duration \<Rightarrow> duration"
  Duration_New :: "duration \<Rightarrow> Duration"

text \<open>The range of \<open>time.Duration\<close>, an \<open>int64\<close>, and of a valid timestamp (years 1 to 9999).\<close>

definition int64_range :: "int \<Rightarrow> bool" where
  "int64_range d \<longleftrightarrow> -(2 ^ 63) \<le> d \<and> d < 2 ^ 63"

definition timestamp_range :: "time \<Rightarrow> bool" where
  "timestamp_range t \<longleftrightarrow> zero_time \<le> t \<and> t < 253402300800 * 1000000000"

locale well_known_types =
  fixes W :: "'m wkt_scheme"
  assumes timestamp_AsTime_New: "Timestamp_AsTime W (Timestamp_New W t) = t"
    and timestamp_CheckValid_New: "timestamp_range t \<Longrightarrow> Timestamp_CheckValid W (Timestamp_New W t)"
    and timestamp_AsTime_range: "Timestamp_CheckValid W ts \<Longrightarrow> timestamp_range (Timestamp_AsTime W ts)"
    and duration_AsDuration_New: "int64_range d \<Longrightarrow> Duration_AsDuration W (Duration_New W d) = d"
    and duration_CheckValid_New: "int64_range d \<Longrightarrow> Duration_CheckValid W (Duration_New W d)"
    and duration_AsDuration_range: "int64_range (Duration_AsDuration W du)"
begin

lemmas wkt_laws [simp] =
  timestamp_AsTime_New timestamp_CheckValid_New duration_AsDuration_New duration_CheckValid_New

lemma duration_New_inj:
  "int64_range d \<Longrightarrow> int64_range e \<Longrightarrow> Duration_New W d = Duration_New W e \<longleftrightarrow> d = e"
  by (metis duration_AsDuration_New)

lemma timestamp_New_inj: "Timestamp_New W t = Timestamp_New W u \<longleftrightarrow> t = u"
  by (metis timestamp_AsTime_New)

end

text \<open>
  The functions of the Go package, for evaluation: seconds and nanoseconds of an instant, and
  the truncating and saturating conversions of a duration.
\<close>

definition go_quot :: "int \<Rightarrow> int \<Rightarrow> int" where
  "go_quot a b = sgn a * (\<bar>a\<bar> div b)"

definition saturate64 :: "int \<Rightarrow> int" where
  "saturate64 d = (if d < -(2 ^ 63) then -(2 ^ 63) else if d \<ge> 2 ^ 63 then 2 ^ 63 - 1 else d)"

definition protobuf_wkt :: wkt where
  "protobuf_wkt =
     \<lparr>Timestamp_CheckValid = (\<lambda>t. -62135596800 \<le> ts_seconds t \<and> ts_seconds t < 253402300800 \<and>
        0 \<le> ts_nanos t \<and> ts_nanos t < 1000000000),
      Timestamp_AsTime = (\<lambda>t. ts_seconds t * 1000000000 + ts_nanos t),
      Timestamp_New = (\<lambda>t. \<lparr>ts_seconds = t div 1000000000, ts_nanos = t mod 1000000000\<rparr>),
      Duration_CheckValid = (\<lambda>d. \<bar>du_seconds d\<bar> \<le> 315576000000 \<and> \<bar>du_nanos d\<bar> < 1000000000 \<and>
        \<not> (du_seconds d < 0 \<and> du_nanos d > 0) \<and> \<not> (du_seconds d > 0 \<and> du_nanos d < 0)),
      Duration_AsDuration = (\<lambda>d. saturate64 (du_seconds d * 1000000000 + du_nanos d)),
      Duration_New = (\<lambda>d. \<lparr>du_seconds = go_quot d 1000000000,
        du_nanos = d - go_quot d 1000000000 * 1000000000\<rparr>)\<rparr>"

lemma go_quot_bounds:
  assumes "0 < b"
  shows "\<bar>a - go_quot a b * b\<bar> < b" "a \<ge> 0 \<Longrightarrow> a - go_quot a b * b \<ge> 0" "a \<ge> 0 \<Longrightarrow> go_quot a b \<ge> 0"
    "a \<le> 0 \<Longrightarrow> a - go_quot a b * b \<le> 0" "a \<le> 0 \<Longrightarrow> go_quot a b \<le> 0" "\<bar>go_quot a b\<bar> * b \<le> \<bar>a\<bar>"
proof -
  have m: "\<bar>a\<bar> = \<bar>a\<bar> div b * b + \<bar>a\<bar> mod b" "0 \<le> \<bar>a\<bar> mod b" "\<bar>a\<bar> mod b < b" "0 \<le> \<bar>a\<bar> div b"
    using assms by (simp_all add: pos_imp_zdiv_nonneg_iff)
  consider "a = 0" | "a > 0" | "a < 0" by linarith
  then show "\<bar>a - go_quot a b * b\<bar> < b" "a \<ge> 0 \<Longrightarrow> a - go_quot a b * b \<ge> 0" "a \<ge> 0 \<Longrightarrow> go_quot a b \<ge> 0"
    "a \<le> 0 \<Longrightarrow> a - go_quot a b * b \<le> 0" "a \<le> 0 \<Longrightarrow> go_quot a b \<le> 0" "\<bar>go_quot a b\<bar> * b \<le> \<bar>a\<bar>"
    using assms m by (cases; simp add: go_quot_def abs_mult; linarith)+
qed

lemma duration_New_valid:
  assumes "int64_range d"
  shows "Duration_CheckValid protobuf_wkt (Duration_New protobuf_wkt d)"
proof -
  let ?q = "go_quot d 1000000000"
  note b = go_quot_bounds [of 1000000000 d, simplified]
  have "\<bar>?q\<bar> * 1000000000 \<le> 2 ^ 63" using b(6) assms unfolding int64_range_def by linarith
  then have "\<bar>?q\<bar> \<le> 315576000000" by simp
  moreover have "\<not> (?q < 0 \<and> d - ?q * 1000000000 > 0)" "\<not> (?q > 0 \<and> d - ?q * 1000000000 < 0)"
    using b(2-5) by linarith+
  ultimately show ?thesis
    using b(1) by (simp add: protobuf_wkt_def)
qed

interpretation pb: well_known_types protobuf_wkt
  by unfold_locales
     (auto simp: duration_New_valid, auto simp: protobuf_wkt_def saturate64_def int64_range_def
       timestamp_range_def zero_time_def div_less_iff_less_mult)

end
