(* ===== verification/GoErrors.thy ===== *)
theory GoErrors
  imports Messages
begin

text \<open>
  Go error values. An error is a tree: \<open>fmt.Errorf\<close> with \<open>%w\<close> operands and \<open>errors.Join\<close> give a
  node its children, and the error types of the repository have the \<open>Unwrap\<close> and \<open>Is\<close>
  methods the source gives them. \<open>errors.Is\<close> and \<open>errors.As\<close> search the tree in pre-order.
  The text of a message is kept as its constant part; a formatted operand is not.
\<close>

section \<open>Error values\<close>

datatype sentinel =
    \<comment> \<open>package context\<close>
    Canceled | DeadlineExceeded
    \<comment> \<open>core/go/storage\<close>
  | ErrInvalidQuery | ErrCorruptRecord | ErrStaleLatestPointer
  | ErrFencedExecutionUnsupported | ErrEventDeliveryUnsupported | ErrEventDeliveryConflict
    \<comment> \<open>core/go/workflow\<close>
  | ErrActivityConflict | ErrActivityFailed | ErrClaimBusy | ErrClaimRelease
  | ErrEventPending | ErrTimerConflict | ErrTimerPending | ErrWorkflowConflict
  | ErrWorkflowDependencyPending | ErrWorkflowDependencyFailed | ErrWorkflowInfrastructure
  | ErrClaimCapabilityUnsupported | ErrConcurrencyBusy | ErrUserPanic
    \<comment> \<open>adapters/go\<close>
  | ErrClaimRunListingUnsupported | ErrJanitorClaimCapabilityUnsupported | ErrRunListingDataLoss
  | ErrInvalidPlan | ErrApprovalDigestMismatch
  | ErrShuttingDown | ErrUnknownMethod | ErrTypeMismatch | ErrSubmissionDrainTimeout

datatype opendal_code = CodeNotFound | CodeOther int

text \<open>The codes of \<open>gocloud.dev/gcerrors\<close> the code tells apart, and those of a Connect error.\<close>

datatype gc_code = GcNotFound | GcAlreadyExists | GcFailedPrecondition | GcOther int

datatype connect_code =
    ConnCanceled | ConnUnknown | ConnInvalidArgument | ConnDeadlineExceeded | ConnNotFound
  | ConnAlreadyExists | ConnPermissionDenied | ConnResourceExhausted | ConnFailedPrecondition
  | ConnAborted | ConnOutOfRange | ConnUnimplemented | ConnInternal | ConnUnavailable
  | ConnDataLoss | ConnUnauthenticated

text \<open>
  \<open>Plain\<close> is an error with no children of its own (\<open>errors.New\<close>, \<open>fmt.Errorf\<close> without
  \<open>%w\<close>, a failed protovalidate check, an application's own error), \<open>Wrapped\<close> one made by
  \<open>fmt.Errorf\<close> with \<open>%w\<close> operands. \<open>OutOfFuel\<close> is not a Go error: it is what a bounded
  model of an unbounded loop returns when its bound is exceeded.
\<close>

datatype go_error =
    Sentinel sentinel
  | Plain string
  | Wrapped string "go_error list"
  | Joined "go_error list"
  | OpenDALError opendal_code
  | GcError gc_code
  | ConnectError connect_code go_error
  | ActivityError string string duration "go_error option"
  | WorkflowInfrastructureError string go_error
  | TimerPendingError string time
  | EventPendingError string time
  | ClaimBusyError string string time ClaimCapability
  | WorkflowDependencyPendingError string string time
  | WorkflowDependencyFailedError string string int
  | UserPanicError string string string
  | ConcurrencyBusyError string nat
  | ClaimCapabilityError ClaimCapability string
  | EventDeliveryConflictError EventKey
  | OutOfFuel

type_synonym 'a result = "go_error + 'a"
type_synonym ('s, 'a) prog = "('s, go_error, 'a) io"

section \<open>errors.Is and errors.As\<close>

text \<open>The error tree in the order \<open>errors.Is\<close> and \<open>errors.As\<close> visit it.\<close>

fun chain :: "go_error \<Rightarrow> go_error list" where
  "chain (Wrapped t es) = Wrapped t es # concat (map chain es)"
| "chain (Joined es) = Joined es # concat (map chain es)"
| "chain (ActivityError c m r (Some cause)) = ActivityError c m r (Some cause) # chain cause"
| "chain (ActivityError c m r None) =
     [ActivityError c m r None, Sentinel ErrActivityFailed]"
| "chain (WorkflowInfrastructureError op cause) =
     WorkflowInfrastructureError op cause # chain cause"
| "chain (TimerPendingError i w) = [TimerPendingError i w, Sentinel ErrTimerPending]"
| "chain (EventPendingError i w) = [EventPendingError i w, Sentinel ErrEventPending]"
| "chain (ClaimBusyError c ow l cap) = [ClaimBusyError c ow l cap, Sentinel ErrClaimBusy]"
| "chain (WorkflowDependencyPendingError w r t) =
     [WorkflowDependencyPendingError w r t, Sentinel ErrWorkflowDependencyPending]"
| "chain (WorkflowDependencyFailedError w r st) =
     [WorkflowDependencyFailedError w r st, Sentinel ErrWorkflowDependencyFailed]"
| "chain (ConcurrencyBusyError k l) = [ConcurrencyBusyError k l, Sentinel ErrConcurrencyBusy]"
| "chain (ClaimCapabilityError c opt) =
     [ClaimCapabilityError c opt, Sentinel ErrClaimCapabilityUnsupported]"
| "chain (EventDeliveryConflictError k) =
     [EventDeliveryConflictError k, Sentinel ErrEventDeliveryConflict]"
| "chain (Sentinel t) = [Sentinel t]"
| "chain (Plain t) = [Plain t]"
| "chain (OpenDALError c) = [OpenDALError c]"
| "chain (GcError g) = [GcError g]"
| "chain (ConnectError k e) = ConnectError k e # chain e"
| "chain (UserPanicError b v m) = [UserPanicError b v m]"
| "chain OutOfFuel = [OutOfFuel]"

text \<open>
  Whether one node of the tree is the target: equality with the sentinel, or the node's own
  \<open>Is\<close> method (\<open>WorkflowInfrastructureError\<close> and \<open>UserPanicError\<close> have one).
\<close>

fun is_target :: "sentinel \<Rightarrow> go_error \<Rightarrow> bool" where
  "is_target t (Sentinel u) = (u = t)"
| "is_target t (WorkflowInfrastructureError op cause) = (t = ErrWorkflowInfrastructure)"
| "is_target t (UserPanicError b v m) = (t = ErrUserPanic)"
| "is_target t _ = False"

definition errors_Is :: "go_error \<Rightarrow> sentinel \<Rightarrow> bool" where
  "errors_Is e t = list_ex (is_target t) (chain e)"

text \<open>\<open>errors.As\<close>: the first node of the tree that a type assertion accepts.\<close>

definition errors_As :: "(go_error \<Rightarrow> bool) \<Rightarrow> go_error \<Rightarrow> go_error option" where
  "errors_As asserts e = find asserts (chain e)"

fun is_ActivityError :: "go_error \<Rightarrow> bool" where
  "is_ActivityError (ActivityError c m r cause) = True"
| "is_ActivityError _ = False"

fun is_UserPanicError :: "go_error \<Rightarrow> bool" where
  "is_UserPanicError (UserPanicError b v m) = True"
| "is_UserPanicError _ = False"

fun is_WorkflowInfrastructureError :: "go_error \<Rightarrow> bool" where
  "is_WorkflowInfrastructureError (WorkflowInfrastructureError op cause) = True"
| "is_WorkflowInfrastructureError _ = False"

fun is_OpenDALError :: "go_error \<Rightarrow> bool" where
  "is_OpenDALError (OpenDALError c) = True"
| "is_OpenDALError _ = False"

lemma chain_head: "\<exists>es. chain e = e # es"
  by (cases e rule: chain.cases) auto

lemma chain_nonempty [simp]: "chain e \<noteq> []"
  using chain_head [of e] by auto

lemma errors_Is_Wrapped [simp]:
  "errors_Is (Wrapped t es) u \<longleftrightarrow> list_ex (\<lambda>e. errors_Is e u) es"
  by (auto simp: errors_Is_def list_ex_iff)

lemma errors_Is_Joined [simp]: "errors_Is (Joined es) u \<longleftrightarrow> list_ex (\<lambda>e. errors_Is e u) es"
  by (auto simp: errors_Is_def list_ex_iff)

lemma errors_Is_leaf [simp]:
  "errors_Is (Sentinel t) u \<longleftrightarrow> t = u"
  "errors_Is (Plain x) u \<longleftrightarrow> False"
  "errors_Is (OpenDALError c) u \<longleftrightarrow> False"
  "errors_Is (GcError g) u \<longleftrightarrow> False"
  "errors_Is (ConnectError co ce) u \<longleftrightarrow> errors_Is ce u"
  "errors_Is OutOfFuel u \<longleftrightarrow> False"
  "errors_Is (TimerPendingError i w) u \<longleftrightarrow> u = ErrTimerPending"
  "errors_Is (EventPendingError i w) u \<longleftrightarrow> u = ErrEventPending"
  "errors_Is (ClaimBusyError ci ow l cap) u \<longleftrightarrow> u = ErrClaimBusy"
  "errors_Is (UserPanicError b v m) u \<longleftrightarrow> u = ErrUserPanic"
  "errors_Is (ConcurrencyBusyError k n) u \<longleftrightarrow> u = ErrConcurrencyBusy"
  "errors_Is (WorkflowInfrastructureError op cause) u \<longleftrightarrow>
     u = ErrWorkflowInfrastructure \<or> errors_Is cause u"
  by (auto simp: errors_Is_def)

lemma errors_As_eq_Some: "errors_As P e = Some x \<Longrightarrow> P x \<and> x \<in> set (chain e)"
  by (auto simp: errors_As_def find_Some_iff)

lemma errors_As_eq_None: "errors_As P e = None \<longleftrightarrow> (\<forall>x \<in> set (chain e). \<not> P x)"
  by (auto simp: errors_As_def find_None_iff)

text \<open>\<open>gcerrors.Code\<close> of an error that no cloud driver made is \<open>Unknown\<close>.\<close>

fun is_GcError :: "go_error \<Rightarrow> bool" where
  "is_GcError (GcError c) = True"
| "is_GcError _ = False"

definition gcerrors_Is :: "go_error \<Rightarrow> gc_code \<Rightarrow> bool" where
  "gcerrors_Is e c = (errors_As is_GcError e = Some (GcError c))"

section \<open>Constructors of the storage package\<close>

definition corruptRecordf :: "string \<Rightarrow> go_error" where
  "corruptRecordf t = Wrapped t [Sentinel ErrCorruptRecord]"

definition staleLatestPointerf :: "string \<Rightarrow> go_error" where
  "staleLatestPointerf t = Wrapped t [Sentinel ErrStaleLatestPointer]"

definition isOpenDALNotFound :: "go_error \<Rightarrow> bool" where
  "isOpenDALNotFound e = (errors_As is_OpenDALError e = Some (OpenDALError CodeNotFound))"

lemma corrupt_Is [simp]: "errors_Is (corruptRecordf t) u \<longleftrightarrow> u = ErrCorruptRecord"
  by (auto simp: corruptRecordf_def)

lemma stale_Is [simp]: "errors_Is (staleLatestPointerf t) u \<longleftrightarrow> u = ErrStaleLatestPointer"
  by (auto simp: staleLatestPointerf_def)

lemma isOpenDALNotFound_simps [simp]:
  "isOpenDALNotFound (OpenDALError c) \<longleftrightarrow> c = CodeNotFound"
  "\<not> isOpenDALNotFound (corruptRecordf t)"
  "\<not> isOpenDALNotFound (Sentinel u)"
  "\<not> isOpenDALNotFound (Plain t)"
  by (auto simp: isOpenDALNotFound_def errors_As_def corruptRecordf_def)

end
