(* ===== verification/Keys.thy ===== *)
theory Keys
  imports GoErrors
begin

text \<open>
  Storage keys and deterministic object paths: \<open>core/go/storage/key.go\<close>, the field rules the
  key messages carry in \<open>temporaless.proto\<close> (which \<open>protovalidate.Validate\<close> enforces), and the
  due-ledger path builders of \<open>core/go/storage/opendal.go\<close>.

  The theorems at the end say that the path scheme is a faithful addressing scheme: two
  objects of any kind share a path only when they have the same kind and the same key, and the
  objects below a run's directory are exactly the records of that run.
\<close>

section \<open>Keys\<close>

definition DefaultNamespace :: string where
  "DefaultNamespace = ''default''"

definition withDefaults :: "'m WorkflowKey_scheme \<Rightarrow> 'm WorkflowKey_scheme" where
  "withDefaults key = (if Namespace key = [] then key\<lparr>Namespace := DefaultNamespace\<rparr> else key)"

definition NewWorkflowKey :: "string \<Rightarrow> string \<Rightarrow> WorkflowKey" where
  "NewWorkflowKey w r = \<lparr>Namespace = DefaultNamespace, WorkflowID = w, RunID = r\<rparr>"

definition NewActivityKey :: "string \<Rightarrow> string \<Rightarrow> string \<Rightarrow> ActivityKey" where
  "NewActivityKey w r a =
     \<lparr>Namespace = DefaultNamespace, WorkflowID = w, RunID = r, ActivityID = a\<rparr>"

definition NewTimerKey :: "string \<Rightarrow> string \<Rightarrow> string \<Rightarrow> TimerKey" where
  "NewTimerKey w r t = \<lparr>Namespace = DefaultNamespace, WorkflowID = w, RunID = r, TimerID = t\<rparr>"

definition NewClaimKey :: "string \<Rightarrow> string \<Rightarrow> string \<Rightarrow> ClaimKey" where
  "NewClaimKey w r c = \<lparr>Namespace = DefaultNamespace, WorkflowID = w, RunID = r, ClaimID = c\<rparr>"

definition NewEventKey :: "string \<Rightarrow> string \<Rightarrow> string \<Rightarrow> EventKey" where
  "NewEventKey w r e = \<lparr>Namespace = DefaultNamespace, WorkflowID = w, RunID = r, EventID = e\<rparr>"

definition WorkflowKeyFromProto :: "WorkflowKey option \<Rightarrow> WorkflowKey" where
  "WorkflowKeyFromProto key =
     (case key of None \<Rightarrow> \<lparr>Namespace = [], WorkflowID = [], RunID = []\<rparr> | Some k \<Rightarrow> k)"

definition ActivityKeyFromProto :: "ActivityKey option \<Rightarrow> ActivityKey" where
  "ActivityKeyFromProto key =
     (case key of None \<Rightarrow> \<lparr>Namespace = [], WorkflowID = [], RunID = [], ActivityID = []\<rparr>
      | Some k \<Rightarrow> k)"

definition TimerKeyFromProto :: "TimerKey option \<Rightarrow> TimerKey" where
  "TimerKeyFromProto key =
     (case key of None \<Rightarrow> \<lparr>Namespace = [], WorkflowID = [], RunID = [], TimerID = []\<rparr>
      | Some k \<Rightarrow> k)"

definition ClaimKeyFromProto :: "ClaimKey option \<Rightarrow> ClaimKey" where
  "ClaimKeyFromProto key =
     (case key of None \<Rightarrow> \<lparr>Namespace = [], WorkflowID = [], RunID = [], ClaimID = []\<rparr>
      | Some k \<Rightarrow> k)"

definition EventKeyFromProto :: "EventKey option \<Rightarrow> EventKey" where
  "EventKeyFromProto key =
     (case key of None \<Rightarrow> \<lparr>Namespace = [], WorkflowID = [], RunID = [], EventID = []\<rparr>
      | Some k \<Rightarrow> k)"

text \<open>The five \<open>Proto\<close> methods: the key message carries the defaulted namespace.\<close>

definition Proto :: "'m WorkflowKey_scheme \<Rightarrow> 'm WorkflowKey_scheme" where
  "Proto key = withDefaults key"

text \<open>The run a child key belongs to, the \<open>WorkflowKey{...}\<close> literals of the storage code.\<close>

definition runKey :: "'m WorkflowKey_scheme \<Rightarrow> WorkflowKey" where
  "runKey key = \<lparr>Namespace = Namespace key, WorkflowID = WorkflowID key, RunID = RunID key\<rparr>"

section \<open>Validation rules of the key messages\<close>

definition segment_char :: "char \<Rightarrow> bool" where
  "segment_char c \<longleftrightarrow>
     list_ex (\<lambda>(lo, hi). lo \<le> c \<and> c \<le> hi)
       [(CHR ''A'', CHR ''Z''), (CHR ''a'', CHR ''z''), (CHR ''0'', CHR ''9'')] \<or>
     c \<in> set ''._:=-''"

text \<open>\<open>min_len: 1\<close>, the pattern \<open>^[A-Za-z0-9._:=-]+$\<close> and the rule \<open>not_dot_path\<close>.\<close>

definition path_segment :: "string \<Rightarrow> bool" where
  "path_segment s \<longleftrightarrow> s \<noteq> [] \<and> list_all segment_char s \<and> s \<noteq> ''.'' \<and> s \<noteq> ''..''"

text \<open>The rule \<open>not_system_prefix\<close>: \<open>!this.startsWith('_')\<close>.\<close>

definition not_system_prefix :: "string \<Rightarrow> bool" where
  "not_system_prefix s \<longleftrightarrow> \<not> prefix ''_'' s"

definition WorkflowKey_rules :: "'m WorkflowKey_scheme \<Rightarrow> bool" where
  "WorkflowKey_rules key \<longleftrightarrow>
     path_segment (Namespace key) \<and> not_system_prefix (Namespace key) \<and>
     path_segment (WorkflowID key) \<and> not_system_prefix (WorkflowID key) \<and>
     path_segment (RunID key)"

definition ActivityKey_rules :: "ActivityKey \<Rightarrow> bool" where
  "ActivityKey_rules key \<longleftrightarrow> WorkflowKey_rules key \<and> path_segment (ActivityID key)"

definition TimerKey_rules :: "TimerKey \<Rightarrow> bool" where
  "TimerKey_rules key \<longleftrightarrow> WorkflowKey_rules key \<and> path_segment (TimerID key)"

definition EventKey_rules :: "EventKey \<Rightarrow> bool" where
  "EventKey_rules key \<longleftrightarrow> WorkflowKey_rules key \<and> path_segment (EventID key)"

definition ClaimKey_rules :: "ClaimKey \<Rightarrow> bool" where
  "ClaimKey_rules key \<longleftrightarrow>
     path_segment (Namespace key) \<and> not_system_prefix (Namespace key) \<and>
     path_segment (WorkflowID key) \<and>
     (WorkflowID key = ''__concurrency__'' \<or> not_system_prefix (WorkflowID key)) \<and>
     path_segment (RunID key) \<and> path_segment (ClaimID key)"

definition protovalidate :: "bool \<Rightarrow> unit result" where
  "protovalidate rules = (if rules then Inr () else Inl (Plain ''validation error''))"

definition WorkflowKey_Validate :: "WorkflowKey \<Rightarrow> unit result" where
  "WorkflowKey_Validate key = protovalidate (WorkflowKey_rules (Proto (withDefaults key)))"

definition ActivityKey_Validate :: "ActivityKey \<Rightarrow> unit result" where
  "ActivityKey_Validate key = protovalidate (ActivityKey_rules (Proto (withDefaults key)))"

definition TimerKey_Validate :: "TimerKey \<Rightarrow> unit result" where
  "TimerKey_Validate key = protovalidate (TimerKey_rules (Proto (withDefaults key)))"

definition ClaimKey_Validate :: "ClaimKey \<Rightarrow> unit result" where
  "ClaimKey_Validate key = protovalidate (ClaimKey_rules (Proto (withDefaults key)))"

definition EventKey_Validate :: "EventKey \<Rightarrow> unit result" where
  "EventKey_Validate key = protovalidate (EventKey_rules (Proto (withDefaults key)))"

section \<open>Paths\<close>

definition StorageRootPrefix :: path where
  "StorageRootPrefix = ''temporaless/v2''"

definition runPrefix :: "string \<Rightarrow> string \<Rightarrow> string \<Rightarrow> path" where
  "runPrefix n w r = StorageRootPrefix @ ''/'' @ n @ ''/'' @ w @ ''/'' @ r"

definition latestWorkflowRunPointerPath :: "string \<Rightarrow> string \<Rightarrow> path result" where
  "latestWorkflowRunPointerPath namespace workflowID =
     (let key = withDefaults
            \<lparr>Namespace = namespace, WorkflowID = workflowID, RunID = ''placeholder''\<rparr>
      in case WorkflowKey_Validate key of
           Inl e \<Rightarrow> Inl e
         | Inr _ \<Rightarrow> Inr (StorageRootPrefix @ ''/'' @ Namespace key @ ''/_latest/'' @
                         WorkflowID key @ ''.binpb''))"

definition WorkflowKey_Path :: "WorkflowKey \<Rightarrow> path result" where
  "WorkflowKey_Path key0 =
     (let key = withDefaults key0 in
      case WorkflowKey_Validate key of
        Inl e \<Rightarrow> Inl e
      | Inr _ \<Rightarrow> Inr (runPrefix (Namespace key) (WorkflowID key) (RunID key) @ ''/workflow.binpb''))"

definition WorkflowKey_DirPath :: "WorkflowKey \<Rightarrow> path result" where
  "WorkflowKey_DirPath key0 =
     (let key = withDefaults key0 in
      case WorkflowKey_Validate key of
        Inl e \<Rightarrow> Inl e
      | Inr _ \<Rightarrow> Inr (runPrefix (Namespace key) (WorkflowID key) (RunID key) @ ''/''))"

definition ActivityKey_Path :: "ActivityKey \<Rightarrow> path result" where
  "ActivityKey_Path key0 =
     (let key = withDefaults key0 in
      case ActivityKey_Validate key of
        Inl e \<Rightarrow> Inl e
      | Inr _ \<Rightarrow> Inr (runPrefix (Namespace key) (WorkflowID key) (RunID key) @ ''/activity/'' @
                      ActivityID key @ ''.binpb''))"

definition TimerKey_Path :: "TimerKey \<Rightarrow> path result" where
  "TimerKey_Path key0 =
     (let key = withDefaults key0 in
      case TimerKey_Validate key of
        Inl e \<Rightarrow> Inl e
      | Inr _ \<Rightarrow> Inr (runPrefix (Namespace key) (WorkflowID key) (RunID key) @ ''/timer/'' @
                      TimerID key @ ''.binpb''))"

definition ClaimKey_Path :: "ClaimKey \<Rightarrow> path result" where
  "ClaimKey_Path key0 =
     (let key = withDefaults key0 in
      case ClaimKey_Validate key of
        Inl e \<Rightarrow> Inl e
      | Inr _ \<Rightarrow> Inr (runPrefix (Namespace key) (WorkflowID key) (RunID key) @ ''/claim/'' @
                      ClaimID key @ ''.binpb''))"

definition EventKey_Path :: "EventKey \<Rightarrow> path result" where
  "EventKey_Path key0 =
     (let key = withDefaults key0 in
      case EventKey_Validate key of
        Inl e \<Rightarrow> Inl e
      | Inr _ \<Rightarrow> Inr (runPrefix (Namespace key) (WorkflowID key) (RunID key) @ ''/event/'' @
                      EventID key @ ''.binpb''))"

definition ActivityKey_DirPath :: "ActivityKey \<Rightarrow> path result" where
  "ActivityKey_DirPath key0 =
     (let key = withDefaults key0 in
      case ActivityKey_Validate key of
        Inl e \<Rightarrow> Inl e
      | Inr _ \<Rightarrow> Inr (runPrefix (Namespace key) (WorkflowID key) (RunID key) @ ''/activity/''))"

definition TimerKey_DirPath :: "TimerKey \<Rightarrow> path result" where
  "TimerKey_DirPath key0 =
     (let key = withDefaults key0 in
      case TimerKey_Validate key of
        Inl e \<Rightarrow> Inl e
      | Inr _ \<Rightarrow> Inr (runPrefix (Namespace key) (WorkflowID key) (RunID key) @ ''/timer/''))"

definition ClaimKey_DirPath :: "ClaimKey \<Rightarrow> path result" where
  "ClaimKey_DirPath key0 =
     (let key = withDefaults key0 in
      case ClaimKey_Validate key of
        Inl e \<Rightarrow> Inl e
      | Inr _ \<Rightarrow> Inr (runPrefix (Namespace key) (WorkflowID key) (RunID key) @ ''/claim/''))"

definition EventKey_DirPath :: "EventKey \<Rightarrow> path result" where
  "EventKey_DirPath key0 =
     (let key = withDefaults key0 in
      case EventKey_Validate key of
        Inl e \<Rightarrow> Inl e
      | Inr _ \<Rightarrow> Inr (runPrefix (Namespace key) (WorkflowID key) (RunID key) @ ''/event/''))"

definition dueRoot :: "string \<Rightarrow> path" where
  "dueRoot namespace = StorageRootPrefix @ ''/'' @ namespace @ ''/_due/''"

definition dueInvalidRoot :: "string \<Rightarrow> path" where
  "dueInvalidRoot namespace = StorageRootPrefix @ ''/'' @ namespace @ ''/_due_invalid/''"

definition dueEntryPath :: "TimerKey \<Rightarrow> path result" where
  "dueEntryPath key0 =
     (let key = withDefaults key0 in
      case TimerKey_Validate key of
        Inl e \<Rightarrow> Inl e
      | Inr _ \<Rightarrow> Inr (dueRoot (Namespace key) @ WorkflowID key @ ''/'' @ RunID key @ ''/'' @
                      TimerID key @ ''.binpb''))"

definition dueRunRoot :: "WorkflowKey \<Rightarrow> path result" where
  "dueRunRoot key0 =
     (let key = withDefaults key0 in
      case WorkflowKey_Validate key of
        Inl e \<Rightarrow> Inl e
      | Inr _ \<Rightarrow> Inr (dueRoot (Namespace key) @ WorkflowID key @ ''/'' @ RunID key @ ''/''))"

definition sameWorkflowRun :: "WorkflowKey \<Rightarrow> WorkflowKey \<Rightarrow> bool" where
  "sameWorkflowRun left right \<longleftrightarrow>
     (let leftNamespace = (if Namespace left = [] then DefaultNamespace else Namespace left);
          rightNamespace = (if Namespace right = [] then DefaultNamespace else Namespace right)
      in leftNamespace = rightNamespace \<and> WorkflowID left = WorkflowID right \<and>
         RunID left = RunID right)"

section \<open>Objects and their addresses\<close>

text \<open>
  Every object the runtime addresses by a deterministic path: the five record kinds of a run,
  the latest-run pointer of a workflow and the due-ledger entry of a timer.
\<close>

datatype object_id =
    ObjWorkflow WorkflowKey
  | ObjActivity ActivityKey
  | ObjTimer TimerKey
  | ObjEvent EventKey
  | ObjClaim ClaimKey
  | ObjLatest string string
  | ObjDue TimerKey

fun object_path :: "object_id \<Rightarrow> path result" where
  "object_path (ObjWorkflow k) = WorkflowKey_Path k"
| "object_path (ObjActivity k) = ActivityKey_Path k"
| "object_path (ObjTimer k) = TimerKey_Path k"
| "object_path (ObjEvent k) = EventKey_Path k"
| "object_path (ObjClaim k) = ClaimKey_Path k"
| "object_path (ObjLatest n w) = latestWorkflowRunPointerPath n w"
| "object_path (ObjDue k) = dueEntryPath k"

text \<open>The identity of an object: its kind and its key with the default namespace filled in.\<close>

fun canonical :: "object_id \<Rightarrow> object_id" where
  "canonical (ObjWorkflow k) = ObjWorkflow (withDefaults k)"
| "canonical (ObjActivity k) = ObjActivity (withDefaults k)"
| "canonical (ObjTimer k) = ObjTimer (withDefaults k)"
| "canonical (ObjEvent k) = ObjEvent (withDefaults k)"
| "canonical (ObjClaim k) = ObjClaim (withDefaults k)"
| "canonical (ObjLatest n w) = ObjLatest (if n = [] then DefaultNamespace else n) w"
| "canonical (ObjDue k) = ObjDue (withDefaults k)"

text \<open>The run whose directory holds the object; pointers and ledger entries are in none.\<close>

fun object_run :: "object_id \<Rightarrow> WorkflowKey option" where
  "object_run (ObjWorkflow k) = Some (withDefaults k)"
| "object_run (ObjActivity k) = Some (runKey (withDefaults k))"
| "object_run (ObjTimer k) = Some (runKey (withDefaults k))"
| "object_run (ObjEvent k) = Some (runKey (withDefaults k))"
| "object_run (ObjClaim k) = Some (runKey (withDefaults k))"
| "object_run (ObjLatest n w) = None"
| "object_run (ObjDue k) = None"

section \<open>Library lemmas\<close>

lemma withDefaults_idem [simp]: "withDefaults (withDefaults k) = withDefaults k"
  by (simp add: withDefaults_def DefaultNamespace_def)

lemma withDefaults_sel [simp]:
  "WorkflowID (withDefaults k) = WorkflowID k"
  "RunID (withDefaults k) = RunID k"
  "ActivityID (withDefaults a) = ActivityID a"
  "TimerID (withDefaults t) = TimerID t"
  "ClaimID (withDefaults c) = ClaimID c"
  "EventID (withDefaults e) = EventID e"
  by (simp_all add: withDefaults_def)

lemma Namespace_withDefaults:
  "Namespace (withDefaults k) = (if Namespace k = [] then DefaultNamespace else Namespace k)"
  by (simp add: withDefaults_def)

lemma withDefaults_literal:
  "withDefaults \<lparr>Namespace = n, WorkflowID = w, RunID = r, \<dots> = m\<rparr> =
     \<lparr>Namespace = if n = [] then DefaultNamespace else n, WorkflowID = w, RunID = r, \<dots> = m\<rparr>"
  by (simp add: withDefaults_def)

lemma withDefaults_id [simp]: "Namespace k \<noteq> [] \<Longrightarrow> withDefaults k = k"
  by (simp add: withDefaults_def)

lemma runKey_sel [simp]:
  "Namespace (runKey k) = Namespace k" "WorkflowID (runKey k) = WorkflowID k"
  "RunID (runKey k) = RunID k"
  by (simp_all add: runKey_def)

lemma runKey_eq_iff:
  "runKey a = k \<longleftrightarrow> Namespace a = Namespace k \<and> WorkflowID a = WorkflowID k \<and> RunID a = RunID k"
  by (cases k) (auto simp: runKey_def)

lemma runKey_withDefaults: "runKey (withDefaults k) = withDefaults (runKey k)"
  by (simp add: runKey_def withDefaults_def)

lemma FromProto_Some [simp]:
  "WorkflowKeyFromProto (Some w) = w" "ActivityKeyFromProto (Some a) = a"
  "TimerKeyFromProto (Some t) = t" "ClaimKeyFromProto (Some c) = c" "EventKeyFromProto (Some e) = e"
  by (simp_all add: WorkflowKeyFromProto_def ActivityKeyFromProto_def TimerKeyFromProto_def
      ClaimKeyFromProto_def EventKeyFromProto_def)

lemma sameWorkflowRun_iff:
  "sameWorkflowRun a b \<longleftrightarrow> withDefaults a = withDefaults b"
  by (cases a; cases b) (auto simp: sameWorkflowRun_def withDefaults_def Let_def)

lemma path_segment_slash_free [simp]: "path_segment s \<Longrightarrow> slash_free s"
  by (auto simp: path_segment_def slash_free_def list_all_iff segment_char_def less_eq_char_def)

lemma protovalidate_eq [simp]:
  "protovalidate r = Inr u \<longleftrightarrow> r"
  "(case protovalidate r of Inl e \<Rightarrow> f e | Inr u \<Rightarrow> g) =
     (if r then g else f (Plain ''validation error''))"
  by (simp_all add: protovalidate_def)

lemma WorkflowKey_rules_runKey: "WorkflowKey_rules (runKey k) \<longleftrightarrow> WorkflowKey_rules k"
  by (simp add: WorkflowKey_rules_def)

lemmas key_rules = WorkflowKey_rules_def ActivityKey_rules_def TimerKey_rules_def
  EventKey_rules_def ClaimKey_rules_def

lemmas key_Validates = WorkflowKey_Validate_def ActivityKey_Validate_def TimerKey_Validate_def
  EventKey_Validate_def ClaimKey_Validate_def Proto_def

lemmas key_paths = WorkflowKey_Path_def ActivityKey_Path_def TimerKey_Path_def EventKey_Path_def
  ClaimKey_Path_def latestWorkflowRunPointerPath_def dueEntryPath_def

text \<open>The segments of an object's path, as a function of its identity.\<close>

fun object_segs :: "object_id \<Rightarrow> string list" where
  "object_segs (ObjWorkflow k) =
     [''temporaless'', ''v2'', Namespace k, WorkflowID k, RunID k, ''workflow.binpb'']"
| "object_segs (ObjActivity k) =
     [''temporaless'', ''v2'', Namespace k, WorkflowID k, RunID k, ''activity'', ActivityID k @ ''.binpb'']"
| "object_segs (ObjTimer k) =
     [''temporaless'', ''v2'', Namespace k, WorkflowID k, RunID k, ''timer'', TimerID k @ ''.binpb'']"
| "object_segs (ObjEvent k) =
     [''temporaless'', ''v2'', Namespace k, WorkflowID k, RunID k, ''event'', EventID k @ ''.binpb'']"
| "object_segs (ObjClaim k) =
     [''temporaless'', ''v2'', Namespace k, WorkflowID k, RunID k, ''claim'', ClaimID k @ ''.binpb'']"
| "object_segs (ObjLatest n w) = [''temporaless'', ''v2'', n, ''_latest'', w @ ''.binpb'']"
| "object_segs (ObjDue k) =
     [''temporaless'', ''v2'', Namespace k, ''_due'', WorkflowID k, RunID k, TimerID k @ ''.binpb'']"

fun object_ok :: "object_id \<Rightarrow> bool" where
  "object_ok (ObjWorkflow k) = WorkflowKey_rules k"
| "object_ok (ObjActivity k) = ActivityKey_rules k"
| "object_ok (ObjTimer k) = TimerKey_rules k"
| "object_ok (ObjEvent k) = EventKey_rules k"
| "object_ok (ObjClaim k) = ClaimKey_rules k"
| "object_ok (ObjLatest n w) =
     WorkflowKey_rules \<lparr>Namespace = n, WorkflowID = w, RunID = ''placeholder''\<rparr>"
| "object_ok (ObjDue k) = TimerKey_rules k"

lemma object_path_ok: "(\<exists>p. object_path x = Inr p) \<longleftrightarrow> object_ok (canonical x)"
  by (cases x) (simp_all add: key_paths key_Validates Let_def withDefaults_literal)

lemma object_path_okD: "object_path x = Inr p \<Longrightarrow> object_ok (canonical x)"
  using object_path_ok by blast

lemma path_segment_placeholder [simp]: "path_segment ''placeholder''"
  by (simp add: path_segment_def segment_char_def less_eq_char_def)

lemma segs_runPrefix [simp]:
  assumes "slash_free n" "slash_free w" "slash_free r"
  shows "segs (runPrefix n w r @ CHR ''/'' # q) = ''temporaless'' # ''v2'' # n # w # r # segs q"
  using assms by (simp add: runPrefix_def StorageRootPrefix_def)

lemma segs_dueRoot [simp]:
  assumes "slash_free n"
  shows "segs (dueRoot n @ q) = ''temporaless'' # ''v2'' # n # ''_due'' # segs q"
  using assms by (simp add: dueRoot_def StorageRootPrefix_def)

lemma object_path_eq:
  "object_path x = Inr p \<Longrightarrow> p = (case canonical x of
     ObjWorkflow k \<Rightarrow> runPrefix (Namespace k) (WorkflowID k) (RunID k) @ ''/workflow.binpb''
   | ObjActivity k \<Rightarrow> runPrefix (Namespace k) (WorkflowID k) (RunID k) @ ''/activity/'' @ ActivityID k @ ''.binpb''
   | ObjTimer k \<Rightarrow> runPrefix (Namespace k) (WorkflowID k) (RunID k) @ ''/timer/'' @ TimerID k @ ''.binpb''
   | ObjEvent k \<Rightarrow> runPrefix (Namespace k) (WorkflowID k) (RunID k) @ ''/event/'' @ EventID k @ ''.binpb''
   | ObjClaim k \<Rightarrow> runPrefix (Namespace k) (WorkflowID k) (RunID k) @ ''/claim/'' @ ClaimID k @ ''.binpb''
   | ObjLatest n w \<Rightarrow> StorageRootPrefix @ ''/'' @ n @ ''/_latest/'' @ w @ ''.binpb''
   | ObjDue k \<Rightarrow> dueRoot (Namespace k) @ WorkflowID k @ ''/'' @ RunID k @ ''/'' @ TimerID k @ ''.binpb'')"
  by (cases x)
     (simp_all add: key_paths key_Validates Let_def Namespace_withDefaults split: if_splits)

lemma segs_object_path:
  assumes "object_path x = Inr p"
  shows "segs p = object_segs (canonical x)"
  using object_path_eq [OF assms] object_path_okD [OF assms]
  by (cases "canonical x") (simp_all add: key_rules StorageRootPrefix_def)

lemma not_system_prefixD [simp]:
  "not_system_prefix (CHR ''_'' # x) = False"
  "not_system_prefix w \<Longrightarrow> w \<noteq> CHR ''_'' # x" "not_system_prefix w \<Longrightarrow> CHR ''_'' # x \<noteq> w"
  by (auto simp: not_system_prefix_def)

lemma object_segs_inj:
  assumes "object_ok x" "object_ok y" "object_segs x = object_segs y"
  shows "x = y"
  using assms by (cases x; cases y) (auto simp: key_rules)

lemma DirPath_eq:
  "WorkflowKey_DirPath k = Inr d \<longleftrightarrow> WorkflowKey_rules (withDefaults k) \<and>
     d = runPrefix (Namespace (withDefaults k)) (WorkflowID k) (RunID k) @ ''/''"
  by (auto simp: WorkflowKey_DirPath_def key_Validates Let_def split: if_splits)

lemma run_segs:
  assumes "object_ok x" "object_segs x = ''temporaless'' # ''v2'' # n # w # r # q"
    and "WorkflowKey_rules \<lparr>Namespace = n, WorkflowID = w, RunID = r\<rparr>" "canonical x = x"
  shows "object_run x = Some \<lparr>Namespace = n, WorkflowID = w, RunID = r\<rparr>"
  using assms by (cases x) (auto simp: key_rules runKey_def)

lemma canonical_idem [simp]: "canonical (canonical x) = canonical x"
  by (cases x) (simp_all add: DefaultNamespace_def)

lemma object_run_canonical [simp]: "object_run (canonical x) = object_run x"
  by (cases x) simp_all

lemma object_path_canonical: "object_path (canonical x) = object_path x"
  by (cases x) (simp_all add: key_paths withDefaults_literal DefaultNamespace_def)

lemma object_path_inj:
  assumes "object_path x = Inr p" and "object_path y = Inr p"
  shows "canonical x = canonical y"
proof (rule object_segs_inj)
  show "object_ok (canonical x)" "object_ok (canonical y)"
    using assms by (auto intro: object_path_okD)
  show "object_segs (canonical x) = object_segs (canonical y)"
    using assms segs_object_path by metis
qed

lemma object_path_eq_iff:
  "object_path x = Inr p \<Longrightarrow> object_path y = Inr p \<longleftrightarrow> canonical y = canonical x"
  by (metis object_path_canonical object_path_inj)

lemma object_path_binpb: "object_path x = Inr p \<Longrightarrow> suffix ''.binpb'' p"
  by (drule object_path_eq, cases "canonical x") (auto simp: suffix_def)

section \<open>Properties of the addressing scheme\<close>

text \<open>
  C1. Object paths are a faithful addressing scheme. If two objects, of whatever kinds and
  with whatever keys, resolve to the same path, they are the same kind of object with the same
  key up to the default namespace. No workflow, activity, timer, event or claim record, no
  latest-run pointer and no due-ledger entry can overwrite another one.
\<close>

theorem object_path_injective:
  assumes "object_path x = Inr p" and "object_path y = Inr p"
  shows "canonical x = canonical y"
  using assms by (rule object_path_inj)

theorem object_path_injective_witness:
  "canonical (ObjActivity \<lparr>Namespace = [], WorkflowID = ''orders'', RunID = ''r1'', ActivityID = ''charge''\<rparr>) =
   canonical (ObjActivity (NewActivityKey ''orders'' ''r1'' ''charge''))"
  by (rule object_path_injective
        [where p = "''temporaless/v2/default/orders/r1/activity/charge.binpb''"]) code_simp+

text \<open>
  C2. A run's directory holds exactly the records of that run: for every addressable object,
  its path lies under \<open>WorkflowKey.DirPath\<close> of a run if and only if the object is the workflow
  record, an activity, a timer, an event or a claim of that very run. Pointers and ledger
  entries never lie in a run directory, and no run directory contains another run's records.
\<close>

theorem run_directory_exact:
  assumes "WorkflowKey_DirPath k = Inr d" and "object_path x = Inr p"
  shows "prefix d p \<longleftrightarrow> object_run x = Some (withDefaults k)"
proof
  let ?k = "withDefaults k"
  have d: "d = runPrefix (Namespace ?k) (WorkflowID ?k) (RunID ?k) @ ''/''"
    and ok: "WorkflowKey_rules ?k"
    using assms(1) by (simp_all add: DirPath_eq)
  {
    assume "prefix d p"
    then obtain q where "p = d @ q" by (auto simp: prefix_def)
    then have "object_segs (canonical x) =
        ''temporaless'' # ''v2'' # Namespace ?k # WorkflowID ?k # RunID ?k # segs q"
      using segs_object_path [OF assms(2)] d ok by (simp add: WorkflowKey_rules_def)
    from run_segs [OF object_path_okD [OF assms(2)] this]
    show "object_run x = Some ?k"
      using ok by (simp add: WorkflowKey_rules_def)
  next
    assume "object_run x = Some ?k"
    then show "prefix d p"
      using object_path_eq [OF assms(2)] d
      by (cases x) (auto simp: runKey_eq_iff)
  }
qed

theorem run_directory_exact_witness:
  "prefix ''temporaless/v2/default/orders/r1/'' ''temporaless/v2/default/orders/r1/timer/t.binpb'' \<longleftrightarrow>
   object_run (ObjTimer (NewTimerKey ''orders'' ''r1'' ''t'')) =
     Some (withDefaults (NewWorkflowKey ''orders'' ''r1''))"
  by (rule run_directory_exact) code_simp+

end
