(* ===== verification/Validate.thy ===== *)
theory Validate
  imports Keys
begin

text \<open>
  The trust boundary of the storage package, \<open>core/go/storage/validate.go\<close>: a payload read at a
  key is accepted only when its schema version, its embedded key and (where the record has
  them) its timestamps agree with the point it was read at. A nil message pointer is \<open>None\<close>;
  the argument \<open>W\<close> stands for the protobuf library's timestamp functions.
\<close>

section \<open>Nil-safe accessors\<close>

text \<open>\<open>AsTime\<close> on a nil \<open>Timestamp\<close> reads zero seconds and nanos, the Unix epoch.\<close>

definition asTime :: "'m wkt_scheme \<Rightarrow> Timestamp option \<Rightarrow> time" where
  "asTime W t = (case t of None \<Rightarrow> 0 | Some ts \<Rightarrow> Timestamp_AsTime W ts)"

definition checkValid :: "'m wkt_scheme \<Rightarrow> Timestamp option \<Rightarrow> bool" where
  "checkValid W t = (case t of None \<Rightarrow> False | Some ts \<Rightarrow> Timestamp_CheckValid W ts)"

lemma asTime_Some [simp]: "asTime W (Some ts) = Timestamp_AsTime W ts"
  by (simp add: asTime_def)

lemma checkValid_simps [simp]:
  "checkValid W (Some ts) = Timestamp_CheckValid W ts"
  "checkValid W None = False"
  by (simp_all add: checkValid_def)

section \<open>Point records\<close>

definition ValidateWorkflowRecord ::
  "'m wkt_scheme \<Rightarrow> WorkflowRecord option \<Rightarrow> WorkflowKey \<Rightarrow> unit result" where
  "ValidateWorkflowRecord W record requested =
     (case record of
        None \<Rightarrow> Inl (corruptRecordf ''workflow payload is required'')
      | Some r \<Rightarrow>
          if wr_SchemaVersion r \<noteq> RECORD_SCHEMA_VERSION_WORKFLOW
          then Inl (corruptRecordf ''workflow payload has schema_version'')
          else let actual = withDefaults (WorkflowKeyFromProto (wr_Key r)) in
          if isl (WorkflowKey_Validate actual)
          then Inl (corruptRecordf ''workflow payload has invalid key'')
          else if actual \<noteq> withDefaults requested
          then Inl (corruptRecordf ''workflow payload key does not match requested location'')
          else if wr_RunOrderTime r \<noteq> None \<and> \<not> checkValid W (wr_RunOrderTime r)
          then Inl (corruptRecordf ''workflow payload has invalid run_order_time'')
          else Inr ())"

definition ValidateActivityRecord :: "ActivityRecord option \<Rightarrow> ActivityKey \<Rightarrow> unit result" where
  "ValidateActivityRecord record requested =
     (case record of
        None \<Rightarrow> Inl (corruptRecordf ''activity payload is required'')
      | Some r \<Rightarrow>
          if ar_SchemaVersion r \<noteq> RECORD_SCHEMA_VERSION_ACTIVITY
          then Inl (corruptRecordf ''activity payload has schema_version'')
          else let actual = withDefaults (ActivityKeyFromProto (ar_Key r)) in
          if isl (ActivityKey_Validate actual)
          then Inl (corruptRecordf ''activity payload has invalid key'')
          else if actual \<noteq> withDefaults requested
          then Inl (corruptRecordf ''activity payload key does not match requested location'')
          else Inr ())"

definition ValidateTimerRecord :: "TimerRecord option \<Rightarrow> TimerKey \<Rightarrow> unit result" where
  "ValidateTimerRecord record requested =
     (case record of
        None \<Rightarrow> Inl (corruptRecordf ''timer payload is required'')
      | Some r \<Rightarrow>
          if tr_SchemaVersion r \<noteq> RECORD_SCHEMA_VERSION_TIMER
          then Inl (corruptRecordf ''timer payload has schema_version'')
          else let actual = withDefaults (TimerKeyFromProto (tr_Key r)) in
          if isl (TimerKey_Validate actual)
          then Inl (corruptRecordf ''timer payload has invalid key'')
          else if actual \<noteq> withDefaults requested
          then Inl (corruptRecordf ''timer payload key does not match requested location'')
          else Inr ())"

definition ValidateEventRecord :: "EventRecord option \<Rightarrow> EventKey \<Rightarrow> unit result" where
  "ValidateEventRecord record requested =
     (case record of
        None \<Rightarrow> Inl (corruptRecordf ''event payload is required'')
      | Some r \<Rightarrow>
          if er_SchemaVersion r \<noteq> RECORD_SCHEMA_VERSION_EVENT
          then Inl (corruptRecordf ''event payload has schema_version'')
          else let actual = withDefaults (EventKeyFromProto (er_Key r)) in
          if isl (EventKey_Validate actual)
          then Inl (corruptRecordf ''event payload has invalid key'')
          else if actual \<noteq> withDefaults requested
          then Inl (corruptRecordf ''event payload key does not match requested location'')
          else Inr ())"

definition ValidateEventDeliveryRecord ::
  "'m wkt_scheme \<Rightarrow> EventRecord option \<Rightarrow> EventKey \<Rightarrow> unit result" where
  "ValidateEventDeliveryRecord W record requested =
     (case ValidateEventRecord record requested of
        Inl e \<Rightarrow> Inl e
      | Inr _ \<Rightarrow>
          if Option.bind record er_Payload = None
          then Inl (corruptRecordf ''event delivery payload is required'')
          else if Option.bind record er_ReceivedAt = None
          then Inl (corruptRecordf ''event delivery received_at is required'')
          else if \<not> checkValid W (Option.bind record er_ReceivedAt)
          then Inl (corruptRecordf ''event delivery has invalid received_at'')
          else Inr ())"

definition ValidateClaimRecord :: "ClaimRecord option \<Rightarrow> ClaimKey \<Rightarrow> unit result" where
  "ValidateClaimRecord record requested =
     (case record of
        None \<Rightarrow> Inl (corruptRecordf ''claim payload is required'')
      | Some r \<Rightarrow>
          if cr_SchemaVersion r \<noteq> RECORD_SCHEMA_VERSION_CLAIM
          then Inl (corruptRecordf ''claim payload has schema_version'')
          else let actual = withDefaults (ClaimKeyFromProto (cr_Key r)) in
          if isl (ClaimKey_Validate actual)
          then Inl (corruptRecordf ''claim payload has invalid key'')
          else if actual \<noteq> withDefaults requested
          then Inl (corruptRecordf ''claim payload key does not match requested location'')
          else Inr ())"

section \<open>The latest-run pointer\<close>

definition workflowStatusHasLatestPointer :: "WorkflowStatus \<Rightarrow> bool" where
  "workflowStatusHasLatestPointer status =
     (case status of
        WORKFLOW_STATUS_IN_PROGRESS \<Rightarrow> True
      | WORKFLOW_STATUS_COMPLETED \<Rightarrow> True
      | WORKFLOW_STATUS_FAILED \<Rightarrow> True
      | _ \<Rightarrow> False)"

definition ValidateLatestWorkflowRunPointer ::
  "'m wkt_scheme \<Rightarrow> LatestWorkflowRunPointer option \<Rightarrow> string \<Rightarrow> string \<Rightarrow> unit result" where
  "ValidateLatestWorkflowRunPointer W pointer namespace workflowID =
     (case pointer of
        None \<Rightarrow> Inl (corruptRecordf ''latest workflow run pointer is required'')
      | Some p \<Rightarrow>
          let requested = withDefaults
                \<lparr>Namespace = namespace, WorkflowID = workflowID, RunID = ''placeholder''\<rparr>
          in case WorkflowKey_Validate requested of
               Inl e \<Rightarrow> Inl e
             | Inr _ \<Rightarrow>
          let actual = withDefaults (WorkflowKeyFromProto (lp_Key p)) in
          if isl (WorkflowKey_Validate actual)
          then Inl (corruptRecordf ''latest workflow run pointer has invalid key'')
          else if Namespace actual \<noteq> Namespace requested \<or> WorkflowID actual \<noteq> WorkflowID requested
          then Inl (corruptRecordf ''latest workflow run pointer key does not match requested location'')
          else if \<not> workflowStatusHasLatestPointer (lp_Status p)
          then Inl (corruptRecordf ''latest workflow run pointer has invalid status'')
          else if lp_RecordTime p = None
          then Inl (corruptRecordf ''latest workflow run pointer has no record_time'')
          else if \<not> checkValid W (lp_RecordTime p)
          then Inl (corruptRecordf ''latest workflow run pointer has invalid record_time'')
          else if lp_UpdatedAt p = None
          then Inl (corruptRecordf ''latest workflow run pointer has no updated_at'')
          else if \<not> checkValid W (lp_UpdatedAt p)
          then Inl (corruptRecordf ''latest workflow run pointer has invalid updated_at'')
          else if lp_RunOrderTime p = None
          then Inl (corruptRecordf ''latest workflow run pointer has no run_order_time'')
          else if \<not> checkValid W (lp_RunOrderTime p)
          then Inl (corruptRecordf ''latest workflow run pointer has invalid run_order_time'')
          else Inr ())"

definition persistedWorkflowRecordTime ::
  "'m wkt_scheme \<Rightarrow> WorkflowRecord \<Rightarrow> time option result" where
  "persistedWorkflowRecordTime W record =
     (if (wr_Status record = WORKFLOW_STATUS_COMPLETED \<or> wr_Status record = WORKFLOW_STATUS_FAILED)
         \<and> wr_CompletedAt record \<noteq> None
      then if \<not> checkValid W (wr_CompletedAt record)
           then Inl (corruptRecordf ''referenced workflow has invalid completed_at'')
           else Inr (Some (asTime W (wr_CompletedAt record)))
      else if wr_CreatedAt record \<noteq> None
      then if \<not> checkValid W (wr_CreatedAt record)
           then Inl (corruptRecordf ''referenced workflow has invalid created_at'')
           else Inr (Some (asTime W (wr_CreatedAt record)))
      else Inr None)"

definition ValidateLatestWorkflowRunReference ::
  "'m wkt_scheme \<Rightarrow> LatestWorkflowRunPointer option \<Rightarrow> WorkflowRecord option \<Rightarrow> unit result" where
  "ValidateLatestWorkflowRunReference W pointer record =
     (case pointer of
        None \<Rightarrow> Inl (corruptRecordf ''latest workflow run pointer is required'')
      | Some p \<Rightarrow>
     (case ValidateWorkflowRecord W record (WorkflowKeyFromProto (lp_Key p)) of
        Inl e \<Rightarrow> Inl e
      | Inr _ \<Rightarrow>
     (case record of
        None \<Rightarrow> Inl (corruptRecordf ''workflow payload is required'')
      | Some r \<Rightarrow>
          if lp_Status p \<noteq> wr_Status r
          then Inl (staleLatestPointerf ''status does not match its referenced workflow'')
          else
     (case persistedWorkflowRecordTime W r of
        Inl e \<Rightarrow> Inl e
      | Inr None \<Rightarrow> Inr ()
      | Inr (Some expectedRecordTime) \<Rightarrow>
          if asTime W (lp_RecordTime p) \<noteq> expectedRecordTime
          then Inl (staleLatestPointerf ''record_time does not match its referenced workflow'')
          else if wr_RunOrderTime r \<noteq> None \<and> \<not> checkValid W (wr_RunOrderTime r)
          then Inl (corruptRecordf ''referenced workflow has invalid run_order_time'')
          else let expectedRunOrderTime =
                 (if wr_RunOrderTime r \<noteq> None then asTime W (wr_RunOrderTime r)
                  else expectedRecordTime) in
          if asTime W (lp_RunOrderTime p) \<noteq> expectedRunOrderTime
          then Inl (staleLatestPointerf ''run_order_time does not match its referenced workflow'')
          else Inr ()))))"

section \<open>Due timers\<close>

record DueTimer =
  dt_Key :: TimerKey
  dt_Record :: "TimerRecord option"
  dt_Workflow :: "WorkflowRecord option"

definition ValidateDueTimer ::
  "'m wkt_scheme \<Rightarrow> DueTimer \<Rightarrow> string \<Rightarrow> time \<Rightarrow> unit result" where
  "ValidateDueTimer W due namespace now =
     (case ValidateTimerRecord (dt_Record due) (dt_Key due) of
        Inl e \<Rightarrow> Inl e
      | Inr _ \<Rightarrow>
     (case ValidateWorkflowRecord W (dt_Workflow due) (runKey (dt_Key due)) of
        Inl e \<Rightarrow> Inl e
      | Inr _ \<Rightarrow>
          if namespace \<noteq> [] \<and> Namespace (withDefaults (dt_Key due)) \<noteq> namespace
          then Inl (corruptRecordf ''due timer payload crosses the requested namespace'')
          else if map_option tr_Status (dt_Record due) \<noteq> Some TIMER_STATUS_SCHEDULED
          then Inl (corruptRecordf ''due timer payload is not scheduled'')
          else if map_option wr_Status (dt_Workflow due) \<noteq> Some WORKFLOW_STATUS_IN_PROGRESS
          then Inl (corruptRecordf ''due timer workflow is not in progress'')
          else if Option.bind (dt_Record due) tr_FireAt = None
          then Inl (corruptRecordf ''due timer payload has no fire_at'')
          else if \<not> checkValid W (Option.bind (dt_Record due) tr_FireAt)
          then Inl (corruptRecordf ''due timer payload has invalid fire_at'')
          else if asTime W (Option.bind (dt_Record due) tr_FireAt) > now
          then Inl (corruptRecordf ''due timer payload fire_at is later than the requested time'')
          else Inr ()))"

section \<open>Fenced execution\<close>

definition CurrentFencedExecutionCapability ::
  "FencedExecutionCapability \<Rightarrow> FencedExecutionCapability result" where
  "CurrentFencedExecutionCapability value =
     (case value of
        FENCED_EXECUTION_CAPABILITY_UNSPECIFIED \<Rightarrow> Inr FENCED_EXECUTION_CAPABILITY_UNSUPPORTED
      | FENCED_EXECUTION_CAPABILITY_UNSUPPORTED \<Rightarrow> Inr FENCED_EXECUTION_CAPABILITY_UNSUPPORTED
      | _ \<Rightarrow> Inl (Wrapped ''capability'' [Sentinel ErrFencedExecutionUnsupported]))"

section \<open>Library lemmas\<close>

lemma ValidateWorkflowRecord_ok:
  "ValidateWorkflowRecord W r k = Inr u \<longleftrightarrow>
     (\<exists>x. r = Some x \<and> wr_SchemaVersion x = RECORD_SCHEMA_VERSION_WORKFLOW \<and>
        withDefaults (WorkflowKeyFromProto (wr_Key x)) = withDefaults k \<and>
        WorkflowKey_rules (withDefaults k) \<and>
        (wr_RunOrderTime x \<noteq> None \<longrightarrow> checkValid W (wr_RunOrderTime x)))"
  by (auto simp: ValidateWorkflowRecord_def key_Validates Let_def protovalidate_def
      split: option.splits if_splits)

lemma ValidateActivityRecord_ok:
  "ValidateActivityRecord r k = Inr u \<longleftrightarrow>
     (\<exists>x. r = Some x \<and> ar_SchemaVersion x = RECORD_SCHEMA_VERSION_ACTIVITY \<and>
        withDefaults (ActivityKeyFromProto (ar_Key x)) = withDefaults k \<and>
        ActivityKey_rules (withDefaults k))"
  by (auto simp: ValidateActivityRecord_def key_Validates Let_def protovalidate_def
      split: option.splits if_splits)

lemma ValidateTimerRecord_ok:
  "ValidateTimerRecord r k = Inr u \<longleftrightarrow>
     (\<exists>x. r = Some x \<and> tr_SchemaVersion x = RECORD_SCHEMA_VERSION_TIMER \<and>
        withDefaults (TimerKeyFromProto (tr_Key x)) = withDefaults k \<and>
        TimerKey_rules (withDefaults k))"
  by (auto simp: ValidateTimerRecord_def key_Validates Let_def protovalidate_def
      split: option.splits if_splits)

lemma ValidateEventRecord_ok:
  "ValidateEventRecord r k = Inr u \<longleftrightarrow>
     (\<exists>x. r = Some x \<and> er_SchemaVersion x = RECORD_SCHEMA_VERSION_EVENT \<and>
        withDefaults (EventKeyFromProto (er_Key x)) = withDefaults k \<and>
        EventKey_rules (withDefaults k))"
  by (auto simp: ValidateEventRecord_def key_Validates Let_def protovalidate_def
      split: option.splits if_splits)

lemma ValidateClaimRecord_ok:
  "ValidateClaimRecord r k = Inr u \<longleftrightarrow>
     (\<exists>x. r = Some x \<and> cr_SchemaVersion x = RECORD_SCHEMA_VERSION_CLAIM \<and>
        withDefaults (ClaimKeyFromProto (cr_Key x)) = withDefaults k \<and>
        ClaimKey_rules (withDefaults k))"
  by (auto simp: ValidateClaimRecord_def key_Validates Let_def protovalidate_def
      split: option.splits if_splits)

lemmas Validate_ok = ValidateWorkflowRecord_ok ValidateActivityRecord_ok ValidateTimerRecord_ok
  ValidateEventRecord_ok ValidateClaimRecord_ok

lemma Validate_corrupt:
  "ValidateWorkflowRecord W wr wk = Inl e \<Longrightarrow> errors_Is e ErrCorruptRecord"
  "ValidateActivityRecord ar ak = Inl e \<Longrightarrow> errors_Is e ErrCorruptRecord"
  "ValidateTimerRecord tr tk = Inl e \<Longrightarrow> errors_Is e ErrCorruptRecord"
  "ValidateEventRecord er ek = Inl e \<Longrightarrow> errors_Is e ErrCorruptRecord"
  "ValidateClaimRecord cr ck = Inl e \<Longrightarrow> errors_Is e ErrCorruptRecord"
  by (auto simp: ValidateWorkflowRecord_def ValidateActivityRecord_def ValidateTimerRecord_def
      ValidateEventRecord_def ValidateClaimRecord_def Let_def split: option.splits if_splits)

lemma ValidateLatestWorkflowRunPointer_ok:
  "ValidateLatestWorkflowRunPointer W p n w = Inr u \<Longrightarrow>
     (\<exists>x t o'. p = Some x \<and> workflowStatusHasLatestPointer (lp_Status x) \<and>
        lp_RecordTime x = Some t \<and> lp_RunOrderTime x = Some o' \<and>
        Timestamp_CheckValid W t \<and> Timestamp_CheckValid W o' \<and>
        WorkflowKey_rules (withDefaults (WorkflowKeyFromProto (lp_Key x))) \<and>
        WorkflowID (WorkflowKeyFromProto (lp_Key x)) = w \<and>
        Namespace (withDefaults (WorkflowKeyFromProto (lp_Key x))) =
          (if n = [] then DefaultNamespace else n))"
  by (auto simp: ValidateLatestWorkflowRunPointer_def key_Validates Let_def protovalidate_def
      withDefaults_literal split: option.splits if_splits)

end
