(* ===== verification/Sha256.thy ===== *)
theory Sha256
  imports Main "HOL-Library.Word"
begin

text \<open>
  The standard-library hash the code calls, \<open>crypto/sha256.Sum256\<close>, with the lower-case
  hexadecimal rendering of \<open>fmt.Sprintf("%x", digest)\<close> and \<open>encoding/hex\<close>. The quarantine
  object of a damaged due-ledger entry and the derived identifiers of the outbox adapter are
  named by it.
\<close>

unbundle bit_operations_syntax

definition rotr32 :: "nat \<Rightarrow> 32 word \<Rightarrow> 32 word" where
  "rotr32 n w = drop_bit n w OR push_bit (32 - n) w"

text \<open>
  The round constants and the initial state are the first 32 fractional bits of the cube roots
  and of the square roots of the first primes. \<open>root_bits k n b r\<close> extends \<open>r\<close> by the \<open>b\<close> low
  bits of the integer \<open>k\<close>-th root of \<open>n\<close>; conversion to a word drops the integral part.
\<close>

fun root_bits :: "nat \<Rightarrow> nat \<Rightarrow> nat \<Rightarrow> nat \<Rightarrow> nat" where
  "root_bits k n 0 r = r"
| "root_bits k n (Suc b) r = root_bits k n b (if (r + 2 ^ b) ^ k \<le> n then r + 2 ^ b else r)"

definition sha256_primes :: "nat list" where
  "sha256_primes =
    [2, 3, 5, 7, 11, 13, 17, 19, 23, 29, 31, 37, 41, 43, 47, 53,
     59, 61, 67, 71, 73, 79, 83, 89, 97, 101, 103, 107, 109, 113, 127, 131,
     137, 139, 149, 151, 157, 163, 167, 173, 179, 181, 191, 193, 197, 199, 211, 223,
     227, 229, 233, 239, 241, 251, 257, 263, 269, 271, 277, 281, 283, 293, 307, 311]"

definition root_fraction :: "nat \<Rightarrow> nat \<Rightarrow> 32 word" where
  "root_fraction k p = of_nat (root_bits k (p * 2 ^ (32 * k)) 40 0)"

definition sha256_K :: "32 word list" where
  "sha256_K = map (root_fraction 3) sha256_primes"

definition sha256_H0 :: "32 word list" where
  "sha256_H0 = map (root_fraction 2) (take 8 sha256_primes)"

lemma root_bits_bound: "r ^ k \<le> n \<Longrightarrow> root_bits k n b r ^ k \<le> n"
  by (induction b arbitrary: r) auto

lemma length_sha256_H0: "length sha256_H0 = 8"
  by (simp add: sha256_H0_def sha256_primes_def)

text \<open>Padding to a multiple of 64 bytes: a one bit, zeros, the bit length as 8 bytes.\<close>

definition be_bytes :: "nat \<Rightarrow> nat \<Rightarrow> nat list" where
  "be_bytes k n = map (\<lambda>i. n div 256 ^ (k - 1 - i) mod 256) [0..<k]"

definition sha256_pad :: "nat list \<Rightarrow> nat list" where
  "sha256_pad m =
     m @ [128] @ replicate ((119 - length m mod 64) mod 64) 0 @ be_bytes 8 (8 * length m)"

fun be_word :: "nat list \<Rightarrow> 32 word" where
  "be_word bs = of_nat (foldl (\<lambda>acc b. acc * 256 + b) 0 bs)"

fun chunks :: "nat \<Rightarrow> nat \<Rightarrow> 'a list \<Rightarrow> 'a list list" where
  "chunks 0 k xs = []"
| "chunks (Suc n) k xs = take k xs # chunks n k (drop k xs)"

text \<open>The message schedule, newest word first.\<close>

fun sha256_extend :: "nat \<Rightarrow> 32 word list \<Rightarrow> 32 word list" where
  "sha256_extend 0 w = w"
| "sha256_extend (Suc n) w =
     (let a = w ! 14; s0 = rotr32 7 a XOR rotr32 18 a XOR drop_bit 3 a;
          b = w ! 1; s1 = rotr32 17 b XOR rotr32 19 b XOR drop_bit 10 b
      in sha256_extend n ((w ! 15 + s0 + w ! 6 + s1) # w))"

fun sha256_round :: "32 word list \<Rightarrow> 32 word \<times> 32 word \<Rightarrow> 32 word list" where
  "sha256_round [a, b, c, d, e, f, g, h] (k, w) =
     (let S1 = rotr32 6 e XOR rotr32 11 e XOR rotr32 25 e;
          ch = (e AND f) XOR ((NOT e) AND g);
          t1 = h + S1 + ch + k + w;
          S0 = rotr32 2 a XOR rotr32 13 a XOR rotr32 22 a;
          maj = (a AND b) XOR (a AND c) XOR (b AND c);
          t2 = S0 + maj
      in [t1 + t2, a, b, c, d + t1, e, f, g])"
| "sha256_round st _ = st"

definition sha256_block :: "32 word list \<Rightarrow> nat list \<Rightarrow> 32 word list" where
  "sha256_block H block =
     (let w = rev (sha256_extend 48 (rev (map be_word (chunks 16 4 block))));
          st = foldl sha256_round H (zip sha256_K w)
      in map2 (+) H st)"

definition sha256_words :: "nat list \<Rightarrow> 32 word list" where
  "sha256_words m =
     (let p = sha256_pad m in foldl sha256_block sha256_H0 (chunks (length p div 64) 64 p))"

definition Sum256 :: "nat list \<Rightarrow> nat list" where
  "Sum256 m = concat (map (\<lambda>w. be_bytes 4 (unat w)) (sha256_words m))"

definition hex_digits :: string where
  "hex_digits = ''0123456789abcdef''"

definition hex_digit :: "nat \<Rightarrow> char" where
  "hex_digit n = hex_digits ! (n mod 16)"

definition hex_string :: "nat list \<Rightarrow> string" where
  "hex_string bs = concat (map (\<lambda>b. [hex_digit (b div 16), hex_digit b]) bs)"

text \<open>The bytes of a string of ASCII characters.\<close>

definition string_bytes :: "string \<Rightarrow> nat list" where
  "string_bytes s = map of_char s"

lemma length_sha256_round [simp]: "length (sha256_round st kw) = length st"
  by (cases "(st, kw)" rule: sha256_round.cases) (simp_all add: Let_def)

lemma length_rounds [simp]: "length (foldl sha256_round st kws) = length st"
  by (induction kws arbitrary: st) auto

lemma length_block [simp]: "length (sha256_block H b) = length H"
  by (simp add: sha256_block_def Let_def)

lemma length_blocks [simp]: "length (foldl sha256_block H bs) = length H"
  by (induction bs arbitrary: H) auto

lemma length_be_bytes [simp]: "length (be_bytes k n) = k"
  by (simp add: be_bytes_def)

lemma sum_list_const: "(\<And>x. x \<in> set xs \<Longrightarrow> f x = c) \<Longrightarrow> sum_list (map f xs) = c * length xs"
  for f :: "'a \<Rightarrow> nat"
  by (induction xs) auto

lemma length_Sum256 [simp]: "length (Sum256 m) = 32"
  by (simp add: Sum256_def sha256_words_def length_sha256_H0 Let_def length_concat o_def
      sum_list_const [where c = 4])

lemma length_hex_string [simp]: "length (hex_string bs) = 2 * length bs"
  by (induction bs) (simp_all add: hex_string_def)

lemma hex_digit_set: "hex_digit n \<in> set hex_digits"
  unfolding hex_digit_def by (rule nth_mem) (simp add: hex_digits_def)

lemma hex_string_set: "set (hex_string bs) \<subseteq> set hex_digits"
proof (induction bs)
  case (Cons b bs)
  have "hex_string (b # bs) = [hex_digit (b div 16), hex_digit b] @ hex_string bs"
    by (simp add: hex_string_def)
  then have "set (hex_string (b # bs)) =
      {hex_digit (b div 16), hex_digit b} \<union> set (hex_string bs)"
    by simp
  with Cons show ?case by (simp add: hex_digit_set)
qed (simp add: hex_string_def)

end
