(* ===== verification/Operator.thy ===== *)
theory Operator
  imports Validate Sha256
begin

text \<open>
  The environment of the storage code: the OpenDAL operator, the protobuf codec, contexts and
  the clock. None of these is in the repository, so they are the fields of a record \<open>env\<close>
  that every storage operation takes as its argument, over an arbitrary type of worlds. What
  the code relies on is stated once, as the locales \<open>codec_laws\<close> and \<open>opendal_laws\<close>.

  The helpers of \<open>core/go/storage/opendal.go\<close> that talk to the operator directly follow:
  \<open>walkOpenDAL\<close>, \<open>deleteIfExists\<close> and \<open>readListedProto\<close>. The walk is proved to end and to
  return exactly the record objects below its root, in path order. The last section is an
  in-memory operator that satisfies the laws, with a write budget that models a crash between
  two writes.
\<close>

section \<open>The environment\<close>

text \<open>
  The two kinds of context the code passes: the caller's and one that survives its
  cancellation (\<open>context.WithoutCancel\<close>).
\<close>

datatype "context" = Caller | Detached

text \<open>\<open>proto.Marshal\<close> may fail; \<open>proto.Unmarshal\<close> fails on bytes that are no such message.\<close>

record 'b codec = wkt +
  marshal_workflow :: "WorkflowRecord \<Rightarrow> 'b result"
  unmarshal_workflow :: "'b \<Rightarrow> WorkflowRecord option"
  marshal_activity :: "ActivityRecord \<Rightarrow> 'b result"
  unmarshal_activity :: "'b \<Rightarrow> ActivityRecord option"
  marshal_timer :: "TimerRecord \<Rightarrow> 'b result"
  unmarshal_timer :: "'b \<Rightarrow> TimerRecord option"
  marshal_event :: "EventRecord \<Rightarrow> 'b result"
  unmarshal_event :: "'b \<Rightarrow> EventRecord option"
  marshal_claim :: "ClaimRecord \<Rightarrow> 'b result"
  unmarshal_claim :: "'b \<Rightarrow> ClaimRecord option"
  marshal_pointer :: "LatestWorkflowRunPointer \<Rightarrow> 'b result"
  unmarshal_pointer :: "'b \<Rightarrow> LatestWorkflowRunPointer option"
  marshal_due :: "DueTimerEntry \<Rightarrow> 'b result"
  unmarshal_due :: "'b \<Rightarrow> DueTimerEntry option"

text \<open>What iterating an OpenDAL lister yields: the entries, then \<open>Error\<close> and \<open>Close\<close>.\<close>

record listing =
  entries :: "path list"
  lister_Error :: "go_error option"
  lister_Close :: "go_error option"

record ('s, 'b) env = "'b codec" +
  op_IsExist :: "path \<Rightarrow> ('s, bool) prog"
  op_Read :: "path \<Rightarrow> ('s, 'b) prog"
  op_Write :: "path \<Rightarrow> 'b \<Rightarrow> ('s, unit) prog"
  op_Delete :: "path \<Rightarrow> ('s, unit) prog"
  op_CreateDir :: "path \<Rightarrow> ('s, unit) prog"
  op_List :: "path \<Rightarrow> ('s, listing) prog"
  ctx_Err :: "context \<Rightarrow> ('s, unit) prog"
  time_Now :: "('s, time) prog"
  walk_bound :: nat

section \<open>Helpers of the object store\<close>

definition HasSuffix :: "string \<Rightarrow> string \<Rightarrow> bool" where
  "HasSuffix s x = suffix x s"

definition deleteIfExists :: "('s, 'b, 'm) env_scheme \<Rightarrow> path \<Rightarrow> ('s, bool) prog" where
  "deleteIfExists X path =
     andThen (op_IsExist X path) (\<lambda>exists.
     if \<not> exists then ret False
     else andThen (attempt (op_Delete X path)) (\<lambda>r.
       case r of
         Inl err \<Rightarrow> if isOpenDALNotFound err then ret False else fail err
       | Inr _ \<Rightarrow> ret True))"

text \<open>
  One round of the walk: the entries of the directory \<open>current\<close>, other than itself, are
  appended to the queue (directories) and to the files found (record objects).
\<close>

definition walk_entries ::
  "path \<Rightarrow> path list \<Rightarrow> path list \<times> path list \<Rightarrow> path list \<times> path list" where
  "walk_entries current es acc =
     foldl (\<lambda>(queue, files) path.
       if path = current then (queue, files)
       else if HasSuffix path ''/'' then (queue @ [path], files)
       else if HasSuffix path ''.binpb'' then (queue, files @ [path])
       else (queue, files)) acc es"

text \<open>
  The loop of \<open>walkOpenDAL\<close>, with a bound on the directories it visits. A run that would
  exceed the bound is the error \<open>OutOfFuel\<close>, which no run reaches whose bound is above the
  number of directories (\<open>walk_exact\<close> below).
\<close>

fun walk_loop ::
  "('s, 'b, 'm) env_scheme \<Rightarrow> context \<Rightarrow> nat \<Rightarrow> path list \<Rightarrow> path list \<Rightarrow> ('s, path list) prog" where
  "walk_loop X ctx 0 queue files = fail OutOfFuel"
| "walk_loop X ctx (Suc n) [] files = ret (sort files)"
| "walk_loop X ctx (Suc n) (current # queue) files =
     andThen (ctx_Err X ctx) (\<lambda>_.
     andThen (attempt (op_List X current)) (\<lambda>r.
     case r of
       Inl err \<Rightarrow> if isOpenDALNotFound err then walk_loop X ctx n queue files else fail err
     | Inr lister \<Rightarrow>
         (case walk_entries current (entries lister) (queue, files) of (queue', files') \<Rightarrow>
          case lister_Error lister of
            Some listerErr \<Rightarrow> fail listerErr
          | None \<Rightarrow>
          case lister_Close lister of
            Some closeErr \<Rightarrow> fail closeErr
          | None \<Rightarrow> walk_loop X ctx n queue' files')))"

definition walkOpenDAL ::
  "('s, 'b, 'm) env_scheme \<Rightarrow> context \<Rightarrow> path \<Rightarrow> ('s, path list) prog" where
  "walkOpenDAL X ctx root_dir = walk_loop X ctx (walk_bound X) [root_dir] []"

text \<open>The message argument of \<open>readListedProto\<close> fixes how the bytes are decoded.\<close>

definition readListedProto ::
  "('s, 'b, 'm) env_scheme \<Rightarrow> context \<Rightarrow> path \<Rightarrow> ('b \<Rightarrow> 'r option) \<Rightarrow> ('s, 'r) prog" where
  "readListedProto X ctx path unmarshal =
     andThen (ctx_Err X ctx) (\<lambda>_.
     andThen (op_Read X path) (\<lambda>data.
     case unmarshal data of
       None \<Rightarrow> fail (corruptRecordf ''decode listed protobuf'')
     | Some message \<Rightarrow> ret message))"

section \<open>The laws\<close>

locale codec_laws = well_known_types X for X :: "('b, 'm) codec_scheme" +
  assumes workflow_roundtrip: "marshal_workflow X w = Inr b \<Longrightarrow> unmarshal_workflow X b = Some w"
    and activity_roundtrip: "marshal_activity X a = Inr b \<Longrightarrow> unmarshal_activity X b = Some a"
    and timer_roundtrip: "marshal_timer X t = Inr b \<Longrightarrow> unmarshal_timer X b = Some t"
    and event_roundtrip: "marshal_event X e = Inr b \<Longrightarrow> unmarshal_event X b = Some e"
    and claim_roundtrip: "marshal_claim X c = Inr b \<Longrightarrow> unmarshal_claim X b = Some c"
    and pointer_roundtrip: "marshal_pointer X p = Inr b \<Longrightarrow> unmarshal_pointer X b = Some p"
    and due_roundtrip: "marshal_due X d = Inr b \<Longrightarrow> unmarshal_due X b = Some d"
begin

lemmas roundtrips = workflow_roundtrip activity_roundtrip timer_roundtrip event_roundtrip
  claim_roundtrip pointer_roundtrip due_roundtrip

end

text \<open>An object path names a file: it does not end in a slash.\<close>

definition file_path :: "path \<Rightarrow> bool" where
  "file_path p \<longleftrightarrow> p \<noteq> [] \<and> last p \<noteq> CHR ''/''"

definition dir_path :: "path \<Rightarrow> bool" where
  "dir_path d \<longleftrightarrow> d \<noteq> [] \<and> last d = CHR ''/''"

text \<open>The entry under which the listing of \<open>d\<close> shows the object \<open>p\<close> below it.\<close>

definition child :: "path \<Rightarrow> path \<Rightarrow> path" where
  "child d p =
     (let rest = drop (length d) p in
      if slash_free rest then p else d @ takeWhile (\<lambda>c. c \<noteq> CHR ''/'') rest @ ''/'')"

text \<open>The record objects below a directory.\<close>

definition records_below :: "(path \<Rightarrow> 'b option) \<Rightarrow> path \<Rightarrow> path set" where
  "records_below obs d = {p. obs p \<noteq> None \<and> prefix d p \<and> suffix ''.binpb'' p}"

text \<open>A queue of the walk: directories none of which lies below another.\<close>

definition antichain :: "path list \<Rightarrow> bool" where
  "antichain q \<longleftrightarrow> distinct q \<and> (\<forall>d \<in> set q. dir_path d) \<and>
     (\<forall>d \<in> set q. \<forall>d' \<in> set q. prefix d d' \<longrightarrow> d = d')"

text \<open>The directories a walk with this queue may still visit.\<close>

definition pending :: "path set \<Rightarrow> path list \<Rightarrow> path set" where
  "pending ds q = set q \<union> {d \<in> ds. \<exists>c \<in> set q. prefix c d}"

lemma file_pathI [simp]: "suffix ''.binpb'' p \<Longrightarrow> file_path p"
  by (auto simp: suffix_def file_path_def)

lemma dir_not_file: "suffix ''/'' p \<Longrightarrow> \<not> file_path p"
  by (auto simp: suffix_def file_path_def)

lemma walk_entries_eq:
  "walk_entries cur es (q, f) =
     (q @ filter (\<lambda>p. p \<noteq> cur \<and> suffix ''/'' p) es,
      f @ filter (\<lambda>p. p \<noteq> cur \<and> \<not> suffix ''/'' p \<and> suffix ''.binpb'' p) es)"
  unfolding walk_entries_def HasSuffix_def by (induction es arbitrary: q f) auto

lemma prefix_slash_unique:
  assumes "slash_free x" "slash_free y" "prefix (x @ ''/'') (y @ ''/'')"
  shows "x = y"
proof -
  from assms(3) obtain z where "y @ ''/'' = (x @ ''/'') @ z" by (auto simp: prefix_def)
  then have "segs (y @ CHR ''/'' # []) = segs (x @ CHR ''/'' # z)" by simp
  with assms show ?thesis by simp
qed

lemma child_cases:
  assumes "prefix d p"
  shows "child d p = p \<and> slash_free (drop (length d) p) \<or>
    (\<exists>x. child d p = d @ x @ ''/'' \<and> slash_free x \<and> prefix (child d p) p)"
proof -
  obtain r where p: "p = d @ r" using assms by (auto simp: prefix_def)
  show ?thesis
  proof (cases "slash_free r")
    case True
    then show ?thesis by (simp add: child_def p)
  next
    case False
    define x where "x = takeWhile (\<lambda>c. c \<noteq> CHR ''/'') r"
    obtain y where "dropWhile (\<lambda>c. c \<noteq> CHR ''/'') r = CHR ''/'' # y"
      using False hd_dropWhile [of "\<lambda>c. c \<noteq> CHR ''/''" r]
      by (cases "dropWhile (\<lambda>c. c \<noteq> CHR ''/'') r") (auto simp: dropWhile_eq_Nil_conv slash_free_def)
    then have "r = x @ CHR ''/'' # y"
      using takeWhile_dropWhile_id [of "\<lambda>c. c \<noteq> CHR ''/''" r] by (simp add: x_def)
    moreover have "slash_free x" by (auto simp: x_def slash_free_def dest: set_takeWhileD)
    moreover have "child d p = d @ x @ ''/''" using False by (simp add: child_def p x_def)
    ultimately show ?thesis by (auto simp: p)
  qed
qed

lemma antichain_Cons:
  assumes "antichain (cur # queue)"
  shows "antichain queue" "dir_path cur" "cur \<notin> set queue"
    and "d \<in> set queue \<Longrightarrow> \<not> prefix cur d" "d \<in> set queue \<Longrightarrow> \<not> prefix d cur"
  using assms by (auto simp: antichain_def)

lemma antichain_extend:
  assumes a: "antichain (cur # queue)" and "distinct ds"
    and ds: "\<And>d. d \<in> set ds \<Longrightarrow> \<exists>x. slash_free x \<and> d = cur @ x @ ''/''"
  shows "antichain (queue @ ds)"
proof -
  note c = antichain_Cons [OF a]
  have below: "prefix cur d \<and> dir_path d" if "d \<in> set ds" for d
    using ds [OF that] by (auto simp: dir_path_def)
  have ds_eq: "d = d'" if "d \<in> set ds" "d' \<in> set ds" "prefix d d'" for d d'
  proof -
    obtain x y where "slash_free x" "slash_free y" "d = cur @ x @ ''/''" "d' = cur @ y @ ''/''"
      using ds [OF \<open>d \<in> set ds\<close>] ds [OF \<open>d' \<in> set ds\<close>] by auto
    with prefix_slash_unique [of x y] \<open>prefix d d'\<close> show ?thesis by simp
  qed
  have sep: "\<not> prefix d d' \<and> \<not> prefix d' d" if "d \<in> set queue" "d' \<in> set ds" for d d'
    using c(4,5) [OF that(1)] below [OF that(2)] prefix_same_cases [of d d' cur]
      prefix_order.trans [of cur d' d] by auto
  have "set queue \<inter> set ds = {}"
    using sep by blast
  moreover have "d = d'" if "d \<in> set (queue @ ds)" "d' \<in> set (queue @ ds)" "prefix d d'" for d d'
  proof -
    note h = that
    consider "d \<in> set queue" "d' \<in> set queue" | "d \<in> set ds" "d' \<in> set ds"
      | "d \<in> set queue" "d' \<in> set ds" | "d \<in> set ds" "d' \<in> set queue"
      using h by auto
    then show ?thesis
      using h(3) c(1) ds_eq sep by cases (auto simp: antichain_def)
  qed
  moreover have "\<forall>d \<in> set (queue @ ds). dir_path d"
    using c(1) below by (auto simp: antichain_def)
  ultimately show ?thesis
    using c(1) \<open>distinct ds\<close> unfolding antichain_def by (metis distinct_append)
qed

lemma pending_smaller:
  assumes a: "antichain (cur # queue)" and "finite D"
    and ds: "\<And>d. d \<in> set ds \<Longrightarrow> d \<in> D \<and> prefix cur d \<and> d \<noteq> cur"
  shows "card (pending D (queue @ ds)) < card (pending D (cur # queue))"
proof (rule psubset_card_mono)
  show "finite (pending D (cur # queue))" using \<open>finite D\<close> by (simp add: pending_def)
  note c = antichain_Cons [OF a]
  have "\<not> prefix d cur" if "d \<in> set queue \<union> set ds" for d
    using that ds [of d] c(5) [of d] prefix_order.antisym by blast
  then have "cur \<notin> pending D (queue @ ds)"
    by (auto simp: pending_def)
  moreover have "cur \<in> pending D (cur # queue)" by (simp add: pending_def)
  moreover have "pending D (queue @ ds) \<subseteq> pending D (cur # queue)"
  proof
    fix d assume "d \<in> pending D (queue @ ds)"
    then consider "d \<in> set queue" | "d \<in> set ds" | e where "d \<in> D" "e \<in> set queue" "prefix e d"
      | e where "d \<in> D" "e \<in> set ds" "prefix e d"
      by (auto simp: pending_def)
    then show "d \<in> pending D (cur # queue)"
      using ds prefix_order.trans by cases (auto simp: pending_def)
  qed
  ultimately show "pending D (queue @ ds) \<subset> pending D (cur # queue)" by blast
qed

text \<open>
  The documented behaviour of an OpenDAL operator that the code relies on. \<open>objs\<close> is what the
  bucket holds and \<open>dirs\<close> the directories that exist in it. Reads are accurate, and their errors
  are the operator's own, never the store's \<open>ErrCorruptRecord\<close>; a write or
  delete that fails may or may not have taken effect; listing a directory shows its immediate
  children, every object below it being covered by an entry.
\<close>

locale opendal_laws = codec_laws X for X :: "('s, 'b, 'm) env_scheme" +
  fixes objs :: "'s \<Rightarrow> path \<Rightarrow> 'b option" and dirs :: "'s \<Rightarrow> path set"
  assumes finite_objs: "finite (dom (objs s))"
    and finite_dirs: "finite (dirs s)"
    and objs_files: "objs s p = Some b \<Longrightarrow> file_path p"
    and ctx_keeps: "keeps objs (ctx_Err X c)" "keeps dirs (ctx_Err X c)"
    and ctx_error: "ctx_Err X c s = (Inl e, s1) \<Longrightarrow> e = Sentinel Canceled \<or> e = Sentinel DeadlineExceeded"
    and now_keeps: "keeps objs (time_Now X)" "keeps dirs (time_Now X)"
    and now_value: "time_Now X s = (r, s1) \<Longrightarrow> \<exists>t. r = Inr t \<and> timestamp_range t"
    and exist_keeps: "keeps objs (op_IsExist X p)" "keeps dirs (op_IsExist X p)"
    and exist_own_error: "op_IsExist X p s = (Inl e, s1) \<Longrightarrow> \<not> errors_Is e ErrCorruptRecord"
    and exist_value: "file_path p \<Longrightarrow> op_IsExist X p s = (Inr v, s1) \<Longrightarrow> v = (objs s p \<noteq> None)"
    and read_keeps: "keeps objs (op_Read X p)" "keeps dirs (op_Read X p)"
    and read_own_error: "op_Read X p s = (Inl e, s1) \<Longrightarrow> \<not> errors_Is e ErrCorruptRecord"
    and read_value: "op_Read X p s = (Inr b, s1) \<Longrightarrow> objs s p = Some b"
    and read_not_found: "op_Read X p s = (Inl e, s1) \<Longrightarrow> isOpenDALNotFound e \<Longrightarrow> objs s p = None"
    and write_done: "file_path p \<Longrightarrow> op_Write X p b s = (Inr u, s1) \<Longrightarrow> objs s1 = (objs s)(p \<mapsto> b)"
    and write_failed: "file_path p \<Longrightarrow> op_Write X p b s = (Inl e, s1) \<Longrightarrow>
          objs s1 = objs s \<or> objs s1 = (objs s)(p \<mapsto> b)"
    and delete_done: "file_path p \<Longrightarrow> op_Delete X p s = (Inr u, s1) \<Longrightarrow> objs s1 = (objs s)(p := None)"
    and delete_failed: "file_path p \<Longrightarrow> op_Delete X p s = (Inl e, s1) \<Longrightarrow>
          objs s1 = objs s \<or> objs s1 = (objs s)(p := None)"
    and delete_not_found: "file_path p \<Longrightarrow> op_Delete X p s = (Inl e, s1) \<Longrightarrow>
          isOpenDALNotFound e \<Longrightarrow> objs s p = None"
    and createdir_keeps: "keeps objs (op_CreateDir X d)"
    and list_keeps: "keeps objs (op_List X d)" "keeps dirs (op_List X d)"
    and list_covers: "op_List X d s = (Inr l, s1) \<Longrightarrow> lister_Error l = None \<Longrightarrow>
          objs s p = Some b \<Longrightarrow> prefix d p \<Longrightarrow> child d p \<in> set (entries l)"
    and list_sound: "op_List X d s = (Inr l, s1) \<Longrightarrow> lister_Error l = None \<Longrightarrow> dir_path d \<Longrightarrow>
          q \<in> set (entries l) \<Longrightarrow> q \<noteq> d \<Longrightarrow>
          (file_path q \<and> objs s q \<noteq> None \<and> prefix d q \<and> slash_free (drop (length d) q)) \<or>
          (\<exists>x. slash_free x \<and> q = d @ x @ ''/'' \<and> q \<in> dirs s)"
    and list_go_error: "op_List X d s = (k, s1) \<Longrightarrow> k \<noteq> Inl OutOfFuel \<and>
          (\<forall>l. k = Inr l \<longrightarrow> lister_Error l \<noteq> Some OutOfFuel \<and> lister_Close l \<noteq> Some OutOfFuel)"
    and list_distinct: "op_List X d s = (Inr l, s1) \<Longrightarrow> distinct (entries l)"
    and list_not_found: "op_List X d s = (Inl e, s1) \<Longrightarrow> isOpenDALNotFound e \<Longrightarrow>
          objs s p = Some b \<Longrightarrow> \<not> prefix d p"

begin

lemma wp_ctx:
  assumes "\<And>s1. objs s1 = objs s \<Longrightarrow> dirs s1 = dirs s \<Longrightarrow> Q () s1"
    and "\<And>u s1. u \<noteq> ErrCorruptRecord \<Longrightarrow> objs s1 = objs s \<Longrightarrow> dirs s1 = dirs s \<Longrightarrow> E (Sentinel u) s1"
  shows "wpre (ctx_Err X c) Q E s"
  using assms by (intro wpre_keepsI [OF ctx_keeps]) (auto dest: ctx_error)

lemma wp_now:
  assumes "\<And>t s1. timestamp_range t \<Longrightarrow> objs s1 = objs s \<Longrightarrow> dirs s1 = dirs s \<Longrightarrow> Q t s1"
  shows "wpre (time_Now X) Q E s"
  using assms by (intro wpre_keepsI [OF now_keeps]) (auto dest!: now_value)

lemma wp_exist:
  assumes "file_path p"
    and "\<And>s1. objs s1 = objs s \<Longrightarrow> dirs s1 = dirs s \<Longrightarrow> Q (objs s p \<noteq> None) s1"
    and "\<And>e s1. \<not> errors_Is e ErrCorruptRecord \<Longrightarrow> objs s1 = objs s \<Longrightarrow> dirs s1 = dirs s \<Longrightarrow> E e s1"
  shows "wpre (op_IsExist X p) Q E s"
  using assms exist_value exist_own_error by (intro wpre_keepsI [OF exist_keeps]) blast+

lemma wp_read:
  assumes "\<And>b s1. objs s p = Some b \<Longrightarrow> objs s1 = objs s \<Longrightarrow> dirs s1 = dirs s \<Longrightarrow> Q b s1"
    and "\<And>e s1. (isOpenDALNotFound e \<Longrightarrow> objs s p = None) \<Longrightarrow> \<not> errors_Is e ErrCorruptRecord \<Longrightarrow>
          objs s1 = objs s \<Longrightarrow> dirs s1 = dirs s \<Longrightarrow> E e s1"
  shows "wpre (op_Read X p) Q E s"
  using assms read_value read_not_found read_own_error by (intro wpre_keepsI [OF read_keeps]) blast+

lemma wp_write:
  assumes "file_path p"
    and "\<And>s1. objs s1 = (objs s)(p \<mapsto> b) \<Longrightarrow> Q () s1"
    and "\<And>e s1. objs s1 = objs s \<Longrightarrow> E e s1"
    and "\<And>e s1. objs s1 = (objs s)(p \<mapsto> b) \<Longrightarrow> E e s1"
  shows "wpre (op_Write X p b) Q E s"
  using assms write_done write_failed by (intro wpreI) (auto, metis)

lemma wp_delete:
  assumes "file_path p"
    and "\<And>s1. objs s1 = (objs s)(p := None) \<Longrightarrow> Q () s1"
    and "\<And>e s1. (isOpenDALNotFound e \<Longrightarrow> objs s p = None) \<Longrightarrow> objs s1 = objs s \<Longrightarrow> E e s1"
    and "\<And>e s1. (isOpenDALNotFound e \<Longrightarrow> objs s p = None) \<Longrightarrow>
          objs s1 = (objs s)(p := None) \<Longrightarrow> E e s1"
  shows "wpre (op_Delete X p) Q E s"
  using assms delete_done delete_failed delete_not_found by (intro wpreI) (auto, metis)

lemma wp_createdir:
  assumes "\<And>s1. objs s1 = objs s \<Longrightarrow> Q () s1" and "\<And>e s1. objs s1 = objs s \<Longrightarrow> E e s1"
  shows "wpre (op_CreateDir X d) Q E s"
  using assms by (intro wpre_keepsI [OF createdir_keeps createdir_keeps]) auto

lemmas reads = wp_ctx wp_now wp_exist wp_read
lemmas ops = reads wp_write wp_delete wp_createdir

lemma wp_deleteIfExists:
  assumes "file_path p"
    and "\<And>s1. objs s1 = (objs s)(p := None) \<Longrightarrow> Q (objs s p \<noteq> None) s1"
    and "\<And>e s1. objs s1 = objs s \<Longrightarrow> E e s1"
    and "\<And>e s1. objs s1 = (objs s)(p := None) \<Longrightarrow> E e s1"
  shows "wpre (deleteIfExists X p) Q E s"
  unfolding deleteIfExists_def
  using assms fun_upd_idem [of "objs s" p None]
  by (cases "objs s p") (auto simp: wp intro!: wp_exist wp_delete split: sum.splits)

lemma wp_readListed:
  assumes "\<And>b r s1. objs s p = Some b \<Longrightarrow> u b = Some r \<Longrightarrow> objs s1 = objs s \<Longrightarrow>
          dirs s1 = dirs s \<Longrightarrow> Q r s1"
    and "\<And>e s1. (isOpenDALNotFound e \<Longrightarrow> objs s p = None) \<Longrightarrow> objs s1 = objs s \<Longrightarrow>
          dirs s1 = dirs s \<Longrightarrow> E e s1"
  shows "wpre (readListedProto X c p u) Q E s"
  unfolding readListedProto_def
  using assms by (auto simp: wp intro!: wp_ctx wp_read assms split: option.splits)

lemma finite_below [simp]: "finite (records_below (objs s) d)"
  using finite_objs [of s] by (rule rev_finite_subset) (auto simp: records_below_def)

subsection \<open>The walk\<close>

text \<open>What one round of the walk finds in a directory whose listing succeeded.\<close>

lemma list_dirs:
  assumes "op_List X cur s = (Inr l, s1)" "lister_Error l = None" "dir_path cur"
    and "d \<in> set (entries l)" "d \<noteq> cur" "suffix ''/'' d"
  shows "(\<exists>x. slash_free x \<and> d = cur @ x @ ''/'') \<and> d \<in> dirs s"
  using list_sound [OF assms(1-5)] dir_not_file [OF assms(6)] by auto

lemma list_files:
  assumes "op_List X cur s = (Inr l, s1)" "lister_Error l = None" "dir_path cur"
    and "f \<in> set (entries l)" "f \<noteq> cur" "suffix ''.binpb'' f"
  shows "objs s f \<noteq> None \<and> prefix cur f \<and> slash_free (drop (length cur) f)"
  using list_sound [OF assms(1-5)] assms(6) by (auto simp: suffix_def)

lemma list_complete:
  assumes l: "op_List X cur s = (Inr l, s1)" "lister_Error l = None" "dir_path cur"
    and p: "p \<in> records_below (objs s) cur"
  shows "p \<in> set (entries l) \<and> p \<noteq> cur \<or>
    (\<exists>d \<in> set (entries l). d \<noteq> cur \<and> suffix ''/'' d \<and> p \<in> records_below (objs s) d)"
proof -
  have pre: "prefix cur p" and bin: "suffix ''.binpb'' p" and obj: "objs s p \<noteq> None"
    using p by (auto simp: records_below_def)
  then have "child cur p \<in> set (entries l)" using list_covers [OF l(1,2)] by auto
  moreover have "p \<noteq> cur" using bin l(3) by (auto simp: dir_path_def suffix_def)
  moreover have "suffix ''/'' (child cur p) \<and> child cur p \<noteq> cur" if "child cur p = cur @ x @ ''/''" for x
    using that by (auto simp: suffix_def intro: exI [of _ "cur @ x"])
  ultimately show ?thesis
    using child_cases [OF pre] bin obj unfolding records_below_def by (smt (verit) mem_Collect_eq)
qed

lemma round_finds:
  assumes l: "op_List X cur s = (Inr l, s1)" "lister_Error l = None" "dir_path cur"
  defines "ds \<equiv> filter (\<lambda>p. p \<noteq> cur \<and> suffix ''/'' p) (entries l)"
    and "fs \<equiv> filter (\<lambda>p. p \<noteq> cur \<and> \<not> suffix ''/'' p \<and> suffix ''.binpb'' p) (entries l)"
  shows "records_below (objs s) cur = set fs \<union> (\<Union>d \<in> set ds. records_below (objs s) d)"
proof
  show "records_below (objs s) cur \<subseteq> set fs \<union> (\<Union>d \<in> set ds. records_below (objs s) d)"
  proof
    fix p assume p: "p \<in> records_below (objs s) cur"
    then have "\<not> suffix ''/'' p" "suffix ''.binpb'' p"
      by (auto simp: records_below_def suffix_def)
    with list_complete [OF l p] show "p \<in> set fs \<union> (\<Union>d \<in> set ds. records_below (objs s) d)"
      by (auto simp: ds_def fs_def)
  qed
  show "set fs \<union> (\<Union>d \<in> set ds. records_below (objs s) d) \<subseteq> records_below (objs s) cur"
  proof
    fix p assume "p \<in> set fs \<union> (\<Union>d \<in> set ds. records_below (objs s) d)"
    then consider "p \<in> set fs" | d where "d \<in> set ds" "p \<in> records_below (objs s) d" by auto
    then show "p \<in> records_below (objs s) cur"
    proof cases
      case 1
      then show ?thesis using list_files [OF l, of p] by (auto simp: fs_def records_below_def)
    next
      case 2
      then have "prefix cur d" using list_dirs [OF l, of d] by (auto simp: ds_def)
      with 2 show ?thesis using prefix_order.trans by (auto simp: records_below_def)
    qed
  qed
qed

text \<open>The invariant of the loop: the files found are distinct and lie below no queued directory.\<close>

definition walk_inv :: "path list \<Rightarrow> path list \<Rightarrow> bool" where
  "walk_inv queue files \<longleftrightarrow> antichain queue \<and> distinct files \<and>
     (\<forall>f \<in> set files. \<forall>d \<in> set queue. \<not> prefix d f)"

lemma walk_inv_round:
  assumes l: "op_List X cur s = (Inr l, s1)" "lister_Error l = None"
    and inv: "walk_inv (cur # queue) files"
    and step: "walk_entries cur (entries l) (queue, files) = (queue', files')"
  shows "walk_inv queue' files'"
    and "card (pending (dirs s) queue') < card (pending (dirs s) (cur # queue))"
    and "set files' \<union> (\<Union>d \<in> set queue'. records_below (objs s) d) =
         set files \<union> (\<Union>d \<in> set (cur # queue). records_below (objs s) d)"
proof -
  define ds where "ds = filter (\<lambda>p. p \<noteq> cur \<and> suffix ''/'' p) (entries l)"
  define fs where "fs = filter (\<lambda>p. p \<noteq> cur \<and> \<not> suffix ''/'' p \<and> suffix ''.binpb'' p) (entries l)"
  have q': "queue' = queue @ ds" and f': "files' = files @ fs"
    using step by (simp_all add: walk_entries_eq ds_def fs_def)
  have a: "antichain (cur # queue)" using inv by (simp add: walk_inv_def)
  note c = antichain_Cons [OF a]
  have ds: "(\<exists>x. slash_free x \<and> d = cur @ x @ ''/'') \<and> d \<in> dirs s" if "d \<in> set ds" for d
    using list_dirs [OF l c(2)] that by (auto simp: ds_def)
  have fs: "prefix cur f \<and> slash_free (drop (length cur) f)" if "f \<in> set fs" for f
    using list_files [OF l c(2)] that by (auto simp: fs_def)
  have "antichain queue'"
    unfolding q' using list_distinct [OF l(1)] ds by (intro antichain_extend [OF a]) (auto simp: ds_def)
  moreover have "distinct files'"
    using inv list_distinct [OF l(1)] fs by (auto simp: f' walk_inv_def fs_def)
  moreover have "\<not> prefix d f" if "f \<in> set files'" "d \<in> set queue'" for f d
  proof -
    note h = that
    have old: "\<not> prefix cur f \<and> \<not> prefix d f" if "f \<in> set files" "d \<in> set queue \<or> prefix cur d"
      using that inv prefix_order.trans [of cur d f] by (auto simp: walk_inv_def)
    consider "f \<in> set files" | "f \<in> set fs" "d \<in> set queue" | "f \<in> set fs" "d \<in> set ds"
      using h by (auto simp: q' f')
    then show ?thesis
    proof cases
      case 1
      then show ?thesis using old h(2) ds [of d] by (auto simp: q')
    next
      case 2
      then show ?thesis using fs c(4,5) prefix_same_cases [of d f cur] by blast
    next
      case 3
      then show ?thesis using fs [of f] ds [of d] by (auto simp: prefix_def)
    qed
  qed
  ultimately show "walk_inv queue' files'" by (simp add: walk_inv_def)
  show "card (pending (dirs s) queue') < card (pending (dirs s) (cur # queue))"
    unfolding q' using ds by (intro pending_smaller [OF a finite_dirs]) fastforce
  show "set files' \<union> (\<Union>d \<in> set queue'. records_below (objs s) d) =
      set files \<union> (\<Union>d \<in> set (cur # queue). records_below (objs s) d)"
    using round_finds [OF l c(2)] by (auto simp: q' f' ds_def fs_def)
qed

lemma walk_inv_skip:
  assumes "walk_inv (cur # queue) files"
  shows "walk_inv queue files" "card (pending (dirs s) queue) < card (pending (dirs s) (cur # queue))"
  using assms antichain_Cons(1) pending_smaller [of cur queue "dirs s" "[]"] finite_dirs
  by (auto simp: walk_inv_def)

definition walk_found :: "'s \<Rightarrow> path list \<Rightarrow> path list \<Rightarrow> path list \<Rightarrow> 's \<Rightarrow> bool" where
  "walk_found s queue files r s1 \<longleftrightarrow> objs s1 = objs s \<and> dirs s1 = dirs s \<and>
     r = sorted_list_of_set (set files \<union> (\<Union>d \<in> set queue. records_below (objs s) d))"

definition walk_failed :: "'s \<Rightarrow> go_error \<Rightarrow> 's \<Rightarrow> bool" where
  "walk_failed s e s1 \<longleftrightarrow> objs s1 = objs s \<and> dirs s1 = dirs s \<and> e \<noteq> OutOfFuel"

lemma walk_list_done:
  assumes IH: "\<And>queue files s. walk_inv queue files \<Longrightarrow> card (pending (dirs s) queue) < n \<Longrightarrow>
      wpre (walk_loop X c n queue files) (walk_found s queue files) (walk_failed s) s"
    and "walk_inv (cur # rest) files" "card (pending (dirs s) (cur # rest)) < Suc n"
    and l: "op_List X cur s1 = (Inr l, s2)" and s1: "objs s1 = objs s" "dirs s1 = dirs s"
    and s2: "objs s2 = objs s" "dirs s2 = dirs s"
  shows "wpre (case walk_entries cur (entries l) (rest, files) of (queue', files') \<Rightarrow>
          case lister_Error l of Some listerErr \<Rightarrow> fail listerErr | None \<Rightarrow>
          case lister_Close l of Some closeErr \<Rightarrow> fail closeErr
          | None \<Rightarrow> walk_loop X c n queue' files')
        (walk_found s (cur # rest) files) (walk_failed s) s2"
proof (cases "lister_Error l = None \<and> lister_Close l = None")
  case True
  obtain q' f' where w: "walk_entries cur (entries l) (rest, files) = (q', f')" by fastforce
  note r = walk_inv_round [OF l conjunct1 [OF True] assms(2) w]
  have "card (pending (dirs s2) q') < n" using r(2) s1 s2 assms(3) by simp
  from IH [OF r(1) this] True w r(3) s1 s2 show ?thesis
    by (simp add: wp walk_found_def [abs_def] walk_failed_def [abs_def])
next
  case False
  have "lister_Error l \<noteq> Some OutOfFuel" "lister_Close l \<noteq> Some OutOfFuel"
    using list_go_error [OF l] by auto
  with False s2 show ?thesis by (auto simp: wp walk_failed_def split: option.splits prod.splits)
qed

lemma walk_list_failed:
  assumes IH: "\<And>queue files s. walk_inv queue files \<Longrightarrow> card (pending (dirs s) queue) < n \<Longrightarrow>
      wpre (walk_loop X c n queue files) (walk_found s queue files) (walk_failed s) s"
    and inv: "walk_inv (cur # rest) files" "card (pending (dirs s) (cur # rest)) < Suc n"
    and l: "op_List X cur s1 = (Inl e, s2)" and s1: "objs s1 = objs s" "dirs s1 = dirs s"
    and s2: "objs s2 = objs s" "dirs s2 = dirs s"
  shows "wpre (if isOpenDALNotFound e then walk_loop X c n rest files else fail e)
        (walk_found s (cur # rest) files) (walk_failed s) s2"
proof (cases "isOpenDALNotFound e")
  case True
  have "records_below (objs s) cur = {}"
    using list_not_found [OF l True] s1 by (auto simp: records_below_def)
  moreover have "card (pending (dirs s2) rest) < n"
    using inv(2) walk_inv_skip(2) [OF inv(1), of s2] s2 by simp
  ultimately show ?thesis
    using IH [OF walk_inv_skip(1) [OF inv(1)], of s2] True s2
    by (simp add: walk_found_def [abs_def] walk_failed_def [abs_def])
next
  case False
  then show ?thesis using list_go_error [OF l] s2 by (simp add: wp walk_failed_def)
qed

lemma walk_loop_exact:
  assumes "walk_inv queue files" "card (pending (dirs s) queue) < n"
  shows "wpre (walk_loop X c n queue files) (walk_found s queue files) (walk_failed s) s"
  using assms
proof (induction n arbitrary: queue files s)
  case (Suc n)
  show ?case
  proof (cases queue)
    case Nil
    then show ?thesis
      using Suc.prems by (simp add: wp walk_inv_def walk_found_def sort_eq_sorted_list_of_set)
  next
    case (Cons cur rest)
    note inv = Suc.prems [unfolded Cons]
    show ?thesis
      unfolding Cons walk_loop.simps wpre_andThen wpre_attempt wpre_case_sum
    proof (rule wp_ctx, goal_cases)
      case (1 s1)
      then show ?case
        using walk_list_done [OF Suc.IH inv] walk_list_failed [OF Suc.IH inv]
        by (intro wpre_keepsI [OF list_keeps]) simp_all
    qed (simp add: walk_failed_def)
  qed
qed simp

text \<open>The walk returns the record objects below its root, each once, in path order.\<close>

lemma walk_exact:
  assumes "dir_path d" "card (dirs s) + 1 < walk_bound X"
  shows "wpre (walkOpenDAL X c d)
    (\<lambda>r s1. objs s1 = objs s \<and> dirs s1 = dirs s \<and> r = sorted_list_of_set (records_below (objs s) d))
    (\<lambda>e s1. objs s1 = objs s \<and> dirs s1 = dirs s \<and> e \<noteq> OutOfFuel) s"
proof -
  have "walk_inv [d] []" using assms(1) by (simp add: walk_inv_def antichain_def)
  moreover have "card (pending (dirs s) [d]) \<le> card (insert d (dirs s))"
    by (rule card_mono) (auto simp: pending_def finite_dirs)
  then have "card (pending (dirs s) [d]) < walk_bound X"
    using assms(2) card_insert_le_m1 [of "card (dirs s) + 1" "dirs s" d] by (simp add: card_insert_if finite_dirs split: if_splits)
  ultimately show ?thesis
    using walk_loop_exact [of "[d]" "[]" s "walk_bound X" c]
    by (simp add: walkOpenDAL_def walk_found_def [abs_def] walk_failed_def [abs_def])
qed

lemma walk_loop_keeps: "keeps objs (walk_loop X c n q f)" "keeps dirs (walk_loop X c n q f)"
proof -
  show "keeps objs (walk_loop X c n q f)"
    by (induction n arbitrary: q f; case_tac q) (auto intro!: frame ctx_keeps list_keeps split: prod.splits)
  show "keeps dirs (walk_loop X c n q f)"
    by (induction n arbitrary: q f; case_tac q) (auto intro!: frame ctx_keeps list_keeps split: prod.splits)
qed

text \<open>A larger bound never changes a result, so a walk that succeeds is exact under any bound.\<close>

lemma walk_loop_more:
  "walk_loop X c n q f s = (Inr r, s1) \<Longrightarrow> walk_loop X c (n + m) q f s = (Inr r, s1)"
proof (induction n arbitrary: q f s)
  case (Suc n)
  then show ?case
    by (cases q) (auto simp: andThen_eq_Inr attempt_def fail_apply split: sum.splits prod.splits option.splits if_splits
        intro!: exI [where P = "\<lambda>s. _ s = _ \<and> _"])
qed (simp add: fail_apply)

lemma walk_done:
  assumes "dir_path d"
  shows "wpre (walkOpenDAL X c d)
    (\<lambda>r s1. objs s1 = objs s \<and> dirs s1 = dirs s \<and> r = sorted_list_of_set (records_below (objs s) d))
    (\<lambda>e s1. objs s1 = objs s \<and> dirs s1 = dirs s) s"
proof (rule wpreI)
  fix r s1 assume w: "walkOpenDAL X c d s = (Inr r, s1)"
  have inv: "walk_inv [d] []" using assms by (simp add: walk_inv_def antichain_def)
  define m where "m = Suc (card (pending (dirs s) [d]))"
  have "walk_loop X c (walk_bound X + m) [d] [] s = (Inr r, s1)"
    using walk_loop_more w by (simp add: walkOpenDAL_def)
  from wpre_InrD [OF walk_loop_exact [OF inv] this] show "objs s1 = objs s \<and> dirs s1 = dirs s \<and>
      r = sorted_list_of_set (records_below (objs s) d)"
    by (simp add: walk_found_def m_def)
next
  fix e s1 assume "walkOpenDAL X c d s = (Inl e, s1)"
  then show "objs s1 = objs s \<and> dirs s1 = dirs s"
    using keepsD [OF walk_loop_keeps(1)] keepsD [OF walk_loop_keeps(2)] by (simp add: walkOpenDAL_def)
qed

end

section \<open>An in-memory operator\<close>

text \<open>
  OpenDAL's memory service, with the messages themselves as bytes. \<open>mem_budget\<close> is the
  number of mutations that still succeed (unlimited when \<open>None\<close>): an exhausted budget is a
  process that loses its backend between two writes. \<open>mem_cancelled\<close> is the caller's context.
\<close>

datatype message =
    MWorkflow WorkflowRecord
  | MActivity ActivityRecord
  | MTimer TimerRecord
  | MEvent EventRecord
  | MClaim ClaimRecord
  | MPointer LatestWorkflowRunPointer
  | MDue DueTimerEntry
  | MGarbage string

record memory =
  mem_objs :: "(path \<times> message) list"
  mem_clock :: time
  mem_budget :: "nat option"
  mem_cancelled :: bool

definition mem_lookup :: "memory \<Rightarrow> path \<Rightarrow> message option" where
  "mem_lookup s p = (if file_path p then map_of (mem_objs s) p else None)"

definition mem_keys :: "memory \<Rightarrow> path list" where
  "mem_keys s = filter file_path (map fst (mem_objs s))"

definition mem_dirs :: "memory \<Rightarrow> path set" where
  "mem_dirs s = {d. dir_path d \<and> (\<exists>p \<in> set (mem_keys s). prefix d p)}"

definition mem_mutate :: "((path \<times> message) list \<Rightarrow> (path \<times> message) list) \<Rightarrow> (memory, unit) prog" where
  "mem_mutate f s =
     (if mem_budget s = Some 0 then (Inl (OpenDALError (CodeOther 1)), s)
      else (Inr (), s\<lparr>mem_objs := f (mem_objs s),
                      mem_budget := map_option (\<lambda>n. n - 1) (mem_budget s)\<rparr>))"

definition mem_List :: "path \<Rightarrow> (memory, listing) prog" where
  "mem_List d s =
     (Inr \<lparr>entries = remdups (map (child d) (filter (prefix d) (mem_keys s))),
           lister_Error = None, lister_Close = None\<rparr>, s)"

definition mem_env :: "(memory, message) env" where
  "mem_env = \<lparr>
     Timestamp_CheckValid = Timestamp_CheckValid protobuf_wkt,
     Timestamp_AsTime = Timestamp_AsTime protobuf_wkt,
     Timestamp_New = Timestamp_New protobuf_wkt,
     Duration_CheckValid = Duration_CheckValid protobuf_wkt,
     Duration_AsDuration = Duration_AsDuration protobuf_wkt,
     Duration_New = Duration_New protobuf_wkt,
     marshal_workflow = (\<lambda>r. Inr (MWorkflow r)),
     unmarshal_workflow = (\<lambda>b. case b of MWorkflow r \<Rightarrow> Some r | _ \<Rightarrow> None),
     marshal_activity = (\<lambda>r. Inr (MActivity r)),
     unmarshal_activity = (\<lambda>b. case b of MActivity r \<Rightarrow> Some r | _ \<Rightarrow> None),
     marshal_timer = (\<lambda>r. Inr (MTimer r)),
     unmarshal_timer = (\<lambda>b. case b of MTimer r \<Rightarrow> Some r | _ \<Rightarrow> None),
     marshal_event = (\<lambda>r. Inr (MEvent r)),
     unmarshal_event = (\<lambda>b. case b of MEvent r \<Rightarrow> Some r | _ \<Rightarrow> None),
     marshal_claim = (\<lambda>r. Inr (MClaim r)),
     unmarshal_claim = (\<lambda>b. case b of MClaim r \<Rightarrow> Some r | _ \<Rightarrow> None),
     marshal_pointer = (\<lambda>r. Inr (MPointer r)),
     unmarshal_pointer = (\<lambda>b. case b of MPointer r \<Rightarrow> Some r | _ \<Rightarrow> None),
     marshal_due = (\<lambda>r. Inr (MDue r)),
     unmarshal_due = (\<lambda>b. case b of MDue r \<Rightarrow> Some r | _ \<Rightarrow> None),
     op_IsExist = (\<lambda>p s. (Inr (mem_lookup s p \<noteq> None), s)),
     op_Read = (\<lambda>p s. (case mem_lookup s p of
                          None \<Rightarrow> Inl (OpenDALError CodeNotFound) | Some b \<Rightarrow> Inr b, s)),
     op_Write = (\<lambda>p b. mem_mutate (\<lambda>xs. (p, b) # filter (\<lambda>(q, _). q \<noteq> p) xs)),
     op_Delete = (\<lambda>p. mem_mutate (filter (\<lambda>(q, _). q \<noteq> p))),
     op_CreateDir = (\<lambda>d. ret ()),
     op_List = mem_List,
     ctx_Err = (\<lambda>c s. (if c = Caller \<and> mem_cancelled s then Inl (Sentinel Canceled) else Inr (), s)),
     time_Now = (\<lambda>s. (Inr (if timestamp_range (mem_clock s) then mem_clock s else 0), s)),
     walk_bound = 400\<rparr>"

lemma timestamp_range_0: "timestamp_range 0"
  by (simp add: timestamp_range_def zero_time_def)

lemma finite_mem_dirs: "finite (mem_dirs s)"
proof (rule finite_subset)
  show "mem_dirs s \<subseteq> set (concat (map prefixes (mem_keys s)))"
    by (auto simp: mem_dirs_def)
qed simp

lemma mem_lookup_Some: "mem_lookup s p = Some b \<Longrightarrow> p \<in> set (mem_keys s)"
  by (auto simp: mem_lookup_def mem_keys_def dest!: map_of_SomeD split: if_splits)
     (metis fst_conv image_eqI)

lemma mem_lookup_file: "mem_lookup s p = Some b \<Longrightarrow> file_path p"
  by (simp add: mem_lookup_def split: if_splits)

lemma map_of_filter_neq: "map_of (filter (\<lambda>(q, _). q \<noteq> p) xs) = (map_of xs)(p := None)"
  by (induction xs) auto

lemma mem_lookup_write:
  "file_path p \<Longrightarrow> mem_lookup (s\<lparr>mem_objs := (p, b) # filter (\<lambda>(q, _). q \<noteq> p) (mem_objs s),
     mem_budget := k\<rparr>) = (mem_lookup s)(p \<mapsto> b)"
  by (auto simp: mem_lookup_def fun_eq_iff map_of_filter_neq)

lemma mem_lookup_delete:
  "file_path p \<Longrightarrow> mem_lookup (s\<lparr>mem_objs := filter (\<lambda>(q, _). q \<noteq> p) (mem_objs s),
     mem_budget := k\<rparr>) = (mem_lookup s)(p := None)"
  by (auto simp: mem_lookup_def fun_eq_iff map_of_filter_neq)

lemma mem_list_sound:
  assumes "p \<in> set (mem_keys s)" "prefix d p" "dir_path d"
  shows "(file_path (child d p) \<and> mem_lookup s (child d p) \<noteq> None \<and> prefix d (child d p) \<and>
            slash_free (drop (length d) (child d p))) \<or>
         (\<exists>x. slash_free x \<and> child d p = d @ x @ ''/'' \<and> child d p \<in> mem_dirs s)"
proof -
  have p: "file_path p" "mem_lookup s p \<noteq> None"
    using assms(1) by (auto simp: mem_keys_def mem_lookup_def map_of_eq_None_iff)
  have "dir_path (d @ x @ ''/'')" for x by (simp add: dir_path_def)
  then show ?thesis
    using child_cases [OF assms(2)] p assms by (auto simp: mem_dirs_def)
qed

interpretation mem: opendal_laws mem_env mem_lookup mem_dirs
proof (unfold_locales, goal_cases)
  case (14 s)
  have "dom (mem_lookup s) \<subseteq> set (mem_keys s)" using mem_lookup_Some by auto
  then show ?case by (rule finite_subset) simp
next
  case (41 d s l s1 q)
  then obtain p where "p \<in> set (mem_keys s)" "prefix d p" "q = child d p"
    by (auto simp: mem_env_def mem_List_def)
  with mem_list_sound 41 show ?case by blast
qed (auto simp: mem_env_def keeps_def mem_mutate_def mem_List_def ret_def finite_mem_dirs
    mem_lookup_write mem_lookup_delete mem_lookup_Some mem_lookup_file timestamp_range_0 pb.duration_AsDuration_range errors_Is_def
    intro: pb.timestamp_AsTime_New pb.timestamp_CheckValid_New pb.timestamp_AsTime_range
      pb.duration_AsDuration_New pb.duration_CheckValid_New
    split: if_splits option.splits)

lemma mem_dirs_bound: "card (mem_dirs s) \<le> sum_list (map (\<lambda>p. Suc (length p)) (mem_keys s))"
proof -
  have "card (mem_dirs s) \<le> card (set (concat (map prefixes (mem_keys s))))"
    by (rule card_mono) (auto simp: mem_dirs_def)
  also have "\<dots> \<le> length (concat (map prefixes (mem_keys s)))" by (rule card_length)
  also have "\<dots> = sum_list (map (\<lambda>p. Suc (length p)) (mem_keys s))"
    by (simp add: length_concat o_def)
  finally show ?thesis .
qed

section \<open>Properties of the walk\<close>


definition walk_example :: memory where
  "walk_example = \<lparr>mem_objs = [(''a/b/y.binpb'', MGarbage ''2''), (''a/x.binpb'', MGarbage ''1''),
     (''a/b/c/z.binpb'', MGarbage ''3''), (''a/readme'', MGarbage ''4''), (''b/x.binpb'', MGarbage ''5'')],
     mem_clock = 0, mem_budget = None, mem_cancelled = False\<rparr>"

lemma walk_example_bound: "card (mem_dirs walk_example) + 1 < walk_bound mem_env"
proof -
  have "sum_list (map (\<lambda>p. Suc (length p)) (mem_keys walk_example)) + 1 < walk_bound mem_env"
    by code_simp
  then show ?thesis using mem_dirs_bound [of walk_example] by linarith
qed


end
