(* ===== verification/Records.thy ===== *)
theory Records
  imports Operator
begin

text \<open>
  The record operations of \<open>OpenDALStore\<close> (\<open>core/go/storage/opendal.go\<close>) for activities and
  events, and the point reads of workflows and timers. The locale \<open>record_store\<close> is the
  contract a client of one record kind relies on (a map from keys to records, read by \<open>get\<close>,
  changed by \<open>put\<close> and \<open>del\<close>, where a failed change happened entirely or not at all). Each
  kind's operations are shown to satisfy it on every operator that obeys the OpenDAL laws, and
  the client lemmas follow once for all kinds.
\<close>

section \<open>Point reads\<close>

text \<open>
  The body \<open>GetActivity\<close>, \<open>GetWorkflow\<close>, \<open>GetEvent\<close> and \<open>getTimerPoint\<close> share, for the
  key's path, the message's decoder and its validator. Absence is \<open>None\<close>.
\<close>

definition readPoint ::
  "('s, 'b, 'm) env_scheme \<Rightarrow> context \<Rightarrow> path result \<Rightarrow> ('b \<Rightarrow> 'r option) \<Rightarrow> string \<Rightarrow>
   ('r \<Rightarrow> unit result) \<Rightarrow> ('s, 'r option) prog" where
  "readPoint X ctx keyPath unmarshal decodeError validate =
     andThen (ctx_Err X ctx) (\<lambda>_.
     andThen (lift keyPath) (\<lambda>path.
     andThen (op_IsExist X path) (\<lambda>exists.
     if \<not> exists then ret None else
     andThen (ctx_Err X ctx) (\<lambda>_.
     andThen (op_Read X path) (\<lambda>data.
     case unmarshal data of
       None \<Rightarrow> fail (corruptRecordf decodeError)
     | Some record \<Rightarrow>
         andThen (lift (validate record)) (\<lambda>_. ret (Some record)))))))"

definition GetActivity ::
  "('s, 'b, 'm) env_scheme \<Rightarrow> context \<Rightarrow> ActivityKey \<Rightarrow> ('s, ActivityRecord option) prog" where
  "GetActivity X ctx key =
     readPoint X ctx (ActivityKey_Path key) (unmarshal_activity X) ''decode activity payload''
       (\<lambda>record. ValidateActivityRecord (Some record) key)"

definition GetWorkflow ::
  "('s, 'b, 'm) env_scheme \<Rightarrow> context \<Rightarrow> WorkflowKey \<Rightarrow> ('s, WorkflowRecord option) prog" where
  "GetWorkflow X ctx key =
     readPoint X ctx (WorkflowKey_Path key) (unmarshal_workflow X) ''decode workflow payload''
       (\<lambda>record. ValidateWorkflowRecord X (Some record) key)"

definition getTimerPoint ::
  "('s, 'b, 'm) env_scheme \<Rightarrow> context \<Rightarrow> TimerKey \<Rightarrow> ('s, TimerRecord option) prog" where
  "getTimerPoint X ctx key =
     readPoint X ctx (TimerKey_Path key) (unmarshal_timer X) ''decode timer payload''
       (\<lambda>record. ValidateTimerRecord (Some record) key)"

definition GetEvent ::
  "('s, 'b, 'm) env_scheme \<Rightarrow> context \<Rightarrow> EventKey \<Rightarrow> ('s, EventRecord option) prog" where
  "GetEvent X ctx key =
     readPoint X ctx (EventKey_Path key) (unmarshal_event X) ''decode event payload''
       (\<lambda>record. ValidateEventRecord (Some record) key)"

section \<open>Writes and deletes\<close>

definition PutActivity ::
  "('s, 'b, 'm) env_scheme \<Rightarrow> context \<Rightarrow> ActivityRecord \<Rightarrow> ('s, unit) prog" where
  "PutActivity X ctx record =
     andThen (ctx_Err X ctx) (\<lambda>_.
     let key = ActivityKeyFromProto (ar_Key record) in
     andThen (lift (ValidateActivityRecord (Some record) key)) (\<lambda>_.
     andThen (lift (ActivityKey_Path key)) (\<lambda>path.
     andThen (lift (ActivityKey_DirPath key)) (\<lambda>dir.
     andThen (lift (marshal_activity X record)) (\<lambda>data.
     andThen (op_CreateDir X dir) (\<lambda>_.
     andThen (ctx_Err X ctx) (\<lambda>_.
     op_Write X path data)))))))"

definition PutEvent ::
  "('s, 'b, 'm) env_scheme \<Rightarrow> context \<Rightarrow> EventRecord \<Rightarrow> ('s, unit) prog" where
  "PutEvent X ctx record =
     andThen (ctx_Err X ctx) (\<lambda>_.
     let key = EventKeyFromProto (er_Key record) in
     andThen (lift (ValidateEventRecord (Some record) key)) (\<lambda>_.
     andThen (lift (EventKey_Path key)) (\<lambda>path.
     andThen (lift (EventKey_DirPath key)) (\<lambda>dir.
     andThen (lift (marshal_event X record)) (\<lambda>data.
     andThen (op_CreateDir X dir) (\<lambda>_.
     andThen (ctx_Err X ctx) (\<lambda>_.
     op_Write X path data)))))))"

definition DeleteActivity ::
  "('s, 'b, 'm) env_scheme \<Rightarrow> context \<Rightarrow> ActivityKey \<Rightarrow> ('s, bool) prog" where
  "DeleteActivity X ctx key =
     andThen (ctx_Err X ctx) (\<lambda>_.
     andThen (lift (ActivityKey_Path key)) (\<lambda>path. deleteIfExists X path))"

definition DeleteEvent ::
  "('s, 'b, 'm) env_scheme \<Rightarrow> context \<Rightarrow> EventKey \<Rightarrow> ('s, bool) prog" where
  "DeleteEvent X ctx key =
     andThen (ctx_Err X ctx) (\<lambda>_.
     andThen (lift (EventKey_Path key)) (\<lambda>path. deleteIfExists X path))"

definition DeleteWorkflow ::
  "('s, 'b, 'm) env_scheme \<Rightarrow> context \<Rightarrow> WorkflowKey \<Rightarrow> ('s, bool) prog" where
  "DeleteWorkflow X ctx key =
     andThen (ctx_Err X ctx) (\<lambda>_.
     andThen (lift (WorkflowKey_Path key)) (\<lambda>path. deleteIfExists X path))"

text \<open>The Go OpenDAL binding has no conditional write, so event delivery is refused.\<close>

definition EventDeliveryCapability :: "('s, EventDeliveryCapability) prog" where
  "EventDeliveryCapability = ret EVENT_DELIVERY_CAPABILITY_NO_ATOMIC_CREATE"

definition OpenDAL_DeliverEvent ::
  "('s, 'b, 'm) env_scheme \<Rightarrow> context \<Rightarrow> EventRecord option \<Rightarrow> ('s, EventDeliveryDisposition) prog" where
  "OpenDAL_DeliverEvent X ctx record =
     andThen (ctx_Err X ctx) (\<lambda>_.
     let key = EventKeyFromProto (Option.bind record er_Key) in
     andThen (lift (ValidateEventDeliveryRecord X record key)) (\<lambda>_.
     fail (Sentinel ErrEventDeliveryUnsupported)))"

section \<open>Run listings\<close>

definition validateListedActivity :: "path \<Rightarrow> WorkflowKey \<Rightarrow> ActivityRecord \<Rightarrow> unit result" where
  "validateListedActivity path target record =
     (let key = ActivityKeyFromProto (ar_Key record) in
      case ValidateActivityRecord (Some record) key of
        Inl err \<Rightarrow> Inl (Wrapped ''at'' [err])
      | Inr _ \<Rightarrow>
          if \<not> sameWorkflowRun target (runKey key)
          then Inl (corruptRecordf ''activity payload key does not match listed workflow run'')
          else case ActivityKey_Path key of
            Inl err \<Rightarrow> Inl err
          | Inr expected \<Rightarrow>
              if expected \<noteq> path
              then Inl (corruptRecordf ''activity payload key does not match its storage location'')
              else Inr ())"

definition validateListedTimer :: "path \<Rightarrow> WorkflowKey \<Rightarrow> TimerRecord \<Rightarrow> unit result" where
  "validateListedTimer path target record =
     (let key = TimerKeyFromProto (tr_Key record) in
      case ValidateTimerRecord (Some record) key of
        Inl err \<Rightarrow> Inl (Wrapped ''at'' [err])
      | Inr _ \<Rightarrow>
          if \<not> sameWorkflowRun target (runKey key)
          then Inl (corruptRecordf ''timer payload key does not match listed workflow run'')
          else case TimerKey_Path key of
            Inl err \<Rightarrow> Inl err
          | Inr expected \<Rightarrow>
              if expected \<noteq> path
              then Inl (corruptRecordf ''timer payload key does not match its storage location'')
              else Inr ())"

definition validateListedEvent :: "path \<Rightarrow> WorkflowKey \<Rightarrow> EventRecord \<Rightarrow> unit result" where
  "validateListedEvent path target record =
     (let key = EventKeyFromProto (er_Key record) in
      case ValidateEventRecord (Some record) key of
        Inl err \<Rightarrow> Inl (Wrapped ''at'' [err])
      | Inr _ \<Rightarrow>
          if \<not> sameWorkflowRun target (runKey key)
          then Inl (corruptRecordf ''event payload key does not match listed workflow run'')
          else case EventKey_Path key of
            Inl err \<Rightarrow> Inl err
          | Inr expected \<Rightarrow>
              if expected \<noteq> path
              then Inl (corruptRecordf ''event payload key does not match its storage location'')
              else Inr ())"

text \<open>The loop over the listed paths that \<open>ListActivities\<close> and \<open>ListEvents\<close> share.\<close>

fun collectListed ::
  "('s, 'b, 'm) env_scheme \<Rightarrow> context \<Rightarrow> ('b \<Rightarrow> 'r option) \<Rightarrow> (path \<Rightarrow> 'r \<Rightarrow> unit result) \<Rightarrow>
   path list \<Rightarrow> 'r list \<Rightarrow> ('s, 'r list) prog" where
  "collectListed X ctx unmarshal validate [] records = ret records"
| "collectListed X ctx unmarshal validate (path # paths) records =
     (if \<not> HasSuffix path ''.binpb''
      then collectListed X ctx unmarshal validate paths records
      else andThen (readListedProto X ctx path unmarshal) (\<lambda>record.
           andThen (lift (validate path record)) (\<lambda>_.
           collectListed X ctx unmarshal validate paths (records @ [record]))))"

definition ListActivities ::
  "('s, 'b, 'm) env_scheme \<Rightarrow> context \<Rightarrow> WorkflowKey \<Rightarrow> ('s, ActivityRecord list) prog" where
  "ListActivities X ctx key =
     andThen (ctx_Err X ctx) (\<lambda>_.
     andThen (lift (ActivityKey_DirPath
       \<lparr>Namespace = Namespace key, WorkflowID = WorkflowID key, RunID = RunID key,
        ActivityID = ''placeholder''\<rparr>)) (\<lambda>dir.
     andThen (walkOpenDAL X ctx dir) (\<lambda>paths.
     collectListed X ctx (unmarshal_activity X)
       (\<lambda>path record. validateListedActivity path key record) paths [])))"

definition ListEvents ::
  "('s, 'b, 'm) env_scheme \<Rightarrow> context \<Rightarrow> WorkflowKey \<Rightarrow> ('s, EventRecord list) prog" where
  "ListEvents X ctx key =
     andThen (ctx_Err X ctx) (\<lambda>_.
     andThen (lift (EventKey_DirPath
       \<lparr>Namespace = Namespace key, WorkflowID = WorkflowID key, RunID = RunID key,
        EventID = ''placeholder''\<rparr>)) (\<lambda>dir.
     andThen (walkOpenDAL X ctx dir) (\<lambda>paths.
     collectListed X ctx (unmarshal_event X)
       (\<lambda>path record. validateListedEvent path key record) paths [])))"

section \<open>The record-store contract\<close>

text \<open>
  \<open>look\<close> is what the store holds, \<open>same\<close> when two keys name one record, and \<open>visible\<close> says
  which stored records a reader sees.
\<close>

locale record_store =
  fixes get :: "'k \<Rightarrow> ('s, 'r option) prog"
    and put :: "'r \<Rightarrow> ('s, unit) prog"
    and del :: "'k \<Rightarrow> ('s, bool) prog"
    and look :: "'s \<Rightarrow> 'k \<Rightarrow> 'r option"
    and key :: "'r \<Rightarrow> 'k"
    and same :: "'k \<Rightarrow> 'k \<Rightarrow> bool"
    and visible :: "'r \<Rightarrow> bool"
  assumes get_value: "get k s = (Inr v, s1) \<Longrightarrow> v = look s k"
    and get_keeps: "keeps look (get k)"
    and put_done: "put r s = (Inr u, s1) \<Longrightarrow>
          look s1 k = (if same k (key r) then if visible r then Some r else None else look s k)"
    and put_failed: "put r s = (Inl e, s1) \<Longrightarrow>
          look s1 = look s \<or>
          look s1 = (\<lambda>k. if same k (key r) then if visible r then Some r else None else look s k)"
    and del_done: "del k s = (Inr w, s1) \<Longrightarrow> look s1 k' = (if same k' k then None else look s k')"
    and del_failed: "del k s = (Inl e, s1) \<Longrightarrow>
          look s1 = look s \<or> look s1 = (\<lambda>k'. if same k' k then None else look s k')"
    and same_refl: "same k k"
begin

text \<open>Read your writes: a read after a successful write returns the record just written.\<close>

lemma get_after_put:
  assumes "put r s = (Inr u, s1)" and "visible r" and "get (key r) s1 = (Inr v, s2)"
  shows "v = Some r"
  using put_done [OF assms(1), of "key r"] get_value [OF assms(3)] assms(2) same_refl by simp

lemma get_other_after_put:
  assumes "put r s = (Inr u, s1)" and "\<not> same k (key r)" and "get k s1 = (Inr v, s2)"
  shows "v = look s k"
  using put_done [OF assms(1), of k] get_value [OF assms(3)] assms(2) by simp

lemma get_after_del:
  assumes "del k s = (Inr w, s1)" and "get k s1 = (Inr v, s2)"
  shows "v = None"
  using del_done [OF assms(1), of k] get_value [OF assms(2)] same_refl by simp

text \<open>Retrying a write whose outcome is unknown gives what one successful write gives.\<close>

lemma put_retry:
  assumes "put r s = (Inl e, s1)" and "put r s1 = (Inr u, s2)"
  shows "look s2 k = (if same k (key r) then if visible r then Some r else None else look s k)"
  using put_failed [OF assms(1)] put_done [OF assms(2), of k] by auto

lemma del_retry:
  assumes "del k s = (Inl e, s1)" and "del k s1 = (Inr w, s2)"
  shows "look s2 k' = (if same k' k then None else look s k')"
  using del_failed [OF assms(1)] del_done [OF assms(2), of k'] by auto

end

section \<open>What the bucket holds\<close>

text \<open>The record a point read sees: present, decodable and valid for the requested key.\<close>

definition point_at ::
  "(path \<Rightarrow> 'b option) \<Rightarrow> path result \<Rightarrow> ('b \<Rightarrow> 'r option) \<Rightarrow> ('r \<Rightarrow> unit result) \<Rightarrow> 'r option" where
  "point_at obs keyPath unmarshal validate =
     (case keyPath of
        Inl e \<Rightarrow> None
      | Inr p \<Rightarrow> (case obs p of
          None \<Rightarrow> None
        | Some b \<Rightarrow> (case unmarshal b of
            None \<Rightarrow> None
          | Some r \<Rightarrow> if validate r = Inr () then Some r else None)))"

definition activity_at ::
  "('b, 'm) codec_scheme \<Rightarrow> (path \<Rightarrow> 'b option) \<Rightarrow> ActivityKey \<Rightarrow> ActivityRecord option" where
  "activity_at X obs k = point_at obs (ActivityKey_Path k) (unmarshal_activity X)
     (\<lambda>r. ValidateActivityRecord (Some r) k)"

definition workflow_at ::
  "('b, 'm) codec_scheme \<Rightarrow> (path \<Rightarrow> 'b option) \<Rightarrow> WorkflowKey \<Rightarrow> WorkflowRecord option" where
  "workflow_at X obs k = point_at obs (WorkflowKey_Path k) (unmarshal_workflow X)
     (\<lambda>r. ValidateWorkflowRecord X (Some r) k)"

definition timer_at ::
  "('b, 'm) codec_scheme \<Rightarrow> (path \<Rightarrow> 'b option) \<Rightarrow> TimerKey \<Rightarrow> TimerRecord option" where
  "timer_at X obs k = point_at obs (TimerKey_Path k) (unmarshal_timer X)
     (\<lambda>r. ValidateTimerRecord (Some r) k)"

definition event_at ::
  "('b, 'm) codec_scheme \<Rightarrow> (path \<Rightarrow> 'b option) \<Rightarrow> EventKey \<Rightarrow> EventRecord option" where
  "event_at X obs k = point_at obs (EventKey_Path k) (unmarshal_event X)
     (\<lambda>r. ValidateEventRecord (Some r) k)"

lemmas point_views = activity_at_def workflow_at_def timer_at_def event_at_def

lemma point_at_Some:
  "point_at obs kp u v = Some r \<longleftrightarrow>
     (\<exists>p b. kp = Inr p \<and> obs p = Some b \<and> u b = Some r \<and> v r = Inr ())"
  by (auto simp: point_at_def split: sum.split option.split)

lemma point_at_write:
  "point_at (obs(p \<mapsto> b)) kp u v =
     (if kp = Inr p then case u b of None \<Rightarrow> None | Some r \<Rightarrow> if v r = Inr () then Some r else None
      else point_at obs kp u v)"
  by (auto simp: point_at_def split: sum.splits)

lemma point_at_delete:
  "point_at (obs(p := None)) kp u v = (if kp = Inr p then None else point_at obs kp u v)"
  by (auto simp: point_at_def split: sum.splits)

lemma point_at_cong:
  "(\<And>p. kp = Inr p \<Longrightarrow> obs p = obs' p) \<Longrightarrow> point_at obs kp u v = point_at obs' kp u v"
  by (auto simp: point_at_def split: sum.splits)

text \<open>Key paths as object paths.\<close>

lemma Path_object:
  "ActivityKey_Path a = object_path (ObjActivity a)"
  "WorkflowKey_Path w = object_path (ObjWorkflow w)"
  "TimerKey_Path t = object_path (ObjTimer t)"
  "EventKey_Path e = object_path (ObjEvent e)"
  "ClaimKey_Path c = object_path (ObjClaim c)"
  "dueEntryPath t = object_path (ObjDue t)"
  "latestWorkflowRunPointerPath n i = object_path (ObjLatest n i)"
  by simp_all

lemma Path_eq_iff:
  "ActivityKey_Path a = Inr p \<Longrightarrow> ActivityKey_Path a' = Inr p \<longleftrightarrow> withDefaults a' = withDefaults a"
  "WorkflowKey_Path w = Inr p \<Longrightarrow> WorkflowKey_Path w' = Inr p \<longleftrightarrow> withDefaults w' = withDefaults w"
  "TimerKey_Path t = Inr p \<Longrightarrow> TimerKey_Path t' = Inr p \<longleftrightarrow> withDefaults t' = withDefaults t"
  "EventKey_Path e = Inr p \<Longrightarrow> EventKey_Path e' = Inr p \<longleftrightarrow> withDefaults e' = withDefaults e"
  "dueEntryPath t = Inr p \<Longrightarrow> dueEntryPath t' = Inr p \<longleftrightarrow> withDefaults t' = withDefaults t"
  using object_path_eq_iff [of "ObjActivity a" p "ObjActivity a'"]
    object_path_eq_iff [of "ObjWorkflow w" p "ObjWorkflow w'"]
    object_path_eq_iff [of "ObjTimer t" p "ObjTimer t'"]
    object_path_eq_iff [of "ObjEvent e" p "ObjEvent e'"]
    object_path_eq_iff [of "ObjDue t" p "ObjDue t'"]
  by simp_all

lemma Path_file:
  "ActivityKey_Path a = Inr p \<Longrightarrow> file_path p"
  "WorkflowKey_Path w = Inr p \<Longrightarrow> file_path p"
  "TimerKey_Path t = Inr p \<Longrightarrow> file_path p"
  "EventKey_Path e = Inr p \<Longrightarrow> file_path p"
  "dueEntryPath t = Inr p \<Longrightarrow> file_path p"
  "latestWorkflowRunPointerPath n i = Inr p \<Longrightarrow> file_path p"
  unfolding Path_object by (rule file_pathI, erule object_path_binpb)+

lemma object_path_distinct:
  "canonical x \<noteq> canonical y \<Longrightarrow> object_path x = Inr p \<Longrightarrow> object_path y \<noteq> Inr p"
  using object_path_inj by blast

lemma view_deleted:
  "ActivityKey_Path a = Inr p \<Longrightarrow> activity_at X (obs(p := None)) =
     (\<lambda>k. if withDefaults k = withDefaults a then None else activity_at X obs k)"
  "WorkflowKey_Path w = Inr p \<Longrightarrow> workflow_at X (obs(p := None)) =
     (\<lambda>k. if withDefaults k = withDefaults w then None else workflow_at X obs k)"
  "TimerKey_Path t = Inr p \<Longrightarrow> timer_at X (obs(p := None)) =
     (\<lambda>k. if withDefaults k = withDefaults t then None else timer_at X obs k)"
  "EventKey_Path e = Inr p \<Longrightarrow> event_at X (obs(p := None)) =
     (\<lambda>k. if withDefaults k = withDefaults e then None else event_at X obs k)"
  using Path_eq_iff(1) [of a p] Path_eq_iff(2) [of w p] Path_eq_iff(3) [of t p] Path_eq_iff(4) [of e p]
  by (simp_all add: point_views point_at_delete fun_eq_iff)

text \<open>A view depends on the objects of its own kind only.\<close>

lemma point_at_other: "kp \<noteq> Inr p \<Longrightarrow> point_at (obs(p := x)) kp u v = point_at obs kp u v"
  by (rule point_at_cong) auto

lemma view_frame:
  assumes "object_path y = Inr p"
  shows "(\<And>k. y \<noteq> ObjActivity k) \<Longrightarrow> activity_at X (obs(p := x)) = activity_at X obs"
    and "(\<And>k. y \<noteq> ObjWorkflow k) \<Longrightarrow> workflow_at X (obs(p := x)) = workflow_at X obs"
    and "(\<And>k. y \<noteq> ObjTimer k) \<Longrightarrow> timer_at X (obs(p := x)) = timer_at X obs"
    and "(\<And>k. y \<noteq> ObjEvent k) \<Longrightarrow> event_at X (obs(p := x)) = event_at X obs"
proof -
  have "canonical (ObjActivity k) \<noteq> canonical y" if "\<And>k. y \<noteq> ObjActivity k" for k using that by (cases y) auto
  then show "activity_at X (obs(p := x)) = activity_at X obs" if "\<And>k. y \<noteq> ObjActivity k"
    using that object_path_distinct [OF _ assms] unfolding activity_at_def Path_object
    by (intro ext point_at_other) metis
  have "canonical (ObjWorkflow k) \<noteq> canonical y" if "\<And>k. y \<noteq> ObjWorkflow k" for k using that by (cases y) auto
  then show "workflow_at X (obs(p := x)) = workflow_at X obs" if "\<And>k. y \<noteq> ObjWorkflow k"
    using that object_path_distinct [OF _ assms] unfolding workflow_at_def Path_object
    by (intro ext point_at_other) metis
  have "canonical (ObjTimer k) \<noteq> canonical y" if "\<And>k. y \<noteq> ObjTimer k" for k using that by (cases y) auto
  then show "timer_at X (obs(p := x)) = timer_at X obs" if "\<And>k. y \<noteq> ObjTimer k"
    using that object_path_distinct [OF _ assms] unfolding timer_at_def Path_object
    by (intro ext point_at_other) metis
  have "canonical (ObjEvent k) \<noteq> canonical y" if "\<And>k. y \<noteq> ObjEvent k" for k using that by (cases y) auto
  then show "event_at X (obs(p := x)) = event_at X obs" if "\<And>k. y \<noteq> ObjEvent k"
    using that object_path_distinct [OF _ assms] unfolding event_at_def Path_object
    by (intro ext point_at_other) metis
qed

section \<open>The operations against the contract\<close>

context opendal_laws
begin

lemma readPoint_spec:
  assumes "\<And>p. kp = Inr p \<Longrightarrow> file_path p"
  shows "wpre (readPoint X c kp u m v)
    (\<lambda>r s1. objs s1 = objs s \<and> dirs s1 = dirs s \<and> r = point_at (objs s) kp u v \<and>
       (\<forall>p. kp = Inr p \<longrightarrow> r = None \<longrightarrow> objs s p = None))
    (\<lambda>e s1. objs s1 = objs s \<and> dirs s1 = dirs s) s"
  unfolding readPoint_def
  using assms
  by (auto simp: wp point_at_def intro!: wp_ctx wp_exist wp_read split: sum.splits option.splits)

lemma readPoint_corrupt:
  assumes "\<And>p. kp = Inr p \<Longrightarrow> file_path p"
  shows "wpre (readPoint X c kp u m v) (\<lambda>_ _. True)
    (\<lambda>e _. errors_Is e ErrCorruptRecord \<longrightarrow> point_at (objs s) kp u v = None) s"
  unfolding readPoint_def
  using assms
  by (auto simp: wp point_at_def intro!: wp_ctx wp_exist wp_read split: sum.splits option.splits)

lemma GetActivity_spec:
  "wpre (GetActivity X c k)
    (\<lambda>r s1. objs s1 = objs s \<and> dirs s1 = dirs s \<and> r = activity_at X (objs s) k \<and>
       (\<forall>p. ActivityKey_Path k = Inr p \<longrightarrow> r = None \<longrightarrow> objs s p = None))
    (\<lambda>e s1. objs s1 = objs s \<and> dirs s1 = dirs s) s"
  unfolding GetActivity_def activity_at_def by (rule readPoint_spec [OF Path_file(1)])

lemma GetWorkflow_spec:
  "wpre (GetWorkflow X c k)
    (\<lambda>r s1. objs s1 = objs s \<and> dirs s1 = dirs s \<and> r = workflow_at X (objs s) k \<and>
       (\<forall>p. WorkflowKey_Path k = Inr p \<longrightarrow> r = None \<longrightarrow> objs s p = None))
    (\<lambda>e s1. objs s1 = objs s \<and> dirs s1 = dirs s) s"
  unfolding GetWorkflow_def workflow_at_def by (rule readPoint_spec [OF Path_file(2)])

lemma getTimerPoint_spec:
  "wpre (getTimerPoint X c k)
    (\<lambda>r s1. objs s1 = objs s \<and> dirs s1 = dirs s \<and> r = timer_at X (objs s) k \<and>
       (\<forall>p. TimerKey_Path k = Inr p \<longrightarrow> r = None \<longrightarrow> objs s p = None))
    (\<lambda>e s1. objs s1 = objs s \<and> dirs s1 = dirs s) s"
  unfolding getTimerPoint_def timer_at_def by (rule readPoint_spec [OF Path_file(3)])

lemma GetEvent_spec:
  "wpre (GetEvent X c k)
    (\<lambda>r s1. objs s1 = objs s \<and> dirs s1 = dirs s \<and> r = event_at X (objs s) k \<and>
       (\<forall>p. EventKey_Path k = Inr p \<longrightarrow> r = None \<longrightarrow> objs s p = None))
    (\<lambda>e s1. objs s1 = objs s \<and> dirs s1 = dirs s) s"
  unfolding GetEvent_def event_at_def by (rule readPoint_spec [OF Path_file(4)])

lemma keeps_from_wpre:
  assumes "\<And>s. wpre m (\<lambda>v s1. objs s1 = objs s \<and> P s v s1) (\<lambda>e s1. objs s1 = objs s \<and> R s e s1) s"
  shows "keeps (\<lambda>s. f (objs s)) m"
proof (rule keepsI)
  fix s r s1 assume "m s = (r, s1)"
  then show "f (objs s1) = f (objs s)"
    using assms [of s] by (cases r) (auto simp: wpre_def)
qed

text \<open>The effect of a successful write, and what a failed one may have done.\<close>

definition activity_write :: "ActivityRecord \<Rightarrow> 's \<Rightarrow> 's \<Rightarrow> bool" where
  "activity_write r s s1 \<longleftrightarrow> (\<exists>p b. ActivityKey_Path (ActivityKeyFromProto (ar_Key r)) = Inr p \<and>
     marshal_activity X r = Inr b \<and>
     ValidateActivityRecord (Some r) (ActivityKeyFromProto (ar_Key r)) = Inr () \<and>
     objs s1 = (objs s)(p \<mapsto> b))"

definition event_write :: "EventRecord \<Rightarrow> 's \<Rightarrow> 's \<Rightarrow> bool" where
  "event_write r s s1 \<longleftrightarrow> (\<exists>p b. EventKey_Path (EventKeyFromProto (er_Key r)) = Inr p \<and>
     marshal_event X r = Inr b \<and>
     ValidateEventRecord (Some r) (EventKeyFromProto (er_Key r)) = Inr () \<and>
     objs s1 = (objs s)(p \<mapsto> b))"

lemma PutActivity_spec:
  "wpre (PutActivity X c r) (\<lambda>_ s1. activity_write r s s1)
     (\<lambda>e s1. objs s1 = objs s \<or> activity_write r s s1) s"
  unfolding PutActivity_def activity_write_def
  by (auto simp: wp Let_def intro!: ops Path_file(1) split: sum.splits)

lemma PutEvent_spec:
  "wpre (PutEvent X c r) (\<lambda>_ s1. event_write r s s1)
     (\<lambda>e s1. objs s1 = objs s \<or> event_write r s s1) s"
  unfolding PutEvent_def event_write_def
  by (auto simp: wp Let_def intro!: ops Path_file(4) split: sum.splits)

lemma activity_at_written:
  assumes "activity_write r s s1"
  shows "activity_at X (objs s1) =
    (\<lambda>k. if withDefaults k = withDefaults (ActivityKeyFromProto (ar_Key r)) then Some r
     else activity_at X (objs s) k)"
proof (rule ext)
  show "activity_at X (objs s1) k = (if withDefaults k = withDefaults (ActivityKeyFromProto (ar_Key r))
      then Some r else activity_at X (objs s) k)" for k
  using assms Path_eq_iff(1) activity_roundtrip
  by (fastforce simp: activity_write_def activity_at_def point_at_write ValidateActivityRecord_ok)
qed

lemma event_at_written:
  assumes "event_write r s s1"
  shows "event_at X (objs s1) =
    (\<lambda>k. if withDefaults k = withDefaults (EventKeyFromProto (er_Key r)) then Some r
     else event_at X (objs s) k)"
proof (rule ext)
  show "event_at X (objs s1) k = (if withDefaults k = withDefaults (EventKeyFromProto (er_Key r))
      then Some r else event_at X (objs s) k)" for k
  using assms Path_eq_iff(4) event_roundtrip
  by (fastforce simp: event_write_def event_at_def point_at_write ValidateEventRecord_ok)
qed

lemma delete_point_spec:
  assumes "\<And>p. kp = Inr p \<Longrightarrow> file_path p"
  shows "wpre (andThen (ctx_Err X c) (\<lambda>_. andThen (lift kp) (deleteIfExists X)))
    (\<lambda>v s1. \<exists>p. kp = Inr p \<and> objs s1 = (objs s)(p := None) \<and> v = (objs s p \<noteq> None))
    (\<lambda>e s1. objs s1 = objs s \<or> (\<exists>p. kp = Inr p \<and> objs s1 = (objs s)(p := None))) s"
  using assms by (auto simp: wp intro!: wp_ctx wp_deleteIfExists split: sum.splits)

lemma DeleteActivity_spec:
  "wpre (DeleteActivity X c k)
    (\<lambda>v s1. \<exists>p. ActivityKey_Path k = Inr p \<and> objs s1 = (objs s)(p := None) \<and> v = (objs s p \<noteq> None))
    (\<lambda>e s1. objs s1 = objs s \<or> (\<exists>p. ActivityKey_Path k = Inr p \<and> objs s1 = (objs s)(p := None))) s"
  unfolding DeleteActivity_def by (rule delete_point_spec) (rule Path_file(1))

lemma DeleteWorkflow_spec:
  "wpre (DeleteWorkflow X c k)
    (\<lambda>v s1. \<exists>p. WorkflowKey_Path k = Inr p \<and> objs s1 = (objs s)(p := None) \<and> v = (objs s p \<noteq> None))
    (\<lambda>e s1. objs s1 = objs s \<or> (\<exists>p. WorkflowKey_Path k = Inr p \<and> objs s1 = (objs s)(p := None))) s"
  unfolding DeleteWorkflow_def by (rule delete_point_spec) (rule Path_file(2))

lemma DeleteEvent_spec:
  "wpre (DeleteEvent X c k)
    (\<lambda>v s1. \<exists>p. EventKey_Path k = Inr p \<and> objs s1 = (objs s)(p := None) \<and> v = (objs s p \<noteq> None))
    (\<lambda>e s1. objs s1 = objs s \<or> (\<exists>p. EventKey_Path k = Inr p \<and> objs s1 = (objs s)(p := None))) s"
  unfolding DeleteEvent_def by (rule delete_point_spec) (rule Path_file(4))

end

sublocale opendal_laws \<subseteq> activities: record_store "GetActivity X c" "PutActivity X c"
  "DeleteActivity X c" "\<lambda>s. activity_at X (objs s)" "\<lambda>r. ActivityKeyFromProto (ar_Key r)"
  "\<lambda>k k'. withDefaults k = withDefaults k'" "\<lambda>_. True" for c
proof (unfold_locales, goal_cases)
  case (1 k s v s1)
  then show ?case using wpre_InrD [OF GetActivity_spec] by blast
next
  case (2 k)
  show ?case by (rule keeps_from_wpre, rule GetActivity_spec)
next
  case (3 r s u s1 k)
  then show ?case using activity_at_written [OF wpre_InrD [OF PutActivity_spec 3]] by simp
next
  case (4 r s e s1)
  then show ?case
    using wpre_InlD [OF PutActivity_spec 4] activity_at_written [of r s s1] by auto
next
  case (5 k s w s1 k')
  then show ?case
    using wpre_InrD [OF DeleteActivity_spec 5] by (auto simp: view_deleted(1))
next
  case (6 k s e s1)
  then show ?case
    using wpre_InlD [OF DeleteActivity_spec 6] by (auto simp: view_deleted(1))
qed simp

sublocale opendal_laws \<subseteq> events: record_store "GetEvent X c" "PutEvent X c"
  "DeleteEvent X c" "\<lambda>s. event_at X (objs s)" "\<lambda>r. EventKeyFromProto (er_Key r)"
  "\<lambda>k k'. withDefaults k = withDefaults k'" "\<lambda>_. True" for c
proof (unfold_locales, goal_cases)
  case (1 k s v s1)
  then show ?case using wpre_InrD [OF GetEvent_spec] by blast
next
  case (2 k)
  show ?case by (rule keeps_from_wpre, rule GetEvent_spec)
next
  case (3 r s u s1 k)
  then show ?case using event_at_written [OF wpre_InrD [OF PutEvent_spec 3]] by simp
next
  case (4 r s e s1)
  then show ?case
    using wpre_InlD [OF PutEvent_spec 4] event_at_written [of r s s1] by auto
next
  case (5 k s w s1 k')
  then show ?case
    using wpre_InrD [OF DeleteEvent_spec 5] by (auto simp: view_deleted(4))
next
  case (6 k s e s1)
  then show ?case
    using wpre_InlD [OF DeleteEvent_spec 6] by (auto simp: view_deleted(4))
qed simp

section \<open>Listings\<close>

text \<open>How a listed record relates to the object at its path.\<close>

definition listed :: "(path \<Rightarrow> 'b option) \<Rightarrow> ('b \<Rightarrow> 'r option) \<Rightarrow> (path \<Rightarrow> 'r \<Rightarrow> unit result) \<Rightarrow>
    path \<Rightarrow> 'r \<Rightarrow> bool" where
  "listed obs u v p r \<longleftrightarrow> (\<exists>b. obs p = Some b \<and> u b = Some r \<and> v p r = Inr ())"

lemma listedI: "obs p = Some b \<Longrightarrow> u b = Some r \<Longrightarrow> v p r = Inr () \<Longrightarrow> listed obs u v p r"
  by (auto simp: listed_def)

lemma listed_set:
  assumes l: "list_all2 (listed obs u v) ps rs" and ps: "set ps = records_below obs dir"
    and sound: "\<And>p r. v p r = Inr () \<Longrightarrow> kp (key r) = Inr p \<and> val r (key r) = Inr () \<and> inrun (key r)"
    and complete: "\<And>k p. inrun k \<Longrightarrow> kp k = Inr p \<Longrightarrow> prefix dir p \<and> suffix ''.binpb'' p"
  shows "set rs = {r. \<exists>k. inrun k \<and> point_at obs (kp k) u (\<lambda>r. val r k) = Some r}" (is "_ = ?R")
proof (intro set_eqI iffI)
  fix r assume "r \<in> set rs"
  then obtain p where "listed obs u v p r"
    using l by (metis in_set_conv_nth list_all2_conv_all_nth)
  then show "r \<in> ?R"
    using sound by (auto simp: listed_def point_at_def intro!: exI [of _ "key r"])
next
  fix r assume "r \<in> ?R"
  then obtain k p b where k: "inrun k" "kp k = Inr p" "obs p = Some b" "u b = Some r"
    by (auto simp: point_at_Some)
  then have "p \<in> set ps" using complete [OF k(1,2)] ps by (auto simp: records_below_def)
  then obtain r' where "r' \<in> set rs" "listed obs u v p r'"
    using l by (metis in_set_conv_nth list_all2_conv_all_nth)
  with k show "r \<in> set rs" by (simp add: listed_def)
qed

lemma validateListedActivity_ok:
  "validateListedActivity p target r = Inr () \<Longrightarrow>
     ActivityKey_Path (ActivityKeyFromProto (ar_Key r)) = Inr p \<and>
     ValidateActivityRecord (Some r) (ActivityKeyFromProto (ar_Key r)) = Inr () \<and>
     runKey (withDefaults (ActivityKeyFromProto (ar_Key r))) = withDefaults target"
  by (auto simp: validateListedActivity_def Let_def sameWorkflowRun_iff runKey_withDefaults
      split: sum.splits if_splits)

lemma validateListedEvent_ok:
  "validateListedEvent p target r = Inr () \<Longrightarrow>
     EventKey_Path (EventKeyFromProto (er_Key r)) = Inr p \<and>
     ValidateEventRecord (Some r) (EventKeyFromProto (er_Key r)) = Inr () \<and>
     runKey (withDefaults (EventKeyFromProto (er_Key r))) = withDefaults target"
  by (auto simp: validateListedEvent_def Let_def sameWorkflowRun_iff runKey_withDefaults
      split: sum.splits if_splits)

lemma validateListedTimer_ok:
  "validateListedTimer p target r = Inr () \<Longrightarrow>
     TimerKey_Path (TimerKeyFromProto (tr_Key r)) = Inr p \<and>
     ValidateTimerRecord (Some r) (TimerKeyFromProto (tr_Key r)) = Inr () \<and>
     runKey (withDefaults (TimerKeyFromProto (tr_Key r))) = withDefaults target"
  by (auto simp: validateListedTimer_def Let_def sameWorkflowRun_iff runKey_withDefaults
      split: sum.splits if_splits)

text \<open>The kind directories of a run, and the paths below them.\<close>

lemma kind_DirPath:
  "ActivityKey_DirPath a = Inr d \<Longrightarrow>
     d = runPrefix (Namespace (withDefaults a)) (WorkflowID a) (RunID a) @ ''/activity/''"
  "TimerKey_DirPath t = Inr d \<Longrightarrow>
     d = runPrefix (Namespace (withDefaults t)) (WorkflowID t) (RunID t) @ ''/timer/''"
  "EventKey_DirPath e = Inr d \<Longrightarrow>
     d = runPrefix (Namespace (withDefaults e)) (WorkflowID e) (RunID e) @ ''/event/''"
  by (auto simp: ActivityKey_DirPath_def TimerKey_DirPath_def EventKey_DirPath_def key_Validates
      Let_def split: if_splits)

lemma kind_DirPath_dir:
  "ActivityKey_DirPath a = Inr d \<Longrightarrow> dir_path d" "TimerKey_DirPath t = Inr d \<Longrightarrow> dir_path d"
  "EventKey_DirPath e = Inr d \<Longrightarrow> dir_path d"
  by (auto dest!: kind_DirPath simp: dir_path_def)

lemma kind_Path_below:
  "ActivityKey_Path a = Inr p \<Longrightarrow> prefix (runPrefix (Namespace (withDefaults a)) (WorkflowID a) (RunID a) @ ''/activity/'') p"
  "TimerKey_Path t = Inr p \<Longrightarrow> prefix (runPrefix (Namespace (withDefaults t)) (WorkflowID t) (RunID t) @ ''/timer/'') p"
  "EventKey_Path e = Inr p \<Longrightarrow> prefix (runPrefix (Namespace (withDefaults e)) (WorkflowID e) (RunID e) @ ''/event/'') p"
  by (auto simp: key_paths key_Validates Let_def split: if_splits)

lemma runKey_eqD:
  assumes "runKey (withDefaults a) = withDefaults (k :: WorkflowKey)"
  shows "Namespace (withDefaults a) = Namespace (withDefaults k)" "WorkflowID a = WorkflowID k" "RunID a = RunID k"
  using assms by (simp_all add: runKey_eq_iff)

context opendal_laws
begin

lemma collectListed_spec:
  assumes "\<And>p. p \<in> set paths \<Longrightarrow> suffix ''.binpb'' p"
  shows "wpre (collectListed X c u v paths acc)
    (\<lambda>rs s1. objs s1 = objs s \<and> dirs s1 = dirs s \<and>
       (\<exists>ys. rs = acc @ ys \<and> list_all2 (listed (objs s) u v) paths ys))
    (\<lambda>e s1. objs s1 = objs s \<and> dirs s1 = dirs s) s"
  using assms
proof (induction paths arbitrary: acc s)
  case (Cons p ps)
  have IH: "wpre (collectListed X c u v ps (acc @ [r]))
    (\<lambda>rs s1. objs s1 = objs s \<and> dirs s1 = dirs s \<and>
       (\<exists>ys. rs = acc @ ys \<and> list_all2 (listed (objs s) u v) (p # ps) ys))
    (\<lambda>e s1. objs s1 = objs s \<and> dirs s1 = dirs s) s1"
    if "objs s1 = objs s" "dirs s1 = dirs s" "listed (objs s) u v p r" for r s1
    by (rule wpre_mono [OF Cons.IH]) (use that Cons.prems in \<open>auto simp: list_all2_Cons1\<close>)
  then show ?case
    using Cons.prems
    by (auto simp: wp HasSuffix_def intro!: wp_readListed IH intro: listedI split: sum.splits)
qed (simp add: wp)

text \<open>A listing of a run returns its records in path order, every one of them.\<close>

lemma list_run_spec:
  assumes "\<And>d. dp = Inr d \<Longrightarrow> dir_path d"
  shows "wpre (andThen (ctx_Err X c) (\<lambda>_. andThen (lift dp) (\<lambda>d.
       andThen (walkOpenDAL X c d) (\<lambda>paths. collectListed X c u v paths []))))
    (\<lambda>rs s1. objs s1 = objs s \<and> (\<exists>d. dp = Inr d \<and>
       list_all2 (listed (objs s) u v) (sorted_list_of_set (records_below (objs s) d)) rs))
    (\<lambda>e s1. objs s1 = objs s) s"
proof -
  have "wpre (andThen (walkOpenDAL X c d) (\<lambda>paths. collectListed X c u v paths []))
      (\<lambda>rs s1. objs s1 = objs s \<and>
         list_all2 (listed (objs s) u v) (sorted_list_of_set (records_below (objs s) d)) rs)
      (\<lambda>e s1. objs s1 = objs s) s1"
    if s1: "objs s1 = objs s" "dirs s1 = dirs s" and d: "dp = Inr d" for s1 d
  proof -
    have bin: "suffix ''.binpb'' p" if "p \<in> records_below (objs s) d" for p
      using that by (simp add: records_below_def)
    show ?thesis
      unfolding wpre_andThen
    proof (rule wpre_mono [OF walk_done [OF assms [OF d], of c s1]], goal_cases)
      case (1 paths s2)
      then have "wpre (collectListed X c u v paths [])
        (\<lambda>rs s1. objs s1 = objs s2 \<and> dirs s1 = dirs s2 \<and>
           (\<exists>ys. rs = [] @ ys \<and> list_all2 (listed (objs s2) u v) paths ys))
        (\<lambda>e s1. objs s1 = objs s2 \<and> dirs s1 = dirs s2) s2"
        using bin s1 by (intro collectListed_spec) simp
      with 1 s1 show ?case by (auto elim!: wpre_mono)
    qed (use s1 in simp)
  qed
  then show ?thesis
    by (auto simp: wpre_andThen wpre_lift intro!: wp_ctx split: sum.splits)
qed

lemma ListActivities_spec:
  "wpre (ListActivities X c k)
    (\<lambda>rs s1. objs s1 = objs s \<and>
       set rs = {r. \<exists>a. runKey (withDefaults a) = withDefaults k \<and> activity_at X (objs s) a = Some r} \<and>
       (\<exists>ps. sorted ps \<and> distinct ps \<and>
          map (\<lambda>r. ActivityKey_Path (ActivityKeyFromProto (ar_Key r))) rs = map Inr ps))
    (\<lambda>e s1. objs s1 = objs s) s"
  unfolding ListActivities_def
proof (rule wpre_mono [OF list_run_spec [OF kind_DirPath_dir(1)]], assumption, goal_cases)
  case (1 rs s1)
  then obtain d where d: "ActivityKey_DirPath \<lparr>Namespace = Namespace k, WorkflowID = WorkflowID k,
        RunID = RunID k, ActivityID = ''placeholder''\<rparr> = Inr d"
    and l: "list_all2 (listed (objs s) (unmarshal_activity X) (\<lambda>p. validateListedActivity p k))
        (sorted_list_of_set (records_below (objs s) d)) rs"
    by auto
  have below: "prefix d p" if "runKey (withDefaults a) = withDefaults k" "ActivityKey_Path a = Inr p" for a p
    using kind_Path_below(1) [OF that(2)] kind_DirPath(1) [OF d] runKey_eqD [OF that(1)]
    by (cases "Namespace k = []") (simp_all add: Namespace_withDefaults)
  have "set rs = {r. \<exists>a. runKey (withDefaults a) = withDefaults k \<and> activity_at X (objs s) a = Some r}"
    unfolding activity_at_def
    by (rule listed_set [OF l, where key = "\<lambda>r. ActivityKeyFromProto (ar_Key r)"])
       (auto dest: validateListedActivity_ok simp: below Path_object(1) intro: object_path_binpb simp del: object_path.simps)
  moreover have "map (\<lambda>r. ActivityKey_Path (ActivityKeyFromProto (ar_Key r))) rs =
      map Inr (sorted_list_of_set (records_below (objs s) d))"
    using l by (induction rule: list_all2_induct) (auto simp: listed_def dest: validateListedActivity_ok)
  ultimately show ?case
    using 1 by (auto intro!: exI [of _ "sorted_list_of_set (records_below (objs s) d)"])
qed

lemma ListEvents_spec:
  "wpre (ListEvents X c k)
    (\<lambda>rs s1. objs s1 = objs s \<and>
       set rs = {r. \<exists>a. runKey (withDefaults a) = withDefaults k \<and> event_at X (objs s) a = Some r} \<and>
       (\<exists>ps. sorted ps \<and> distinct ps \<and>
          map (\<lambda>r. EventKey_Path (EventKeyFromProto (er_Key r))) rs = map Inr ps))
    (\<lambda>e s1. objs s1 = objs s) s"
  unfolding ListEvents_def
proof (rule wpre_mono [OF list_run_spec [OF kind_DirPath_dir(3)]], assumption, goal_cases)
  case (1 rs s1)
  then obtain d where d: "EventKey_DirPath \<lparr>Namespace = Namespace k, WorkflowID = WorkflowID k,
        RunID = RunID k, EventID = ''placeholder''\<rparr> = Inr d"
    and l: "list_all2 (listed (objs s) (unmarshal_event X) (\<lambda>p. validateListedEvent p k))
        (sorted_list_of_set (records_below (objs s) d)) rs"
    by auto
  have below: "prefix d p" if "runKey (withDefaults a) = withDefaults k" "EventKey_Path a = Inr p" for a p
    using kind_Path_below(3) [OF that(2)] kind_DirPath(3) [OF d] runKey_eqD [OF that(1)]
    by (cases "Namespace k = []") (simp_all add: Namespace_withDefaults)
  have "set rs = {r. \<exists>a. runKey (withDefaults a) = withDefaults k \<and> event_at X (objs s) a = Some r}"
    unfolding event_at_def
    by (rule listed_set [OF l, where key = "\<lambda>r. EventKeyFromProto (er_Key r)"])
       (auto dest: validateListedEvent_ok simp: below Path_object(4) intro: object_path_binpb simp del: object_path.simps)
  moreover have "map (\<lambda>r. EventKey_Path (EventKeyFromProto (er_Key r))) rs =
      map Inr (sorted_list_of_set (records_below (objs s) d))"
    using l by (induction rule: list_all2_induct) (auto simp: listed_def dest: validateListedEvent_ok)
  ultimately show ?case
    using 1 by (auto intro!: exI [of _ "sorted_list_of_set (records_below (objs s) d)"])
qed

end

section \<open>Properties of the record stores\<close>

context opendal_laws
begin

lemma write_get_activity:
  assumes "PutActivity X ctx r s = (res, s1)" and "GetActivity X ctx' k s1 = (Inr v, s2)"
  shows "v = (if withDefaults k = withDefaults (ActivityKeyFromProto (ar_Key r)) then Some r
      else activity_at X (objs s) k) \<or> isl res \<and> v = activity_at X (objs s) k"
  using assms activities.get_value [OF assms(2)]
    activities.put_done [of ctx r s "()" s1 k] activities.put_failed [of ctx r s "projl res" s1]
  by (cases res) auto

lemma write_activity_frame:
  assumes "PutActivity X ctx r s = (res, s1)" and "object_path x = Inr q"
    and "canonical x \<noteq> canonical (ObjActivity (ActivityKeyFromProto (ar_Key r)))"
  shows "objs s1 q = objs s q"
proof -
  have "objs s1 = objs s \<or> activity_write r s s1"
    using PutActivity_spec [of ctx r s] assms(1) by (cases res) (auto simp: wpre_def)
  moreover have "ActivityKey_Path (ActivityKeyFromProto (ar_Key r)) \<noteq> Inr q"
    using object_path_distinct [OF assms(3,2)] by simp
  ultimately show ?thesis by (auto simp: activity_write_def)
qed

end

text \<open>
  C4. Activity records are stored atomically and independently. Whatever \<open>PutActivity\<close>
  returned, a later successful \<open>GetActivity\<close> of any key sees either the record just written
  (for that record's key) and the old contents (for every other key), or, only when the write
  reported an error, the old contents throughout. No object of another record kind, no other
  activity, pointer or ledger entry is touched either way.
\<close>

theorem put_get_activity:
  assumes "opendal_laws X objs dirs"
    and "PutActivity X ctx r s = (res, s1)" and "GetActivity X ctx' k s1 = (Inr v, s2)"
  shows "(v = (if withDefaults k = withDefaults (ActivityKeyFromProto (ar_Key r)) then Some r
               else activity_at X (objs s) k) \<or> isl res \<and> v = activity_at X (objs s) k) \<and>
         (\<forall>x q. object_path x = Inr q \<longrightarrow>
            canonical x \<noteq> canonical (ObjActivity (ActivityKeyFromProto (ar_Key r))) \<longrightarrow>
            objs s1 q = objs s q)"
  using opendal_laws.write_get_activity [OF assms] opendal_laws.write_activity_frame [OF assms(1,2)]
  by blast

definition empty_memory :: memory where
  "empty_memory = \<lparr>mem_objs = [], mem_clock = 0, mem_budget = None, mem_cancelled = False\<rparr>"

definition activity_example :: ActivityRecord where
  "activity_example = \<lparr>ar_SchemaVersion = RECORD_SCHEMA_VERSION_ACTIVITY,
     ar_Key = Some (NewActivityKey ''orders'' ''r1'' ''charge''), ar_ActivityType = ''Charge'',
     ar_Input = None, ar_Status = ACTIVITY_STATUS_COMPLETED, ar_Result = None, ar_Failure = None,
     ar_CreatedAt = None, ar_CompletedAt = None, ar_Attempts = [], ar_Annotations = Map.empty,
     ar_NextAttemptAt = None, ar_RetryPolicy = None, ar_RetryTimerId = []\<rparr>"

theorem put_get_activity_witness:
  "fst (GetActivity mem_env Caller \<lparr>Namespace = [], WorkflowID = ''orders'', RunID = ''r1'', ActivityID = ''charge''\<rparr>
     (snd (PutActivity mem_env Caller activity_example empty_memory))) = Inr (Some activity_example)"
proof -
  define k where "k = \<lparr>Namespace = [], WorkflowID = ''orders'', RunID = ''r1'', ActivityID = ''charge''\<rparr>"
  define s1 where "s1 = snd (PutActivity mem_env Caller activity_example empty_memory)"
  have p: "\<not> isl (fst (PutActivity mem_env Caller activity_example empty_memory))"
    and g: "\<not> isl (fst (GetActivity mem_env Caller k s1))"
    and k: "withDefaults k = withDefaults (ActivityKeyFromProto (ar_Key activity_example))"
    unfolding k_def s1_def by code_simp+
  from put_get_activity [OF mem.opendal_laws_axioms run_Inr [OF p] run_Inr [OF g, unfolded s1_def]]
  have "projr (fst (GetActivity mem_env Caller k s1)) = Some activity_example"
    using k by (simp add: s1_def)
  then show ?thesis using run_Inr [OF g] unfolding k_def s1_def by (metis fst_conv)
qed

text \<open>
  C5. A run listing is exact. When \<open>ListActivities\<close> succeeds, it returns precisely the
  activity records that point reads of that run can return, each once, in the order of their
  object paths, and changes nothing in the bucket.
\<close>

theorem ListActivities_exact:
  assumes "opendal_laws X objs dirs"
    and "ListActivities X ctx key s = (Inr rs, s1)"
  shows "objs s1 = objs s \<and>
    set rs = {r. \<exists>a. runKey (withDefaults a) = withDefaults key \<and> activity_at X (objs s) a = Some r} \<and>
    (\<exists>ps. sorted ps \<and> distinct ps \<and>
       map (\<lambda>r. ActivityKey_Path (ActivityKeyFromProto (ar_Key r))) rs = map Inr ps)"
  using wpre_InrD [OF opendal_laws.ListActivities_spec [OF assms(1)] assms(2)] .

definition listing_example :: memory where
  "listing_example = snd (PutActivity mem_env Caller
     (activity_example\<lparr>ar_Key := Some (NewActivityKey ''orders'' ''r1'' ''a'')\<rparr>)
     (snd (PutActivity mem_env Caller activity_example empty_memory)))"

theorem ListActivities_exact_witness:
  "set (projr (fst (ListActivities mem_env Caller (NewWorkflowKey ''orders'' ''r1'') listing_example))) =
     {r. \<exists>a. runKey (withDefaults a) = withDefaults (NewWorkflowKey ''orders'' ''r1'') \<and>
        activity_at mem_env (mem_lookup listing_example) a = Some r} \<and>
   length (projr (fst (ListActivities mem_env Caller (NewWorkflowKey ''orders'' ''r1'') listing_example))) = 2"
proof
  have "\<not> isl (fst (ListActivities mem_env Caller (NewWorkflowKey ''orders'' ''r1'') listing_example))"
    by code_simp
  from ListActivities_exact [OF mem.opendal_laws_axioms run_Inr [OF this]]
  show "set (projr (fst (ListActivities mem_env Caller (NewWorkflowKey ''orders'' ''r1'') listing_example))) =
     {r. \<exists>a. runKey (withDefaults a) = withDefaults (NewWorkflowKey ''orders'' ''r1'') \<and>
        activity_at mem_env (mem_lookup listing_example) a = Some r}"
    by blast
  show "length (projr (fst (ListActivities mem_env Caller (NewWorkflowKey ''orders'' ''r1'') listing_example))) = 2"
    by code_simp
qed

end
