(* ===== verification/LatestRun.thy ===== *)
theory LatestRun
  imports Records
begin

text \<open>
  Workflow writes and the derived latest-run pointer of \<open>core/go/storage/opendal.go\<close>. A
  \<open>PutWorkflow\<close> writes the authoritative record first and then moves the pointer of the
  workflow ID forward; \<open>GetLatestWorkflowRun\<close> follows the pointer and checks it against the
  record it names. The theorems say that the pointer never moves backwards in (run order time,
  record time), that a read never reports a run that is not there, and that workflow records
  themselves obey the record-store contract although every write touches two objects.
\<close>

section \<open>Definitions\<close>

text \<open>\<open>path[:strings.LastIndex(path, "/")+1]\<close>\<close>

definition parent_dir :: "path \<Rightarrow> path" where
  "parent_dir path = rev (dropWhile (\<lambda>c. c \<noteq> CHR ''/'') (rev path))"

definition workflowLatestPointerRecordTime ::
  "('s, 'b, 'm) env_scheme \<Rightarrow> WorkflowRecord \<Rightarrow> ('s, time) prog" where
  "workflowLatestPointerRecordTime X record =
     (if (wr_Status record = WORKFLOW_STATUS_COMPLETED \<or> wr_Status record = WORKFLOW_STATUS_FAILED)
         \<and> wr_CompletedAt record \<noteq> None
      then if \<not> checkValid X (wr_CompletedAt record)
           then fail (Wrapped ''invalid workflow completed_at'' [Plain ''invalid timestamp''])
           else ret (asTime X (wr_CompletedAt record))
      else if wr_CreatedAt record \<noteq> None
      then if \<not> checkValid X (wr_CreatedAt record)
           then fail (Wrapped ''invalid workflow created_at'' [Plain ''invalid timestamp''])
           else ret (asTime X (wr_CreatedAt record))
      else time_Now X)"

definition shouldReplaceLatestWorkflowRun ::
  "'m wkt_scheme \<Rightarrow> LatestWorkflowRunPointer option \<Rightarrow> time \<Rightarrow> time \<Rightarrow> bool result" where
  "shouldReplaceLatestWorkflowRun W existing incomingRunOrderTime incomingRecordTime =
     (case existing of
        None \<Rightarrow> Inl (Plain ''latest workflow run pointer has no run_order_time'')
      | Some p \<Rightarrow>
          if lp_RunOrderTime p = None
          then Inl (Plain ''latest workflow run pointer has no run_order_time'')
          else if \<not> checkValid W (lp_RunOrderTime p)
          then Inl (Wrapped ''latest workflow run pointer has invalid run_order_time'' [Plain ''invalid timestamp''])
          else if lp_RecordTime p = None
          then Inl (Plain ''latest workflow run pointer has no record_time'')
          else if \<not> checkValid W (lp_RecordTime p)
          then Inl (Wrapped ''latest workflow run pointer has invalid record_time'' [Plain ''invalid timestamp''])
          else let existingRunOrderTime = asTime W (lp_RunOrderTime p) in
          if incomingRunOrderTime \<noteq> existingRunOrderTime
          then Inr (incomingRunOrderTime > existingRunOrderTime)
          else Inr (\<not> incomingRecordTime < asTime W (lp_RecordTime p)))"

definition getLatestWorkflowRunPointer ::
  "('s, 'b, 'm) env_scheme \<Rightarrow> context \<Rightarrow> string \<Rightarrow> string \<Rightarrow> ('s, LatestWorkflowRunPointer option) prog" where
  "getLatestWorkflowRunPointer X ctx namespace workflowID =
     readPoint X ctx (latestWorkflowRunPointerPath namespace workflowID) (unmarshal_pointer X)
       ''decode latest workflow run pointer''
       (\<lambda>pointer. ValidateLatestWorkflowRunPointer X (Some pointer) namespace workflowID)"

definition GetLatestWorkflowRun ::
  "('s, 'b, 'm) env_scheme \<Rightarrow> context \<Rightarrow> string \<Rightarrow> string \<Rightarrow> ('s, LatestWorkflowRunPointer option) prog" where
  "GetLatestWorkflowRun X ctx namespace workflowID =
     andThen (getLatestWorkflowRunPointer X ctx namespace workflowID) (\<lambda>found.
     case found of
       None \<Rightarrow> ret None
     | Some pointer \<Rightarrow>
         andThen (GetWorkflow X ctx (WorkflowKeyFromProto (lp_Key pointer))) (\<lambda>reference.
         case reference of
           None \<Rightarrow> ret None
         | Some record \<Rightarrow>
             (case ValidateLatestWorkflowRunReference X (Some pointer) (Some record) of
                Inl err \<Rightarrow> if errors_Is err ErrStaleLatestPointer then ret None else fail err
              | Inr _ \<Rightarrow> ret (Some pointer))))"

definition putLatestWorkflowRun ::
  "('s, 'b, 'm) env_scheme \<Rightarrow> context \<Rightarrow> WorkflowRecord \<Rightarrow> time \<Rightarrow> time \<Rightarrow> ('s, unit) prog" where
  "putLatestWorkflowRun X ctx record recordTime runOrderTime =
     andThen (ctx_Err X ctx) (\<lambda>_.
     let key = withDefaults (WorkflowKeyFromProto (wr_Key record)) in
     andThen (getLatestWorkflowRunPointer X ctx (Namespace key) (WorkflowID key)) (\<lambda>existing.
     andThen (case existing of
                None \<Rightarrow> ret True
              | Some p \<Rightarrow> lift (shouldReplaceLatestWorkflowRun X existing runOrderTime recordTime))
       (\<lambda>replace.
     if \<not> replace then ret () else
     andThen (time_Now X) (\<lambda>now.
     let pointer = \<lparr>lp_Key = Some (Proto key), lp_Status = wr_Status record,
           lp_RecordTime = Some (Timestamp_New X recordTime),
           lp_UpdatedAt = Some (Timestamp_New X now),
           lp_RunOrderTime = Some (Timestamp_New X runOrderTime)\<rparr> in
     andThen (lift (marshal_pointer X pointer)) (\<lambda>data.
     andThen (lift (latestWorkflowRunPointerPath (Namespace key) (WorkflowID key))) (\<lambda>path.
     andThen (op_CreateDir X (parent_dir path)) (\<lambda>_.
     andThen (ctx_Err X ctx) (\<lambda>_.
     op_Write X path data))))))))"

definition PutWorkflow ::
  "('s, 'b, 'm) env_scheme \<Rightarrow> context \<Rightarrow> WorkflowRecord \<Rightarrow> ('s, unit) prog" where
  "PutWorkflow X ctx record =
     andThen (ctx_Err X ctx) (\<lambda>_.
     let key = WorkflowKeyFromProto (wr_Key record) in
     andThen (lift (ValidateWorkflowRecord X (Some record) key)) (\<lambda>_.
     let pointerEligible = workflowStatusHasLatestPointer (wr_Status record) in
     andThen (if pointerEligible
              then andThen (workflowLatestPointerRecordTime X record) (\<lambda>recordTime.
                   ret (recordTime,
                        if wr_RunOrderTime record \<noteq> None then asTime X (wr_RunOrderTime record)
                        else recordTime))
              else ret (zero_time, zero_time)) (\<lambda>(recordTime, runOrderTime).
     andThen (lift (WorkflowKey_Path key)) (\<lambda>path.
     andThen (lift (WorkflowKey_DirPath key)) (\<lambda>dir.
     andThen (lift (marshal_workflow X record)) (\<lambda>data.
     andThen (op_CreateDir X dir) (\<lambda>_.
     andThen (ctx_Err X ctx) (\<lambda>_.
     andThen (op_Write X path data) (\<lambda>_.
     if \<not> pointerEligible then ret ()
     else putLatestWorkflowRun X ctx record recordTime runOrderTime)))))))))"

section \<open>What the bucket holds\<close>

definition pointer_at ::
  "('b, 'm) codec_scheme \<Rightarrow> (path \<Rightarrow> 'b option) \<Rightarrow> string \<Rightarrow> string \<Rightarrow> LatestWorkflowRunPointer option" where
  "pointer_at X obs n w = point_at obs (latestWorkflowRunPointerPath n w) (unmarshal_pointer X)
     (\<lambda>p. ValidateLatestWorkflowRunPointer X (Some p) n w)"

text \<open>The position of a pointer in the run order: its run order time, then its record time.\<close>

definition pointer_order :: "'m wkt_scheme \<Rightarrow> LatestWorkflowRunPointer \<Rightarrow> time \<times> time" where
  "pointer_order W p = (asTime W (lp_RunOrderTime p), asTime W (lp_RecordTime p))"

fun not_older :: "time \<times> time \<Rightarrow> time \<times> time \<Rightarrow> bool" where
  "not_older (o1, r1) (o0, r0) \<longleftrightarrow> o1 > o0 \<or> o1 = o0 \<and> r1 \<ge> r0"

lemma not_older_refl [simp]: "not_older a a"
  by (cases a) simp

lemma not_older_trans: "not_older a b \<Longrightarrow> not_older b c \<Longrightarrow> not_older a c"
  by (cases a; cases b; cases c) auto

lemma not_older_total: "\<not> not_older a b \<Longrightarrow> not_older b a"
  by (cases a; cases b) auto

lemma shouldReplace_True:
  "shouldReplaceLatestWorkflowRun W (Some p) ro rt = Inr True \<Longrightarrow> not_older (ro, rt) (pointer_order W p)"
  by (auto simp: shouldReplaceLatestWorkflowRun_def pointer_order_def Let_def split: if_splits)

lemma shouldReplace_False:
  "shouldReplaceLatestWorkflowRun W (Some p) ro rt = Inr False \<Longrightarrow> \<not> not_older (ro, rt) (pointer_order W p)"
  by (auto simp: shouldReplaceLatestWorkflowRun_def pointer_order_def Let_def split: if_splits)

section \<open>The effect of a workflow write\<close>

definition workflow_upd ::
  "('b, 'm) codec_scheme \<Rightarrow> WorkflowRecord \<Rightarrow> (path \<Rightarrow> 'b option) \<Rightarrow> (path \<Rightarrow> 'b option) \<Rightarrow> bool" where
  "workflow_upd X r obs obs' \<longleftrightarrow> (\<exists>p b. WorkflowKey_Path (WorkflowKeyFromProto (wr_Key r)) = Inr p \<and>
     marshal_workflow X r = Inr b \<and>
     ValidateWorkflowRecord X (Some r) (WorkflowKeyFromProto (wr_Key r)) = Inr () \<and>
     obs' = obs(p \<mapsto> b))"

abbreviation record_key :: "WorkflowRecord \<Rightarrow> WorkflowKey" where
  "record_key r \<equiv> withDefaults (WorkflowKeyFromProto (wr_Key r))"

definition pointer_for ::
  "'m wkt_scheme \<Rightarrow> WorkflowRecord \<Rightarrow> time \<Rightarrow> time \<Rightarrow> time \<Rightarrow> LatestWorkflowRunPointer" where
  "pointer_for W r rt ro now = \<lparr>lp_Key = Some (record_key r), lp_Status = wr_Status r,
     lp_RecordTime = Some (Timestamp_New W rt), lp_UpdatedAt = Some (Timestamp_New W now),
     lp_RunOrderTime = Some (Timestamp_New W ro)\<rparr>"

definition pointer_upd ::
  "('b, 'm) codec_scheme \<Rightarrow> WorkflowRecord \<Rightarrow> time \<Rightarrow> time \<Rightarrow> (path \<Rightarrow> 'b option) \<Rightarrow> (path \<Rightarrow> 'b option) \<Rightarrow> bool" where
  "pointer_upd X r rt ro obs obs' \<longleftrightarrow> (\<exists>p b now.
     latestWorkflowRunPointerPath (Namespace (record_key r)) (WorkflowID (record_key r)) = Inr p \<and>
     timestamp_range now \<and> marshal_pointer X (pointer_for X r rt ro now) = Inr b \<and>
     (\<forall>p0. pointer_at X obs (Namespace (record_key r)) (WorkflowID (record_key r)) = Some p0 \<longrightarrow>
        not_older (ro, rt) (pointer_order X p0)) \<and>
     obs' = obs(p \<mapsto> b))"

lemma pointer_updI:
  "latestWorkflowRunPointerPath (Namespace (record_key r)) (WorkflowID (WorkflowKeyFromProto (wr_Key r))) = Inr p \<Longrightarrow>
   timestamp_range now \<Longrightarrow> marshal_pointer X (pointer_for X r rt ro now) = Inr b \<Longrightarrow>
   (\<And>p0. pointer_at X obs (Namespace (record_key r)) (WorkflowID (WorkflowKeyFromProto (wr_Key r))) = Some p0 \<Longrightarrow>
      not_older (ro, rt) (pointer_order X p0)) \<Longrightarrow>
   pointer_upd X r rt ro obs (obs(p \<mapsto> b))"
  unfolding pointer_upd_def withDefaults_sel by blast

text \<open>The times a write orders its run by: those the record carries, else the clock.\<close>

definition record_times :: "'m wkt_scheme \<Rightarrow> WorkflowRecord \<Rightarrow> time \<Rightarrow> time \<Rightarrow> bool" where
  "record_times W r rt ro \<longleftrightarrow> timestamp_range rt \<and> timestamp_range ro \<and>
     ro = (if wr_RunOrderTime r \<noteq> None then asTime W (wr_RunOrderTime r) else rt) \<and>
     (\<forall>t. persistedWorkflowRecordTime W r = Inr (Some t) \<longrightarrow> rt = t)"

text \<open>A complete write, and one that may have stopped after either of its two objects.\<close>

definition put_done ::
  "('b, 'm) codec_scheme \<Rightarrow> WorkflowRecord \<Rightarrow> (path \<Rightarrow> 'b option) \<Rightarrow> (path \<Rightarrow> 'b option) \<Rightarrow> bool" where
  "put_done X r obs obs' \<longleftrightarrow> (\<exists>obs1. workflow_upd X r obs obs1 \<and>
     (if workflowStatusHasLatestPointer (wr_Status r)
      then \<exists>rt ro. record_times X r rt ro \<and>
        (pointer_upd X r rt ro obs1 obs' \<or> obs' = obs1 \<and>
         (\<exists>p0. pointer_at X obs1 (Namespace (record_key r)) (WorkflowID (record_key r)) = Some p0 \<and>
            \<not> not_older (ro, rt) (pointer_order X p0)))
      else obs' = obs1))"

definition put_partial ::
  "('b, 'm) codec_scheme \<Rightarrow> WorkflowRecord \<Rightarrow> (path \<Rightarrow> 'b option) \<Rightarrow> (path \<Rightarrow> 'b option) \<Rightarrow> bool" where
  "put_partial X r obs obs' \<longleftrightarrow> obs' = obs \<or> (\<exists>obs1. workflow_upd X r obs obs1 \<and>
     (obs' = obs1 \<or> workflowStatusHasLatestPointer (wr_Status r) \<and>
        (\<exists>rt ro. record_times X r rt ro \<and> pointer_upd X r rt ro obs1 obs')))"

context opendal_laws
begin

lemma wp_getLatestWorkflowRunPointer:
  assumes "\<And>s1. objs s1 = objs s \<Longrightarrow> Q (pointer_at X (objs s) n w) s1"
    and "\<And>e s1. objs s1 = objs s \<Longrightarrow> E e s1"
  shows "wpre (getLatestWorkflowRunPointer X c n w) Q E s"
  unfolding getLatestWorkflowRunPointer_def
  by (rule wpre_mono [OF readPoint_spec [OF Path_file(6)]]) (use assms in \<open>auto simp: pointer_at_def\<close>)

lemma putLatestWorkflowRun_spec:
  "wpre (putLatestWorkflowRun X c r rt ro)
    (\<lambda>_ s1. pointer_upd X r rt ro (objs s) (objs s1) \<or> objs s1 = objs s \<and>
       (\<exists>p0. pointer_at X (objs s) (Namespace (record_key r)) (WorkflowID (record_key r)) = Some p0 \<and>
          \<not> not_older (ro, rt) (pointer_order X p0)))
    (\<lambda>e s1. pointer_upd X r rt ro (objs s) (objs s1) \<or> objs s1 = objs s) s"
  unfolding putLatestWorkflowRun_def Let_def Proto_def withDefaults_idem pointer_for_def [symmetric]
  by (auto simp: wp shouldReplace_True shouldReplace_False
      intro!: ops wp_getLatestWorkflowRunPointer Path_file(6) pointer_updI split: sum.splits option.splits)

lemma wp_putLatestWorkflowRun:
  assumes "\<And>s1. pointer_upd X r rt ro (objs s) (objs s1) \<Longrightarrow> Q () s1"
    and "\<And>p0 s1. objs s1 = objs s \<Longrightarrow> \<not> not_older (ro, rt) (pointer_order X p0) \<Longrightarrow>
       pointer_at X (objs s) (Namespace (record_key r)) (WorkflowID (record_key r)) = Some p0 \<Longrightarrow> Q () s1"
    and "\<And>e s1. objs s1 = objs s \<Longrightarrow> E e s1"
    and "\<And>e s1. pointer_upd X r rt ro (objs s) (objs s1) \<Longrightarrow> E e s1"
  shows "wpre (putLatestWorkflowRun X c r rt ro) Q E s"
  by (rule wpre_mono [OF putLatestWorkflowRun_spec]) (use assms in auto)

lemma wp_recordTime:
  assumes "\<And>rt s1. objs s1 = objs s \<Longrightarrow> timestamp_range rt \<Longrightarrow>
       (\<And>t. persistedWorkflowRecordTime X r = Inr (Some t) \<Longrightarrow> rt = t) \<Longrightarrow> Q rt s1"
    and "\<And>e s1. objs s1 = objs s \<Longrightarrow> E e s1"
  shows "wpre (workflowLatestPointerRecordTime X r) Q E s"
  unfolding workflowLatestPointerRecordTime_def
  by (auto simp: wp persistedWorkflowRecordTime_def timestamp_AsTime_range intro!: wp_now assms)

lemma record_timesI:
  assumes "ValidateWorkflowRecord X (Some r) k = Inr u" and "timestamp_range rt"
    and "\<And>t. persistedWorkflowRecordTime X r = Inr (Some t) \<Longrightarrow> rt = t"
  shows "wr_RunOrderTime r = Some o' \<Longrightarrow> record_times X r rt (Timestamp_AsTime X o')"
    and "wr_RunOrderTime r = None \<Longrightarrow> record_times X r rt rt"
  using assms by (auto simp: record_times_def ValidateWorkflowRecord_ok timestamp_AsTime_range)

lemma put_partial_refl [simp]: "put_partial X r obs obs"
  by (simp add: put_partial_def)

lemma put_doneI:
  assumes "workflow_upd X r obs obs1"
  shows "\<not> workflowStatusHasLatestPointer (wr_Status r) \<Longrightarrow> put_done X r obs obs1"
    and "workflowStatusHasLatestPointer (wr_Status r) \<Longrightarrow> record_times X r rt ro \<Longrightarrow>
       pointer_upd X r rt ro obs1 obs' \<Longrightarrow> put_done X r obs obs'"
    and "workflowStatusHasLatestPointer (wr_Status r) \<Longrightarrow> record_times X r rt ro \<Longrightarrow>
       pointer_at X obs1 (Namespace (record_key r)) (WorkflowID (record_key r)) = Some p0 \<Longrightarrow>
       \<not> not_older (ro, rt) (pointer_order X p0) \<Longrightarrow> put_done X r obs obs1"
    and "put_partial X r obs obs1"
    and "workflowStatusHasLatestPointer (wr_Status r) \<Longrightarrow> record_times X r rt ro \<Longrightarrow>
       pointer_upd X r rt ro obs1 obs' \<Longrightarrow> put_partial X r obs obs'"
  using assms by (auto simp: put_done_def put_partial_def)

lemma PutWorkflow_spec:
  "wpre (PutWorkflow X c r) (\<lambda>_ s1. put_done X r (objs s) (objs s1))
     (\<lambda>e s1. put_partial X r (objs s) (objs s1)) s"
proof -
  let ?k = "WorkflowKeyFromProto (wr_Key r)"
  define T where "T p b rt ro = andThen (op_Write X p b) (\<lambda>_.
    if \<not> workflowStatusHasLatestPointer (wr_Status r) then ret () else putLatestWorkflowRun X c r rt ro)"
    for p b rt ro
  have tail: "wpre (T p b rt ro) (\<lambda>_ s1. put_done X r (objs s) (objs s1))
      (\<lambda>e s1. put_partial X r (objs s) (objs s1)) s1"
    if h: "objs s1 = objs s" "WorkflowKey_Path ?k = Inr p" "marshal_workflow X r = Inr b"
      "ValidateWorkflowRecord X (Some r) ?k = Inr ()"
      "workflowStatusHasLatestPointer (wr_Status r) \<longrightarrow> record_times X r rt ro" for s1 p b rt ro
  proof -
    have upd: "workflow_upd X r (objs s) ((objs s)(p \<mapsto> b))" using h by (auto simp: workflow_upd_def)
    note dn = put_doneI [OF upd, unfolded withDefaults_sel]
    show ?thesis
      unfolding T_def using h(1,5) Path_file(2) [OF h(2)]
      by (auto simp: wp intro!: wp_write wp_putLatestWorkflowRun intro: dn)
  qed
  show ?thesis
    unfolding PutWorkflow_def Let_def T_def [symmetric]
    by (auto simp: wp record_timesI intro!: wp_ctx wp_createdir wp_recordTime tail split: sum.splits)
qed

subsection \<open>What readers see after a write\<close>

lemma workflow_at_upd:
  assumes "workflow_upd X r obs obs1"
  shows "workflow_at X obs1 = (\<lambda>k. if withDefaults k = record_key r then Some r else workflow_at X obs k)"
proof (rule ext)
  show "workflow_at X obs1 k = (if withDefaults k = record_key r then Some r else workflow_at X obs k)" for k
    using assms Path_eq_iff(2) workflow_roundtrip
    by (fastforce simp: workflow_upd_def workflow_at_def point_at_write ValidateWorkflowRecord_ok)
qed

lemma pointer_at_workflow_upd:
  assumes "workflow_upd X r obs obs1"
  shows "pointer_at X obs1 n w = pointer_at X obs n w"
proof -
  obtain p b where "WorkflowKey_Path (WorkflowKeyFromProto (wr_Key r)) = Inr p" "obs1 = obs(p \<mapsto> b)"
    using assms by (auto simp: workflow_upd_def)
  then show ?thesis
    using object_path_distinct [of "ObjWorkflow (WorkflowKeyFromProto (wr_Key r))" "ObjLatest n w" p]
    by (simp add: pointer_at_def point_at_write)
qed

lemma workflow_at_pointer_upd:
  assumes "pointer_upd X r rt ro obs obs'"
  shows "workflow_at X obs' = workflow_at X obs"
proof
  fix k
  obtain n w p b where "latestWorkflowRunPointerPath n w = Inr p" "obs' = obs(p \<mapsto> b)"
    using assms by (auto simp: pointer_upd_def)
  then show "workflow_at X obs' k = workflow_at X obs k"
    using object_path_distinct [of "ObjLatest n w" "ObjWorkflow k" p]
    by (simp add: workflow_at_def point_at_write)
qed

lemma pointer_for_valid:
  assumes "ValidateWorkflowRecord X (Some r) (WorkflowKeyFromProto (wr_Key r)) = Inr ()"
    and "workflowStatusHasLatestPointer (wr_Status r)" and "record_times X r rt ro" "timestamp_range now"
  shows "ValidateLatestWorkflowRunPointer X (Some (pointer_for X r rt ro now))
    (Namespace (record_key r)) (WorkflowID (record_key r)) = Inr ()"
proof -
  have "Namespace (record_key r) \<noteq> []" by (simp add: Namespace_withDefaults DefaultNamespace_def)
  then show ?thesis
    using assms
    by (auto simp: ValidateLatestWorkflowRunPointer_def pointer_for_def Let_def key_Validates
        withDefaults_literal ValidateWorkflowRecord_ok record_times_def
        protovalidate_def WorkflowKey_rules_def split: if_splits)
qed

lemma pointer_at_upd:
  assumes "pointer_upd X r rt ro obs obs'" and "workflow_upd X r obs0 obs"
    and "workflowStatusHasLatestPointer (wr_Status r)" and "record_times X r rt ro"
  shows "\<exists>now. pointer_at X obs' (Namespace (record_key r)) (WorkflowID (record_key r)) =
    Some (pointer_for X r rt ro now)"
proof -
  obtain p b now where "latestWorkflowRunPointerPath (Namespace (record_key r)) (WorkflowID (record_key r)) = Inr p"
    "timestamp_range now" "marshal_pointer X (pointer_for X r rt ro now) = Inr b" "obs' = obs(p \<mapsto> b)"
    using assms(1) by (auto simp: pointer_upd_def)
  then show ?thesis
    using pointer_for_valid [of r rt ro now] assms pointer_roundtrip
    by (auto simp: pointer_at_def point_at_write workflow_upd_def)
qed

lemma pointer_order_for [simp]: "pointer_order X (pointer_for X r rt ro now) = (ro, rt)"
  by (simp add: pointer_order_def pointer_for_def)

text \<open>A write never moves the pointer backwards, and a complete one never leaves it behind.\<close>

lemma put_partial_pointer:
  assumes "put_partial X r obs obs'"
    and "pointer_at X obs (Namespace (record_key r)) (WorkflowID (record_key r)) = Some p0"
  shows "\<exists>p1. pointer_at X obs' (Namespace (record_key r)) (WorkflowID (record_key r)) = Some p1 \<and>
    not_older (pointer_order X p1) (pointer_order X p0)"
  using assms(1) unfolding put_partial_def
proof (elim disjE exE conjE)
  fix obs1 rt ro
  assume a: "workflow_upd X r obs obs1" "workflowStatusHasLatestPointer (wr_Status r)"
    "record_times X r rt ro" "pointer_upd X r rt ro obs1 obs'"
  have "not_older (ro, rt) (pointer_order X p0)"
    using a(4) pointer_at_workflow_upd [OF a(1)] assms(2) by (auto simp: pointer_upd_def)
  then show ?thesis using pointer_at_upd [OF a(4,1,2,3)] by auto
qed (use assms(2) pointer_at_workflow_upd in auto)

lemma put_done_partial: "put_done X r obs obs' \<Longrightarrow> put_partial X r obs obs'"
  by (auto simp: put_done_def put_partial_def split: if_splits)

lemma put_done_pointer:
  assumes "put_done X r obs obs'" "workflowStatusHasLatestPointer (wr_Status r)"
  shows "\<exists>p1 rt ro. pointer_at X obs' (Namespace (record_key r)) (WorkflowID (record_key r)) = Some p1 \<and>
    record_times X r rt ro \<and> not_older (pointer_order X p1) (ro, rt) \<and>
    ((\<exists>now. p1 = pointer_for X r rt ro now) \<or>
     pointer_at X obs (Namespace (record_key r)) (WorkflowID (record_key r)) = Some p1)"
proof -
  obtain obs1 rt ro where a: "workflow_upd X r obs obs1" "record_times X r rt ro"
    and o: "pointer_upd X r rt ro obs1 obs' \<or> obs' = obs1 \<and>
      (\<exists>p0. pointer_at X obs1 (Namespace (record_key r)) (WorkflowID (record_key r)) = Some p0 \<and>
         \<not> not_older (ro, rt) (pointer_order X p0))"
    using assms by (auto simp: put_done_def)
  from o show ?thesis
  proof
    assume "pointer_upd X r rt ro obs1 obs'"
    with pointer_at_upd [OF this a(1) assms(2) a(2)] a(2) show ?thesis by fastforce
  next
    assume "obs' = obs1 \<and> (\<exists>p0. pointer_at X obs1 (Namespace (record_key r)) (WorkflowID (record_key r)) = Some p0 \<and>
         \<not> not_older (ro, rt) (pointer_order X p0))"
    with pointer_at_workflow_upd [OF a(1)] a(2) show ?thesis
      by (metis not_older_total)
  qed
qed

lemma workflow_at_put_done:
  assumes "put_done X r obs obs'"
  shows "workflow_at X obs' = (\<lambda>k. if withDefaults k = record_key r then Some r else workflow_at X obs k)"
  using assms workflow_at_upd workflow_at_pointer_upd
  by (auto simp: put_done_def split: if_splits)

lemma workflow_at_put_partial:
  assumes "put_partial X r obs obs'"
  shows "workflow_at X obs' = workflow_at X obs \<or>
    workflow_at X obs' = (\<lambda>k. if withDefaults k = record_key r then Some r else workflow_at X obs k)"
  using assms workflow_at_upd workflow_at_pointer_upd by (auto simp: put_partial_def)

lemma GetLatestWorkflowRun_spec:
  "wpre (GetLatestWorkflowRun X c n w)
    (\<lambda>v s1. objs s1 = objs s \<and> (case v of
        Some p \<Rightarrow> pointer_at X (objs s) n w = Some p \<and>
          (\<exists>r. workflow_at X (objs s) (WorkflowKeyFromProto (lp_Key p)) = Some r \<and>
             ValidateLatestWorkflowRunReference X (Some p) (Some r) = Inr ())
      | None \<Rightarrow> (\<forall>p r. pointer_at X (objs s) n w = Some p \<longrightarrow>
          workflow_at X (objs s) (WorkflowKeyFromProto (lp_Key p)) = Some r \<longrightarrow>
          ValidateLatestWorkflowRunReference X (Some p) (Some r) \<noteq> Inr ())))
    (\<lambda>e s1. objs s1 = objs s) s"
  unfolding GetLatestWorkflowRun_def wpre_andThen
proof (rule wp_getLatestWorkflowRunPointer, goal_cases)
  case (1 s1)
  have get: "wpre (GetWorkflow X c k) Q E s1"
    if "\<And>s2. objs s2 = objs s \<Longrightarrow> Q (workflow_at X (objs s) k) s2" "\<And>e s2. objs s2 = objs s \<Longrightarrow> E e s2" for k Q E
    by (rule wpre_mono [OF GetWorkflow_spec]) (use that 1 in auto)
  show ?case
    using 1 by (auto simp: wp intro!: get split: option.splits sum.splits)
qed auto

end

sublocale opendal_laws \<subseteq> workflows: record_store "GetWorkflow X c" "PutWorkflow X c"
  "DeleteWorkflow X c" "\<lambda>s. workflow_at X (objs s)" "\<lambda>r. WorkflowKeyFromProto (wr_Key r)"
  "\<lambda>k k'. withDefaults k = withDefaults k'" "\<lambda>_. True" for c
proof (unfold_locales, goal_cases)
  case (1 k s v s1)
  then show ?case using wpre_InrD [OF GetWorkflow_spec] by blast
next
  case (2 k)
  show ?case by (rule keeps_from_wpre, rule GetWorkflow_spec)
next
  case (3 r s u s1 k)
  then show ?case using workflow_at_put_done [OF wpre_InrD [OF PutWorkflow_spec 3]] by simp
next
  case (4 r s e s1)
  then show ?case using workflow_at_put_partial [OF wpre_InlD [OF PutWorkflow_spec 4]] by auto
next
  case (5 k s w s1 k')
  then show ?case using wpre_InrD [OF DeleteWorkflow_spec 5] by (auto simp: view_deleted(2))
next
  case (6 k s e s1)
  then show ?case using wpre_InlD [OF DeleteWorkflow_spec 6] by (auto simp: view_deleted(2))
qed simp

section \<open>Properties of the latest-run pointer\<close>

lemma pointer_at_default:
  "pointer_at X obs n w = pointer_at X obs (if n = [] then DefaultNamespace else n) w"
  by (auto simp: pointer_at_def latestWorkflowRunPointerPath_def ValidateLatestWorkflowRunPointer_def
      withDefaults_literal Let_def DefaultNamespace_def)

context opendal_laws
begin

lemma pointer_at_other:
  assumes "put_partial X r obs obs'"
    and "(if n = [] then DefaultNamespace else n) \<noteq> Namespace (record_key r) \<or> w \<noteq> WorkflowID (record_key r)"
  shows "pointer_at X obs' n w = pointer_at X obs n w"
proof -
  have "pointer_at X obs2 n w = pointer_at X obs1 n w" if "pointer_upd X r rt ro obs1 obs2" for obs1 obs2 rt ro
  proof -
    have "Namespace (record_key r) \<noteq> []" by (simp add: Namespace_withDefaults DefaultNamespace_def)
    then have "canonical (ObjLatest (Namespace (record_key r)) (WorkflowID (record_key r))) \<noteq>
        canonical (ObjLatest n w)"
      using assms(2) by auto
    from object_path_distinct [OF this] that show ?thesis
      by (auto simp: pointer_upd_def pointer_at_def point_at_write)
  qed
  with assms(1) pointer_at_workflow_upd show ?thesis by (auto simp: put_partial_def)
qed

lemma put_pointer_monotone:
  assumes "PutWorkflow X ctx r s = (res, s1)" "pointer_at X (objs s) n w = Some p0"
  shows "\<exists>p1. pointer_at X (objs s1) n w = Some p1 \<and> not_older (pointer_order X p1) (pointer_order X p0)"
proof -
  have part: "put_partial X r (objs s) (objs s1)"
    using PutWorkflow_spec [of ctx r s] assms(1) put_done_partial by (cases res) (auto simp: wpre_def)
  show ?thesis
  proof (cases "(if n = [] then DefaultNamespace else n) = Namespace (record_key r) \<and> w = WorkflowID (record_key r)")
    case True
    then show ?thesis using put_partial_pointer [OF part] assms(2) pointer_at_default [of X _ n w] by simp
  next
    case False
    then show ?thesis using pointer_at_other [OF part, of n w] assms(2) by auto
  qed
qed

lemma put_then_latest:
  assumes put: "PutWorkflow X ctx r s = (Inr (), s1)"
    and st: "workflowStatusHasLatestPointer (wr_Status r)"
    and t: "persistedWorkflowRecordTime X r = Inr (Some rt)"
    and ro: "ro = (if wr_RunOrderTime r \<noteq> None then asTime X (wr_RunOrderTime r) else rt)"
    and newest: "\<And>p0. pointer_at X (objs s) (Namespace (record_key r)) (WorkflowID (record_key r)) = Some p0 \<Longrightarrow>
        not_older (ro, rt) (pointer_order X p0)"
    and get: "GetLatestWorkflowRun X ctx' (Namespace (record_key r)) (WorkflowID (record_key r)) s1 = (Inr v, s2)"
  shows "\<exists>p. v = Some p \<and> lp_Key p = Some (record_key r) \<and> lp_Status p = wr_Status r \<and> pointer_order X p = (ro, rt)"
proof -
  have d: "put_done X r (objs s) (objs s1)" by (rule wpre_InrD [OF PutWorkflow_spec put])
  then obtain obs1 where obs1: "workflow_upd X r (objs s) obs1"
    and rtimes: "record_times X r rt ro" and
    o: "pointer_upd X r rt ro obs1 (objs s1) \<or> objs s1 = obs1 \<and>
      (\<exists>p0. pointer_at X obs1 (Namespace (record_key r)) (WorkflowID (record_key r)) = Some p0 \<and>
         \<not> not_older (ro, rt) (pointer_order X p0))"
    using st t ro by (auto simp: put_done_def record_times_def)
  have upd: "pointer_upd X r rt ro obs1 (objs s1)"
    using o newest pointer_at_workflow_upd [OF obs1] by auto
  then obtain now where p1: "pointer_at X (objs s1) (Namespace (record_key r)) (WorkflowID (record_key r)) =
      Some (pointer_for X r rt ro now)"
    using pointer_at_upd [OF upd obs1 st rtimes] by auto
  have w: "workflow_at X (objs s1) (record_key r) = Some r"
    using workflow_at_put_done [OF d] by simp
  have val: "ValidateWorkflowRecord X (Some r) (record_key r) = Inr ()"
    using obs1 by (auto simp: workflow_upd_def ValidateWorkflowRecord_ok)
  have "ValidateLatestWorkflowRunReference X (Some (pointer_for X r rt ro now)) (Some r) = Inr ()"
    using val t ro
    by (auto simp: ValidateLatestWorkflowRunReference_def pointer_for_def Let_def
        dest: ValidateWorkflowRecord_ok [THEN iffD1])
  with wpre_InrD [OF GetLatestWorkflowRun_spec get] p1 w show ?thesis
    by (cases v) (auto simp: pointer_for_def pointer_order_def)
qed

end


definition workflow_example :: "string \<Rightarrow> int \<Rightarrow> WorkflowRecord" where
  "workflow_example run t = \<lparr>wr_SchemaVersion = RECORD_SCHEMA_VERSION_WORKFLOW,
     wr_Key = Some (NewWorkflowKey ''orders'' run), wr_WorkflowType = ''Order'', wr_Input = None,
     wr_Status = WORKFLOW_STATUS_IN_PROGRESS, wr_Result = None, wr_Failure = None,
     wr_CreatedAt = Some \<lparr>ts_seconds = t, ts_nanos = 0\<rparr>, wr_CompletedAt = None,
     wr_Annotations = Map.empty, wr_RunOrderTime = None\<rparr>"


text \<open>
  C7. A latest-run read never invents a run. A pointer that \<open>GetLatestWorkflowRun\<close> returns is
  the one stored for the requested workflow, and the run it names is in the bucket with the
  same status and, when the record carries a creation or completion time, the same record time.
\<close>

theorem latest_run_exists:
  assumes "opendal_laws X objs dirs"
    and "GetLatestWorkflowRun X ctx namespace workflowID s = (Inr (Some p), s1)"
  shows "objs s1 = objs s \<and> pointer_at X (objs s) namespace workflowID = Some p \<and>
    WorkflowID (WorkflowKeyFromProto (lp_Key p)) = workflowID \<and>
    (\<exists>r. workflow_at X (objs s) (WorkflowKeyFromProto (lp_Key p)) = Some r \<and> wr_Status r = lp_Status p \<and>
       (\<forall>t. persistedWorkflowRecordTime X r = Inr (Some t) \<longrightarrow> asTime X (lp_RecordTime p) = t))"
proof -
  have h: "objs s1 = objs s \<and> pointer_at X (objs s) namespace workflowID = Some p \<and>
    (\<exists>r. workflow_at X (objs s) (WorkflowKeyFromProto (lp_Key p)) = Some r \<and>
       ValidateLatestWorkflowRunReference X (Some p) (Some r) = Inr ())"
    using wpre_InrD [OF opendal_laws.GetLatestWorkflowRun_spec [OF assms(1)] assms(2)] by simp
  then have "ValidateLatestWorkflowRunPointer X (Some p) namespace workflowID = Inr ()"
    by (auto simp: pointer_at_def point_at_Some)
  then have "WorkflowID (WorkflowKeyFromProto (lp_Key p)) = workflowID"
    by (auto dest!: ValidateLatestWorkflowRunPointer_ok)
  with h show ?thesis
    by (fastforce simp: ValidateLatestWorkflowRunReference_def Let_def split: sum.splits option.splits if_splits)
qed

theorem latest_run_exists_witness:
  "\<exists>p r. fst (GetLatestWorkflowRun mem_env Caller ''default'' ''orders''
       (snd (PutWorkflow mem_env Caller (workflow_example ''r2'' 20) empty_memory))) = Inr (Some p) \<and>
     workflow_at mem_env (mem_lookup (snd (PutWorkflow mem_env Caller (workflow_example ''r2'' 20) empty_memory)))
       (WorkflowKeyFromProto (lp_Key p)) = Some r \<and> wr_Status r = lp_Status p"
proof -
  define s where "s = snd (PutWorkflow mem_env Caller (workflow_example ''r2'' 20) empty_memory)"
  let ?g = "GetLatestWorkflowRun mem_env Caller ''default'' ''orders'' s"
  have g: "\<not> isl (fst ?g)" and n: "projr (fst ?g) \<noteq> None" unfolding s_def by code_simp+
  from n obtain p where p: "projr (fst ?g) = Some p" by blast
  have "?g = (Inr (Some p), snd ?g)" using run_Inr [OF g] p by simp
  from latest_run_exists [OF mem.opendal_laws_axioms this] this show ?thesis
    unfolding s_def by (metis fst_conv)
qed



end
