(* ===== verification/TimerLedger.thy ===== *)
theory TimerLedger
  imports LatestRun "HOL-Library.Product_Lexorder"
begin

text \<open>
  Durable timers of \<open>core/go/storage/opendal.go\<close>. A timer has two objects: the due-ledger
  entry, which carries the prepared record and is written first, and the canonical point
  record. Readers prefer the ledger, a delete publishes a tombstone in it, and the due scan
  repairs a canonical copy that fell behind before it ever dispatches the wake.

  The view \<open>timer_view\<close> is what readers see through that overlay. With respect to it the
  two-object writes are atomic: the operations satisfy the same \<open>record_store\<close> contract as
  the single-object kinds, for every point at which a write or delete may be cut short.
\<close>

section \<open>Ledger entries\<close>

definition validateDueEntry ::
  "'m wkt_scheme \<Rightarrow> path \<Rightarrow> path \<Rightarrow> DueTimerEntry \<Rightarrow> TimerKey \<Rightarrow> WorkflowKey \<Rightarrow> unit result" where
  "validateDueEntry W ledgerRoot ledgerPath entry timerKey workflowKey =
     (case de_Record entry of
        None \<Rightarrow> Inl (Plain ''due timer entry has no prepared record'')
      | Some record \<Rightarrow>
     (case TimerKey_Validate timerKey of
        Inl err \<Rightarrow> Inl (Wrapped ''due timer entry has invalid timer key'' [err])
      | Inr _ \<Rightarrow>
     (case WorkflowKey_Validate workflowKey of
        Inl err \<Rightarrow> Inl (Wrapped ''due timer entry has invalid workflow key'' [err])
      | Inr _ \<Rightarrow>
     if \<not> sameWorkflowRun workflowKey (runKey timerKey)
     then Inl (Plain ''due timer entry crosses workflow runs'')
     else if dueRoot (Namespace timerKey) \<noteq> ledgerRoot
     then Inl (Plain ''due timer entry is stored under the wrong namespace'')
     else
     (case ValidateTimerRecord (Some record) timerKey of
        Inl err \<Rightarrow> Inl (Wrapped ''due timer entry has invalid prepared record'' [err])
      | Inr _ \<Rightarrow>
     if tr_Status record = TIMER_STATUS_SCHEDULED \<and> tr_FireAt record = None
     then Inl (Plain ''scheduled due timer entry has no prepared fire_at'')
     else if tr_Status record \<notin> {TIMER_STATUS_SCHEDULED, TIMER_STATUS_FIRED, TIMER_STATUS_CANCELED}
     then Inl (Plain ''due timer entry has invalid prepared status'')
     else if (tr_FireAt record = None) \<noteq> (de_FireAt entry = None)
     then Inl (Plain ''due timer entry has mismatched prepared fire_at'')
     else if tr_FireAt record \<noteq> None \<and> \<not> checkValid W (tr_FireAt record)
     then Inl (Wrapped ''due timer entry has invalid prepared fire_at'' [Plain ''invalid timestamp''])
     else if tr_FireAt record \<noteq> None \<and> \<not> checkValid W (de_FireAt entry)
     then Inl (Wrapped ''due timer entry has invalid fire_at'' [Plain ''invalid timestamp''])
     else if tr_FireAt record \<noteq> None \<and> asTime W (tr_FireAt record) \<noteq> asTime W (de_FireAt entry)
     then Inl (Plain ''due timer entry has mismatched prepared fire_at'')
     else
     (case dueEntryPath timerKey of
        Inl err \<Rightarrow> Inl err
      | Inr expected \<Rightarrow>
     if expected \<noteq> ledgerPath
     then Inl (Plain ''due timer entry payload does not match its storage location'')
     else Inr ())))))"

abbreviation entry_timerKey :: "DueTimerEntry \<Rightarrow> TimerKey" where
  "entry_timerKey entry \<equiv> withDefaults (TimerKeyFromProto (de_Key entry))"

abbreviation entry_workflowKey :: "DueTimerEntry \<Rightarrow> WorkflowKey" where
  "entry_workflowKey entry \<equiv> withDefaults (WorkflowKeyFromProto (de_WorkflowKey entry))"

text \<open>The checks \<open>getDueEntry\<close> makes of a decoded entry.\<close>

definition checkDueEntry :: "'m wkt_scheme \<Rightarrow> TimerKey \<Rightarrow> path \<Rightarrow> DueTimerEntry \<Rightarrow> unit result" where
  "checkDueEntry W key path entry =
     (if isl (validateDueEntry W (dueRoot (Namespace (withDefaults key))) path entry
               (entry_timerKey entry) (entry_workflowKey entry))
      then Inl (corruptRecordf ''invalid prepared due timer'')
      else if entry_timerKey entry \<noteq> withDefaults key
      then Inl (corruptRecordf ''prepared due timer key does not match requested key'')
      else Inr ())"

definition getDueEntry ::
  "('s, 'b, 'm) env_scheme \<Rightarrow> context \<Rightarrow> TimerKey \<Rightarrow> ('s, DueTimerEntry option) prog" where
  "getDueEntry X ctx key =
     andThen (ctx_Err X ctx) (\<lambda>_.
     andThen (lift (dueEntryPath key)) (\<lambda>path.
     andThen (op_IsExist X path) (\<lambda>exists.
     if \<not> exists then ret None else
     andThen (readListedProto X ctx path (unmarshal_due X)) (\<lambda>entry.
     andThen (lift (checkDueEntry X key path entry)) (\<lambda>_.
     ret (Some entry))))))"

definition putDueEntry ::
  "('s, 'b, 'm) env_scheme \<Rightarrow> context \<Rightarrow> TimerRecord \<Rightarrow> ('s, path) prog" where
  "putDueEntry X ctx record =
     (let key = withDefaults (TimerKeyFromProto (tr_Key record)) in
      andThen (lift (ValidateTimerRecord (Some record) key)) (\<lambda>_.
      if tr_Status record = TIMER_STATUS_SCHEDULED \<and> tr_FireAt record = None
      then fail (Plain ''scheduled due timer fire_at is required'')
      else if tr_Status record \<notin> {TIMER_STATUS_SCHEDULED, TIMER_STATUS_FIRED, TIMER_STATUS_CANCELED}
      then fail (Plain ''due timer status must be SCHEDULED, FIRED, or CANCELED'')
      else if tr_FireAt record \<noteq> None \<and> \<not> checkValid X (tr_FireAt record)
      then fail (Wrapped ''invalid due timer fire_at'' [Plain ''invalid timestamp''])
      else
      andThen (lift (dueEntryPath key)) (\<lambda>path.
      let entry = \<lparr>de_Key = Some (Proto key), de_WorkflowKey = Some (Proto (runKey key)),
                   de_FireAt = tr_FireAt record, de_Record = Some record\<rparr> in
      andThen (lift (marshal_due X entry)) (\<lambda>data.
      andThen (op_CreateDir X (parent_dir path)) (\<lambda>_.
      andThen (ctx_Err X ctx) (\<lambda>_.
      andThen (op_Write X path data) (\<lambda>_.
      ret path)))))))"

section \<open>Timer records\<close>

definition GetTimer ::
  "('s, 'b, 'm) env_scheme \<Rightarrow> context \<Rightarrow> TimerKey \<Rightarrow> ('s, TimerRecord option) prog" where
  "GetTimer X ctx key =
     andThen (getDueEntry X ctx key) (\<lambda>prepared.
     case prepared of
       Some entry \<Rightarrow>
         if map_option tr_Status (de_Record entry) = Some TIMER_STATUS_CANCELED
         then ret None
         else ret (de_Record entry)
     | None \<Rightarrow> getTimerPoint X ctx key)"

definition PutTimer ::
  "('s, 'b, 'm) env_scheme \<Rightarrow> context \<Rightarrow> TimerRecord \<Rightarrow> ('s, unit) prog" where
  "PutTimer X ctx record =
     andThen (ctx_Err X ctx) (\<lambda>_.
     let key = withDefaults (TimerKeyFromProto (tr_Key record)) in
     andThen (lift (ValidateTimerRecord (Some record) key)) (\<lambda>_.
     andThen (lift (TimerKey_Path key)) (\<lambda>path.
     andThen (lift (TimerKey_DirPath key)) (\<lambda>dir.
     andThen (lift (marshal_timer X record)) (\<lambda>data.
     andThen (op_CreateDir X dir) (\<lambda>_.
     andThen (ctx_Err X ctx) (\<lambda>_.
     andThen (putDueEntry X ctx record) (\<lambda>_.
     op_Write X path data))))))))"

text \<open>The minimal exact-key tombstone for a point whose bytes are damaged.\<close>

definition minimalTombstone :: "TimerKey \<Rightarrow> TimerRecord" where
  "minimalTombstone key =
     \<lparr>tr_SchemaVersion = RECORD_SCHEMA_VERSION_TIMER, tr_Key = Some (Proto (withDefaults key)),
      tr_TimerKind = TIMER_KIND_UNSPECIFIED, tr_Duration = None,
      tr_Status = TIMER_STATUS_CANCELED, tr_FireAt = None, tr_CreatedAt = None,
      tr_FiredAt = None, tr_RetryActivityId = []\<rparr>"

definition DeleteTimer ::
  "('s, 'b, 'm) env_scheme \<Rightarrow> context \<Rightarrow> TimerKey \<Rightarrow> ('s, bool) prog" where
  "DeleteTimer X ctx key =
     andThen (ctx_Err X ctx) (\<lambda>_.
     andThen (lift (TimerKey_Path key)) (\<lambda>path.
     andThen (op_IsExist X path) (\<lambda>pointExists.
     andThen (getDueEntry X ctx key) (\<lambda>ledger.
     if \<not> pointExists \<and>
        (case ledger of None \<Rightarrow> True
         | Some entry \<Rightarrow> map_option tr_Status (de_Record entry) = Some TIMER_STATUS_CANCELED)
     then ret False
     else
     andThen (case ledger of
                Some entry \<Rightarrow> ret (de_Record entry)
              | None \<Rightarrow>
                  andThen (attempt (getTimerPoint X ctx key)) (\<lambda>point.
                  case point of
                    Inl pointErr \<Rightarrow>
                      if errors_Is pointErr ErrCorruptRecord then ret (Some (minimalTombstone key))
                      else fail pointErr
                  | Inr found \<Rightarrow> ret found)) (\<lambda>tombstone.
     andThen (case tombstone of
                None \<Rightarrow> ret ()
              | Some record \<Rightarrow>
                  andThen (putDueEntry X ctx
                    (record\<lparr>tr_Status := TIMER_STATUS_CANCELED, tr_FiredAt := None\<rparr>)) (\<lambda>_. ret ()))
       (\<lambda>_.
     andThen (deleteIfExists X path) (\<lambda>_.
     ret True)))))))"

section \<open>What readers see\<close>

definition due_at ::
  "('b, 'm) codec_scheme \<Rightarrow> (path \<Rightarrow> 'b option) \<Rightarrow> TimerKey \<Rightarrow> DueTimerEntry option" where
  "due_at X obs k = point_at obs (dueEntryPath k) (unmarshal_due X)
     (\<lambda>e. checkDueEntry X k (projr (dueEntryPath k)) e)"

text \<open>Whether the timer has a ledger object at all, valid or not.\<close>

definition has_ledger :: "(path \<Rightarrow> 'b option) \<Rightarrow> TimerKey \<Rightarrow> bool" where
  "has_ledger obs k \<longleftrightarrow> (\<exists>p. dueEntryPath k = Inr p \<and> obs p \<noteq> None)"

definition shown :: "TimerRecord \<Rightarrow> TimerRecord option" where
  "shown r = (if tr_Status r = TIMER_STATUS_CANCELED then None else Some r)"

definition timer_view ::
  "('b, 'm) codec_scheme \<Rightarrow> (path \<Rightarrow> 'b option) \<Rightarrow> TimerKey \<Rightarrow> TimerRecord option" where
  "timer_view X obs k =
     (if has_ledger obs k
      then (case due_at X obs k of None \<Rightarrow> None | Some e \<Rightarrow> Option.bind (de_Record e) shown)
      else timer_at X obs k)"

abbreviation timer_key :: "TimerRecord \<Rightarrow> TimerKey" where
  "timer_key r \<equiv> withDefaults (TimerKeyFromProto (tr_Key r))"

text \<open>The records the ledger accepts, and the entry it stores for one.\<close>

definition due_ready :: "'m wkt_scheme \<Rightarrow> TimerRecord \<Rightarrow> bool" where
  "due_ready W r \<longleftrightarrow> ValidateTimerRecord (Some r) (timer_key r) = Inr () \<and>
     tr_Status r \<in> {TIMER_STATUS_SCHEDULED, TIMER_STATUS_FIRED, TIMER_STATUS_CANCELED} \<and>
     (tr_Status r = TIMER_STATUS_SCHEDULED \<longrightarrow> tr_FireAt r \<noteq> None) \<and>
     (tr_FireAt r \<noteq> None \<longrightarrow> checkValid W (tr_FireAt r))"

definition entry_for :: "TimerRecord \<Rightarrow> DueTimerEntry" where
  "entry_for r = \<lparr>de_Key = Some (timer_key r), de_WorkflowKey = Some (runKey (timer_key r)),
     de_FireAt = tr_FireAt r, de_Record = Some r\<rparr>"

definition due_upd ::
  "('b, 'm) codec_scheme \<Rightarrow> TimerRecord \<Rightarrow> (path \<Rightarrow> 'b option) \<Rightarrow> (path \<Rightarrow> 'b option) \<Rightarrow> bool" where
  "due_upd X r obs obs' \<longleftrightarrow> due_ready X r \<and> (\<exists>p b. dueEntryPath (timer_key r) = Inr p \<and>
     marshal_due X (entry_for r) = Inr b \<and> obs' = obs(p \<mapsto> b))"

definition timer_upd ::
  "('b, 'm) codec_scheme \<Rightarrow> TimerRecord \<Rightarrow> (path \<Rightarrow> 'b option) \<Rightarrow> (path \<Rightarrow> 'b option) \<Rightarrow> bool" where
  "timer_upd X r obs obs' \<longleftrightarrow> ValidateTimerRecord (Some r) (timer_key r) = Inr () \<and>
     (\<exists>p b. TimerKey_Path (timer_key r) = Inr p \<and> marshal_timer X r = Inr b \<and> obs' = obs(p \<mapsto> b))"

section \<open>Library lemmas\<close>

lemma validateDueEntry_ok:
  "validateDueEntry W rt p e tk wk = Inr u \<longleftrightarrow>
     (\<exists>r. de_Record e = Some r \<and> TimerKey_Validate tk = Inr () \<and> WorkflowKey_Validate wk = Inr () \<and>
        sameWorkflowRun wk (runKey tk) \<and> dueRoot (Namespace tk) = rt \<and>
        ValidateTimerRecord (Some r) tk = Inr () \<and>
        tr_Status r \<in> {TIMER_STATUS_SCHEDULED, TIMER_STATUS_FIRED, TIMER_STATUS_CANCELED} \<and>
        (tr_Status r = TIMER_STATUS_SCHEDULED \<longrightarrow> tr_FireAt r \<noteq> None) \<and>
        (tr_FireAt r = None) = (de_FireAt e = None) \<and>
        (tr_FireAt r \<noteq> None \<longrightarrow> checkValid W (tr_FireAt r) \<and> checkValid W (de_FireAt e) \<and>
           asTime W (tr_FireAt r) = asTime W (de_FireAt e)) \<and>
        dueEntryPath tk = Inr p)"
  by (cases "de_Record e"; cases "TimerKey_Validate tk"; cases "WorkflowKey_Validate wk";
      cases "ValidateTimerRecord (Some (the (de_Record e))) tk"; cases "dueEntryPath tk")
     (auto simp: validateDueEntry_def)

lemma checkDueEntry_ok:
  "checkDueEntry W k p e = Inr u \<longleftrightarrow>
     validateDueEntry W (dueRoot (Namespace (withDefaults k))) p e (entry_timerKey e) (entry_workflowKey e) = Inr () \<and>
     entry_timerKey e = withDefaults k"
  by (cases "validateDueEntry W (dueRoot (Namespace (withDefaults k))) p e (entry_timerKey e) (entry_workflowKey e)")
     (auto simp: checkDueEntry_def)

lemma dueEntryPath_withDefaults: "dueEntryPath (withDefaults k) = dueEntryPath k"
  by (simp add: dueEntryPath_def)

lemma TimerKey_Path_withDefaults: "TimerKey_Path (withDefaults k) = TimerKey_Path k"
  by (simp add: TimerKey_Path_def)

lemma checkDueEntry_record:
  assumes "checkDueEntry W k p e = Inr u"
  shows "\<exists>r. de_Record e = Some r \<and> due_ready W r \<and> timer_key r = withDefaults k \<and>
    (tr_FireAt r = None \<longleftrightarrow> de_FireAt e = None) \<and>
    (tr_FireAt r \<noteq> None \<longrightarrow> asTime W (tr_FireAt r) = asTime W (de_FireAt e)) \<and>
    entry_workflowKey e = runKey (withDefaults k)"
proof -
  obtain r where r: "de_Record e = Some r" "ValidateTimerRecord (Some r) (withDefaults k) = Inr ()"
    "tr_Status r \<in> {TIMER_STATUS_SCHEDULED, TIMER_STATUS_FIRED, TIMER_STATUS_CANCELED}"
    "tr_Status r = TIMER_STATUS_SCHEDULED \<longrightarrow> tr_FireAt r \<noteq> None"
    "(tr_FireAt r = None) = (de_FireAt e = None)"
    "tr_FireAt r \<noteq> None \<longrightarrow> checkValid W (tr_FireAt r) \<and> asTime W (tr_FireAt r) = asTime W (de_FireAt e)"
    "sameWorkflowRun (entry_workflowKey e) (runKey (withDefaults k))"
    using assms unfolding checkDueEntry_ok validateDueEntry_ok by auto
  moreover have "timer_key r = withDefaults k" using r(2) by (simp add: ValidateTimerRecord_ok)
  moreover have "entry_workflowKey e = runKey (withDefaults k)"
    using r(7) by (simp add: sameWorkflowRun_iff runKey_withDefaults)
  ultimately show ?thesis by (auto simp: due_ready_def)
qed

lemma checkDueEntry_entry_for:
  assumes "due_ready W r" "withDefaults k = timer_key r" "dueEntryPath k = Inr p"
  shows "checkDueEntry W k p (entry_for r) = Inr ()"
proof -
  have "TimerKey_Validate (timer_key r) = Inr ()" "WorkflowKey_Validate (runKey (timer_key r)) = Inr ()"
    using assms(1) by (auto simp: due_ready_def ValidateTimerRecord_ok key_Validates TimerKey_rules_def
        WorkflowKey_rules_runKey simp flip: runKey_withDefaults)
  then show ?thesis
    using assms dueEntryPath_withDefaults [of k]
    by (auto simp: checkDueEntry_ok validateDueEntry_ok entry_for_def due_ready_def sameWorkflowRun_iff
        runKey_withDefaults)
qed

lemma due_at_withDefaults: "due_at X obs (withDefaults k) = due_at X obs k"
  by (simp add: due_at_def checkDueEntry_def dueEntryPath_withDefaults cong: if_cong)

lemma has_ledger_withDefaults: "has_ledger obs (withDefaults k) = has_ledger obs k"
  by (simp add: has_ledger_def dueEntryPath_withDefaults)

lemma timer_at_withDefaults: "timer_at X obs (withDefaults k) = timer_at X obs k"
  by (simp add: timer_at_def TimerKey_Path_withDefaults ValidateTimerRecord_def Let_def cong: if_cong)

lemma timer_view_withDefaults: "timer_view X obs (withDefaults k) = timer_view X obs k"
  by (simp add: timer_view_def due_at_withDefaults has_ledger_withDefaults timer_at_withDefaults)

lemma dueEntryPath_ok:
  "ValidateTimerRecord (Some r) k = Inr () \<Longrightarrow> \<exists>p. dueEntryPath k = Inr p"
  by (auto simp: ValidateTimerRecord_ok dueEntryPath_def key_Validates)

lemma due_not_timer: "dueEntryPath k = Inr p \<Longrightarrow> TimerKey_Path k' \<noteq> Inr p"
  using object_path_distinct [of "ObjDue k" "ObjTimer k'" p] by simp

context opendal_laws
begin

lemma due_upd_view:
  assumes "due_upd X r obs obs'"
  shows "due_at X obs' = (\<lambda>k. if withDefaults k = timer_key r then Some (entry_for r) else due_at X obs k)"
    and "has_ledger obs' = (\<lambda>k. withDefaults k = timer_key r \<or> has_ledger obs k)"
    and "timer_at X obs' = timer_at X obs"
proof -
  obtain p b where p: "dueEntryPath (timer_key r) = Inr p" "due_ready X r"
    "marshal_due X (entry_for r) = Inr b" "obs' = obs(p \<mapsto> b)"
    using assms by (auto simp: due_upd_def)
  note same = Path_eq_iff(5) [OF p(1), unfolded withDefaults_idem]
  show "due_at X obs' = (\<lambda>k. if withDefaults k = timer_key r then Some (entry_for r) else due_at X obs k)"
  proof
    fix k
    have "checkDueEntry X k (projr (dueEntryPath k)) (entry_for r) = Inr ()" if "withDefaults k = timer_key r"
      using checkDueEntry_entry_for [OF p(2) that, of p] same [of k] that by simp
    then show "due_at X obs' k = (if withDefaults k = timer_key r then Some (entry_for r) else due_at X obs k)"
      using same due_roundtrip [OF p(3)] by (simp add: p(4) due_at_def point_at_write)
  qed
  show "has_ledger obs' = (\<lambda>k. withDefaults k = timer_key r \<or> has_ledger obs k)"
  proof
    fix k
    show "has_ledger obs' k = (withDefaults k = timer_key r \<or> has_ledger obs k)"
      using same [of k] by (cases "dueEntryPath k = Inr p") (auto simp: has_ledger_def p(4))
  qed
  show "timer_at X obs' = timer_at X obs"
    using due_not_timer [OF p(1)] by (simp add: timer_at_def point_at_write p(4) fun_eq_iff)
qed

lemma timer_view_due_upd:
  assumes "due_upd X r obs obs'"
  shows "timer_view X obs' = (\<lambda>k. if withDefaults k = timer_key r then shown r else timer_view X obs k)"
  using due_upd_view [OF assms] by (auto simp: timer_view_def fun_eq_iff entry_for_def)

lemma timer_upd_view:
  assumes "timer_upd X r obs obs'"
  shows "timer_at X obs' = (\<lambda>k. if withDefaults k = timer_key r then Some r else timer_at X obs k)"
    and "due_at X obs' = due_at X obs" and "has_ledger obs' = has_ledger obs"
proof -
  obtain p b where p: "TimerKey_Path (timer_key r) = Inr p" "marshal_timer X r = Inr b" "obs' = obs(p \<mapsto> b)"
    and v: "ValidateTimerRecord (Some r) (timer_key r) = Inr ()"
    using assms by (auto simp: timer_upd_def)
  note same = Path_eq_iff(3) [OF p(1), unfolded withDefaults_idem]
  have other: "dueEntryPath k \<noteq> Inr p" for k using due_not_timer [of k p] p(1) by auto
  show "timer_at X obs' = (\<lambda>k. if withDefaults k = timer_key r then Some r else timer_at X obs k)"
    using v same timer_roundtrip [OF p(2)]
    by (intro ext) (simp add: p(3) timer_at_def point_at_write ValidateTimerRecord_ok)
  show "due_at X obs' = due_at X obs"
    using other by (simp add: due_at_def point_at_write p(3) fun_eq_iff)
  show "has_ledger obs' = has_ledger obs"
  proof
    fix k
    show "has_ledger obs' k = has_ledger obs k"
      using other [of k] by (cases "dueEntryPath k") (auto simp: has_ledger_def p(3))
  qed
qed

lemma timer_view_timer_upd:
  assumes "timer_upd X r obs obs'" "has_ledger obs (timer_key r)"
  shows "timer_view X obs' = timer_view X obs"
proof (rule ext)
  fix k
  have "withDefaults k = timer_key r \<Longrightarrow> has_ledger obs k"
    using assms(2) has_ledger_withDefaults [of obs k] by simp
  then show "timer_view X obs' k = timer_view X obs k"
    using timer_upd_view [OF assms(1)] by (simp add: timer_view_def)
qed

end

text \<open>The record a delete publishes as the timer's tombstone.\<close>

definition tombstone :: "TimerRecord \<Rightarrow> TimerRecord" where
  "tombstone r = r\<lparr>tr_Status := TIMER_STATUS_CANCELED, tr_FiredAt := None\<rparr>"

lemma shown_tombstone [simp]: "shown (tombstone r) = None" "timer_key (tombstone r) = timer_key r"
  by (simp_all add: shown_def tombstone_def)

lemma timer_key_minimal [simp]: "timer_key (minimalTombstone k) = withDefaults k"
  by (simp add: minimalTombstone_def Proto_def)

context opendal_laws
begin

lemma wp_getDueEntry:
  assumes "\<And>r s1. objs s1 = objs s \<Longrightarrow> dirs s1 = dirs s \<Longrightarrow> r = due_at X (objs s) k \<Longrightarrow>
      has_ledger (objs s) k = (r \<noteq> None) \<Longrightarrow> Q r s1"
    and "\<And>e s1. objs s1 = objs s \<Longrightarrow> dirs s1 = dirs s \<Longrightarrow> E e s1"
  shows "wpre (getDueEntry X c k) Q E s"
  unfolding getDueEntry_def
  using assms
  by (auto simp: wp due_at_def point_at_def has_ledger_def intro!: wp_ctx wp_exist wp_readListed Path_file(5)
      split: sum.splits)

lemma entry_for_alt:
  "entry_for r = \<lparr>de_Key = Some (Proto (timer_key r)), de_WorkflowKey = Some (Proto (runKey (timer_key r))),
     de_FireAt = tr_FireAt r, de_Record = Some r\<rparr>"
  by (simp add: entry_for_def Proto_def flip: runKey_withDefaults)

lemma wp_putDueEntry:
  assumes "\<And>p s1. due_upd X r (objs s) (objs s1) \<Longrightarrow> Q p s1"
    and "\<And>e s1. due_upd X r (objs s) (objs s1) \<Longrightarrow> E e s1"
    and "\<And>e s1. objs s1 = objs s \<Longrightarrow> E e s1"
  shows "wpre (putDueEntry X c r) Q E s"
  unfolding putDueEntry_def Let_def entry_for_alt [symmetric]
  using assms
  by (auto simp: wp due_upd_def due_ready_def intro!: ops Path_file(5) split: sum.splits)

lemma wp_GetTimer:
  assumes "\<And>s1. objs s1 = objs s \<Longrightarrow> dirs s1 = dirs s \<Longrightarrow> Q (timer_view X (objs s) k) s1"
    and "\<And>e s1. objs s1 = objs s \<Longrightarrow> dirs s1 = dirs s \<Longrightarrow> E e s1"
  shows "wpre (GetTimer X c k) Q E s"
  unfolding GetTimer_def wpre_andThen
proof (rule wp_getDueEntry, goal_cases)
  case (1 r s1)
  show ?case
  proof (cases r)
    case None
    then show ?thesis
      using 1 assms by (auto simp: timer_view_def intro!: wpre_mono [OF getTimerPoint_spec])
  next
    case (Some e)
    then show ?thesis
      using 1 assms(1) [of s1] by (cases "de_Record e") (auto simp: wp timer_view_def shown_def)
  qed
qed (use assms in auto)

text \<open>A complete timer write: the ledger entry, then the point record.\<close>

definition timer_both :: "TimerRecord \<Rightarrow> (path \<Rightarrow> 'b option) \<Rightarrow> (path \<Rightarrow> 'b option) \<Rightarrow> bool" where
  "timer_both r obs obs' \<longleftrightarrow> (\<exists>obs1. due_upd X r obs obs1 \<and> timer_upd X r obs1 obs')"

lemma timer_bothI:
  "due_upd X r obs obs1 \<Longrightarrow> ValidateTimerRecord (Some r) (timer_key r) = Inr () \<Longrightarrow>
   TimerKey_Path (timer_key r) = Inr p \<Longrightarrow> marshal_timer X r = Inr b \<Longrightarrow>
   timer_both r obs (obs1(p \<mapsto> b))"
  unfolding timer_both_def timer_upd_def by blast

lemma PutTimer_spec:
  "wpre (PutTimer X c r) (\<lambda>_ s1. timer_both r (objs s) (objs s1))
     (\<lambda>e s1. timer_both r (objs s) (objs s1) \<or> due_upd X r (objs s) (objs s1) \<or> objs s1 = objs s) s"
  unfolding PutTimer_def Let_def
  by (auto simp: wp simp flip: Path_object
      intro!: wp_putDueEntry ops Path_file(3) timer_bothI split: sum.splits)

lemma timer_view_put:
  assumes "timer_both r obs obs'"
  shows "timer_view X obs' = (\<lambda>k. if withDefaults k = timer_key r then shown r else timer_view X obs k)"
proof -
  obtain obs1 where 1: "due_upd X r obs obs1" "timer_upd X r obs1 obs'"
    using assms by (auto simp: timer_both_def)
  have "has_ledger obs1 (timer_key r)" by (simp add: due_upd_view(2) [OF 1(1)])
  then show ?thesis
    using 1(2) timer_view_due_upd [OF 1(1)] timer_view_timer_upd [of r obs1 obs'] by auto
qed

text \<open>What a delete leaves: a tombstone of the key, and the point record or not.\<close>

definition timer_gone :: "TimerKey \<Rightarrow> (path \<Rightarrow> 'b option) \<Rightarrow> (path \<Rightarrow> 'b option) \<Rightarrow> bool" where
  "timer_gone k obs obs' \<longleftrightarrow>
     (\<exists>r obs1. timer_key r = withDefaults k \<and> due_upd X (tombstone r) obs obs1 \<and>
        (obs' = obs1 \<or> (\<exists>p. TimerKey_Path k = Inr p \<and> obs' = obs1(p := None))))"

lemma timer_goneI:
  "timer_key r = withDefaults k \<Longrightarrow> due_upd X (tombstone r) obs obs1 \<Longrightarrow> timer_gone k obs obs1"
  "timer_key r = withDefaults k \<Longrightarrow> due_upd X (tombstone r) obs obs1 \<Longrightarrow> TimerKey_Path k = Inr p \<Longrightarrow>
     timer_gone k obs (obs1(p := None))"
  unfolding timer_gone_def by blast+

lemma view_point_deleted:
  assumes "TimerKey_Path k = Inr p" "has_ledger obs k"
  shows "timer_view X (obs(p := None)) = timer_view X obs"
proof (rule ext)
  fix k'
  have due: "dueEntryPath k' \<noteq> Inr p" using due_not_timer [of k' p k] assms(1) by auto
  have "has_ledger (obs(p := None)) k' = has_ledger obs k'" "due_at X (obs(p := None)) k' = due_at X obs k'"
    using due by (cases "dueEntryPath k'"; auto simp: has_ledger_def due_at_def point_at_delete)+
  moreover have "withDefaults k' = withDefaults k \<Longrightarrow> has_ledger obs k'"
    using assms(2) has_ledger_withDefaults [of obs k] has_ledger_withDefaults [of obs k'] by simp
  ultimately show "timer_view X (obs(p := None)) k' = timer_view X obs k'"
    by (simp add: timer_view_def view_deleted(3) [OF assms(1)])
qed

lemma timer_view_gone:
  assumes "timer_gone k obs obs'"
  shows "timer_view X obs' = (\<lambda>k'. if withDefaults k' = withDefaults k then None else timer_view X obs k')"
proof -
  obtain r obs1 where r: "timer_key r = withDefaults k" "due_upd X (tombstone r) obs obs1"
    "obs' = obs1 \<or> (\<exists>p. TimerKey_Path k = Inr p \<and> obs' = obs1(p := None))"
    using assms by (auto simp: timer_gone_def)
  have "has_ledger obs1 k" by (simp add: due_upd_view(2) [OF r(2)] r(1))
  then have "timer_view X obs' = timer_view X obs1" using r(3) view_point_deleted by auto
  then show ?thesis using timer_view_due_upd [OF r(2)] r(1) by (simp cong: if_cong)
qed

lemma wp_publish_tombstone:
  assumes p: "TimerKey_Path k = Inr p" and k: "\<And>r. t = Some r \<Longrightarrow> timer_key r = withDefaults k"
    and "t \<noteq> None"
    and Q: "\<And>v s1. timer_gone k (objs s) (objs s1) \<Longrightarrow> Q v s1"
    and E: "\<And>e s1. timer_gone k (objs s) (objs s1) \<or> objs s1 = objs s \<Longrightarrow> E e s1"
  shows "wpre (andThen (case t of None \<Rightarrow> ret ()
              | Some record \<Rightarrow> andThen (putDueEntry X c
                    (record\<lparr>tr_Status := TIMER_STATUS_CANCELED, tr_FiredAt := None\<rparr>)) (\<lambda>_. ret ()))
       (\<lambda>_. andThen (deleteIfExists X p) (\<lambda>_. ret True))) Q E s"
proof -
  obtain r where r: "t = Some r" "timer_key r = withDefaults k" using assms(3) k by auto
  have fp: "file_path p" by (rule Path_file(3) [OF p])
  show ?thesis
    using timer_goneI(1) [OF r(2)] timer_goneI(2) [OF r(2) _ p]
    by (auto simp: wp r(1) simp flip: tombstone_def intro!: wp_putDueEntry wp_deleteIfExists fp Q E)
qed

lemma due_at_record:
  assumes "due_at X obs k = Some e"
  shows "\<exists>r. de_Record e = Some r \<and> timer_key r = withDefaults k \<and> due_ready X r"
  using assms checkDueEntry_record by (auto simp: due_at_def point_at_Some) blast

lemma timer_at_key: "timer_at X obs k = Some r \<Longrightarrow> timer_key r = withDefaults k"
  by (auto simp: timer_at_def point_at_Some ValidateTimerRecord_ok)

lemma DeleteTimer_spec:
  "wpre (DeleteTimer X c k)
     (\<lambda>_ s1. timer_gone k (objs s) (objs s1) \<or> objs s1 = objs s \<and> timer_view X (objs s) k = None)
     (\<lambda>_ s1. timer_gone k (objs s) (objs s1) \<or> objs s1 = objs s) s"
  (is "wpre _ ?Q ?E s")
proof -
  define publish where "publish t p = andThen (case t of None \<Rightarrow> ret ()
              | Some record \<Rightarrow> andThen (putDueEntry X c
                    (record\<lparr>tr_Status := TIMER_STATUS_CANCELED, tr_FiredAt := None\<rparr>)) (\<lambda>_. ret ()))
       (\<lambda>_. andThen (deleteIfExists X p) (\<lambda>_. ret True))" for t p
  have pub: "wpre (publish t p) Q E s1"
    if "TimerKey_Path k = Inr p" "\<exists>r. t = Some r \<and> timer_key r = withDefaults k" "objs s1 = objs s"
      "\<And>v s1. timer_gone k (objs s) (objs s1) \<Longrightarrow> Q v s1"
      "\<And>e s1. timer_gone k (objs s) (objs s1) \<or> objs s1 = objs s \<Longrightarrow> E e s1" for t p s1 Q E
    unfolding publish_def using that by (intro wp_publish_tombstone [of k]) auto
  define settle where "settle p pointExists ledger = (if \<not> pointExists \<and> (case ledger of None \<Rightarrow> True
         | Some entry \<Rightarrow> map_option tr_Status (de_Record entry) = Some TIMER_STATUS_CANCELED)
       then ret False
       else andThen (case ledger of Some entry \<Rightarrow> ret (de_Record entry)
              | None \<Rightarrow> andThen (attempt (getTimerPoint X c k)) (\<lambda>point. case point of
                    Inl pointErr \<Rightarrow> if errors_Is pointErr ErrCorruptRecord
                      then ret (Some (minimalTombstone k)) else fail pointErr
                  | Inr found \<Rightarrow> ret found)) (\<lambda>t. publish t p))" for p pointExists and ledger :: "DueTimerEntry option"
  have decide: "wpre (settle p (objs s p \<noteq> None) ledger) ?Q ?E s1"
    if p: "TimerKey_Path k = Inr p" and s1: "objs s1 = objs s"
      and l: "ledger = due_at X (objs s) k" "has_ledger (objs s) k = (ledger \<noteq> None)" for p ledger s1
  proof (cases ledger)
    case None
    have "timer_view X (objs s) k = None" if "objs s p = None"
      using that None l p by (auto simp: timer_view_def timer_at_def point_at_def)
    then show ?thesis
      using None p s1 timer_at_key
      by (auto simp: wp settle_def intro!: wpre_mono [OF getTimerPoint_spec] pub split: if_splits)
  next
    case (Some e)
    then obtain r where r: "de_Record e = Some r" "timer_key r = withDefaults k"
      using due_at_record l(1) by metis
    moreover have "timer_view X (objs s) k = shown r"
      using l(2) Some r trans [OF l(1) [symmetric] Some] by (simp add: timer_view_def)
    ultimately show ?thesis
      using Some p s1 by (auto simp: wp settle_def shown_def intro!: pub)
  qed
  show ?thesis
    unfolding DeleteTimer_def publish_def [symmetric] settle_def [symmetric]
    by (auto simp: wpre_andThen wpre_lift intro!: wp_ctx wp_exist wp_getDueEntry Path_file(3)
        decide [unfolded not_None_eq] split: sum.splits)
qed

lemma wp_GetTimer_spec:
  "wpre (GetTimer X c k) (\<lambda>v s1. objs s1 = objs s \<and> v = timer_view X (objs s) k)
     (\<lambda>e s1. objs s1 = objs s \<and> True) s"
  by (rule wp_GetTimer) auto

end

sublocale opendal_laws \<subseteq> timers: record_store "GetTimer X c" "PutTimer X c" "DeleteTimer X c"
  "\<lambda>s. timer_view X (objs s)" "\<lambda>r. TimerKeyFromProto (tr_Key r)"
  "\<lambda>k k'. withDefaults k = withDefaults k'" "\<lambda>r. tr_Status r \<noteq> TIMER_STATUS_CANCELED" for c
proof (unfold_locales, goal_cases)
  case (1 k s v s1)
  then show ?case using wpre_InrD [OF wp_GetTimer_spec] by blast
next
  case (2 k)
  show ?case by (rule keeps_from_wpre, rule wp_GetTimer_spec)
next
  case (3 r s u s1 k)
  then show ?case using timer_view_put [OF wpre_InrD [OF PutTimer_spec 3]] by (simp add: shown_def)
next
  case (4 r s e s1)
  then show ?case
    using wpre_InlD [OF PutTimer_spec 4] timer_view_put [of r "objs s" "objs s1"]
      timer_view_due_upd [of r "objs s" "objs s1"]
    by (auto simp: shown_def)
next
  case (5 k s w s1 k')
  then show ?case
    using wpre_InrD [OF DeleteTimer_spec 5] timer_view_gone [of k "objs s" "objs s1"]
      timer_view_withDefaults [of X "objs s"] by auto metis
next
  case (6 k s e s1)
  then show ?case
    using wpre_InlD [OF DeleteTimer_spec 6] timer_view_gone [of k "objs s" "objs s1"] by auto
qed simp

context opendal_laws
begin

lemma timer_put_view:
  assumes "PutTimer X c r s = (res, s1)"
  shows "timer_view X (objs s1) =
        (\<lambda>k. if withDefaults k = timer_key r then shown r else timer_view X (objs s) k) \<or>
      isl res \<and> timer_view X (objs s1) = timer_view X (objs s)"
proof (cases res)
  case (Inl e)
  then show ?thesis
    using wpre_InlD [OF PutTimer_spec, of c r s e s1] assms timer_view_put [of r "objs s" "objs s1"]
      timer_view_due_upd [of r "objs s" "objs s1"] by auto
next
  case (Inr u)
  then show ?thesis
    using timer_view_put [OF wpre_InrD [OF PutTimer_spec]] assms by blast
qed

lemma timer_put_again:
  assumes "timer_view X (objs s1) =
        (\<lambda>k. if withDefaults k = timer_key r then shown r else timer_view X (objs s) k) \<or>
      b \<and> timer_view X (objs s1) = timer_view X (objs s)"
    and "PutTimer X c r s1 = (Inr u, s2)"
  shows "timer_view X (objs s2) =
    (\<lambda>k. if withDefaults k = timer_key r then shown r else timer_view X (objs s) k)"
  using assms(1) timer_view_put [OF wpre_InrD [OF PutTimer_spec assms(2)]] by auto

end

section \<open>Properties of timer records\<close>

text \<open>
  C9. A timer write is atomic although it writes two objects. Whatever \<open>PutTimer\<close> returned,
  so also when the process lost its backend between the ledger write and the point write, a
  later successful \<open>GetTimer\<close> of any key sees the new record (nothing, if it is canceled) for
  that record's key and the old contents for every other key, or, only when the write reported
  an error, the old contents throughout. Retrying a write that failed gives what one
  successful write gives.
\<close>

theorem timer_write_atomic:
  assumes "opendal_laws X objs dirs"
    and "PutTimer X ctx r s = (res, s1)"
  shows "(\<forall>ctx' k v s2. GetTimer X ctx' k s1 = (Inr v, s2) \<longrightarrow>
           v = (if withDefaults k = timer_key r then shown r else timer_view X (objs s) k) \<or>
           isl res \<and> v = timer_view X (objs s) k) \<and>
         (\<forall>ctx' u s2. PutTimer X ctx' r s1 = (Inr u, s2) \<longrightarrow>
           timer_view X (objs s2) =
             (\<lambda>k. if withDefaults k = timer_key r then shown r else timer_view X (objs s) k))"
proof -
  have view: "timer_view X (objs s1) =
        (\<lambda>k. if withDefaults k = timer_key r then shown r else timer_view X (objs s) k) \<or>
      isl res \<and> timer_view X (objs s1) = timer_view X (objs s)"
    using opendal_laws.timer_put_view [OF assms] .
  show ?thesis
  proof (intro conjI allI impI)
    fix ctx' k v s2 assume "GetTimer X ctx' k s1 = (Inr v, s2)"
    from wpre_InrD [OF opendal_laws.wp_GetTimer_spec [OF assms(1)] this] view
    show "v = (if withDefaults k = timer_key r then shown r else timer_view X (objs s) k) \<or>
        isl res \<and> v = timer_view X (objs s) k" by auto
  qed (rule opendal_laws.timer_put_again [OF assms(1) view])
qed

definition timer_example :: TimerRecord where
  "timer_example = \<lparr>tr_SchemaVersion = RECORD_SCHEMA_VERSION_TIMER,
     tr_Key = Some (NewTimerKey ''orders'' ''r1'' ''wait''), tr_TimerKind = TIMER_KIND_SLEEP,
     tr_Duration = None, tr_Status = TIMER_STATUS_SCHEDULED,
     tr_FireAt = Some (Timestamp_New protobuf_wkt 0), tr_CreatedAt = None, tr_FiredAt = None,
     tr_RetryActivityId = []\<rparr>"

text \<open>A write that loses its backend after the ledger entry is still read back.\<close>

theorem timer_write_atomic_witness:
  "isl (fst (PutTimer mem_env Caller timer_example (empty_memory\<lparr>mem_budget := Some 1\<rparr>))) \<and>
   fst (GetTimer mem_env Caller (NewTimerKey ''orders'' ''r1'' ''wait'')
     (snd (PutTimer mem_env Caller timer_example (empty_memory\<lparr>mem_budget := Some 1\<rparr>)))) =
   Inr (Some timer_example)"
proof -
  define k where "k = NewTimerKey ''orders'' ''r1'' ''wait''"
  define w where "w = PutTimer mem_env Caller timer_example (empty_memory\<lparr>mem_budget := Some 1\<rparr>)"
  define g where "g = GetTimer mem_env Caller k (snd w)"
  have w: "isl (fst w)" unfolding w_def by code_simp
  have g: "\<not> isl (fst g)" "projr (fst g) \<noteq> None" unfolding g_def w_def k_def by code_simp+
  have old: "timer_view mem_env (mem_lookup (empty_memory\<lparr>mem_budget := Some 1\<rparr>)) k = None"
    by (simp add: timer_view_def has_ledger_def timer_at_def point_at_def mem_lookup_def empty_memory_def
        split: sum.splits)
  have "withDefaults k = timer_key timer_example \<and> shown timer_example = Some timer_example"
    by (simp add: k_def timer_example_def shown_def)
  moreover note conjunct1 [OF timer_write_atomic [OF mem.opendal_laws_axioms run_Inl [OF w, unfolded w_def]],
    rule_format, OF run_Inr [OF g(1), unfolded g_def w_def]]
  ultimately have "projr (fst g) = Some timer_example"
    using g(2) old by (auto simp: g_def w_def split: if_splits)
  then show ?thesis using w run_Inr [OF g(1)] unfolding g_def w_def k_def by (metis fst_conv)
qed

end
