(* ===== verification/DueScan.thy ===== *)
theory DueScan
  imports TimerLedger "HOL-Library.AList"
begin

text \<open>
  The two readers of \<open>core/go/storage/opendal.go\<close> that go over many timers at once.
  \<open>ListTimers\<close> merges the ledger entries of a run with its point records; it returns exactly
  what point reads of the run return. \<open>DueTimers\<close> scans the due ledger, completes
  interrupted writes and deletes, and emits the wakes of running workflows whose time has come.
  The theorems say that a scan is invisible to readers, that every emitted wake is backed by
  two agreeing copies and a running workflow, and that two scans in a row miss no due timer.
\<close>

section \<open>ListTimers\<close>

text \<open>
  \<open>recordsByID\<close> is an association list. The Go code ranges over a map in no fixed order, but
  sorts the records by the map's own key before it returns them.
\<close>

fun collectShadows ::
  "('s, 'b, 'm) env_scheme \<Rightarrow> context \<Rightarrow> WorkflowKey \<Rightarrow> path list \<Rightarrow>
   (string \<times> TimerRecord) list \<Rightarrow> path list \<Rightarrow> ('s, (string \<times> TimerRecord) list \<times> path list) prog" where
  "collectShadows X ctx key [] recordsByID shadowPointPaths = ret (recordsByID, shadowPointPaths)"
| "collectShadows X ctx key (duePath # duePaths) recordsByID shadowPointPaths =
     andThen (readListedProto X ctx duePath (unmarshal_due X)) (\<lambda>entry.
     let timerKey = entry_timerKey entry; workflowKey = entry_workflowKey entry in
     if isl (validateDueEntry X (dueRoot (Namespace (withDefaults key))) duePath entry timerKey workflowKey)
     then fail (corruptRecordf ''invalid due entry in timer run listing'')
     else if \<not> sameWorkflowRun key workflowKey
     then fail (corruptRecordf ''due entry payload key does not match listed workflow run'')
     else
     andThen (lift (TimerKey_Path timerKey)) (\<lambda>pointPath.
     collectShadows X ctx key duePaths
       (case de_Record entry of
          None \<Rightarrow> recordsByID
        | Some record \<Rightarrow>
            if tr_Status record = TIMER_STATUS_CANCELED then recordsByID
            else AList.update (TimerID timerKey) record recordsByID)
       (pointPath # shadowPointPaths)))"

fun collectPoints ::
  "('s, 'b, 'm) env_scheme \<Rightarrow> context \<Rightarrow> WorkflowKey \<Rightarrow> path list \<Rightarrow> path list \<Rightarrow>
   (string \<times> TimerRecord) list \<Rightarrow> ('s, (string \<times> TimerRecord) list) prog" where
  "collectPoints X ctx key shadowPointPaths [] recordsByID = ret recordsByID"
| "collectPoints X ctx key shadowPointPaths (path # paths) recordsByID =
     (if \<not> HasSuffix path ''.binpb''
      then collectPoints X ctx key shadowPointPaths paths recordsByID
      else
      andThen (attempt (readListedProto X ctx path (unmarshal_timer X))) (\<lambda>r.
      case r of
        Inl err \<Rightarrow>
          if path \<in> set shadowPointPaths \<and> errors_Is err ErrCorruptRecord
          then collectPoints X ctx key shadowPointPaths paths recordsByID
          else fail err
      | Inr record \<Rightarrow>
      case validateListedTimer path key record of
        Inl err \<Rightarrow>
          if path \<in> set shadowPointPaths \<and> errors_Is err ErrCorruptRecord
          then collectPoints X ctx key shadowPointPaths paths recordsByID
          else fail err
      | Inr _ \<Rightarrow>
      andThen (lift (TimerKey_Path (TimerKeyFromProto (tr_Key record)))) (\<lambda>pointPath.
      if pointPath \<in> set shadowPointPaths
      then collectPoints X ctx key shadowPointPaths paths recordsByID
      else collectPoints X ctx key shadowPointPaths paths
             (AList.update (TimerID (TimerKeyFromProto (tr_Key record))) record recordsByID))))"

definition ListTimers ::
  "('s, 'b, 'm) env_scheme \<Rightarrow> context \<Rightarrow> WorkflowKey \<Rightarrow> TimerStatus \<Rightarrow> ('s, TimerRecord list) prog" where
  "ListTimers X ctx key status =
     andThen (ctx_Err X ctx) (\<lambda>_.
     andThen (lift (dueRunRoot key)) (\<lambda>dueDir.
     andThen (walkOpenDAL X ctx dueDir) (\<lambda>duePaths.
     andThen (collectShadows X ctx key duePaths [] []) (\<lambda>(recordsByID, shadowPointPaths).
     andThen (lift (TimerKey_DirPath
       \<lparr>Namespace = Namespace key, WorkflowID = WorkflowID key, RunID = RunID key,
        TimerID = ''placeholder''\<rparr>)) (\<lambda>dir.
     andThen (walkOpenDAL X ctx dir) (\<lambda>paths.
     andThen (collectPoints X ctx key shadowPointPaths paths recordsByID) (\<lambda>recordsByID.
     ret (sort_key (\<lambda>record. TimerID (TimerKeyFromProto (tr_Key record)))
       (filter (\<lambda>record. status = TIMER_STATUS_UNSPECIFIED \<or> tr_Status record = status)
         (map snd recordsByID))))))))))"

section \<open>DueTimers\<close>

record dueLedgerRoot =
  ledger_path :: path
  quarantinePath :: path

definition TrimSuffix :: "string \<Rightarrow> string \<Rightarrow> string" where
  "TrimSuffix s x = (if suffix x s then take (length s - length x) s else s)"

fun collectRoots ::
  "('s, 'b, 'm) env_scheme \<Rightarrow> context \<Rightarrow> path \<Rightarrow> path list \<Rightarrow> dueLedgerRoot list \<Rightarrow>
   ('s, dueLedgerRoot list) prog" where
  "collectRoots X ctx root_dir [] roots = ret roots"
| "collectRoots X ctx root_dir (path # paths) roots =
     andThen (ctx_Err X ctx) (\<lambda>_.
     if path = root_dir \<or> \<not> HasSuffix path ''/''
     then collectRoots X ctx root_dir paths roots
     else let namespaceRoot = TrimSuffix path ''/'' in
       collectRoots X ctx root_dir paths
         (roots @ [\<lparr>ledger_path = namespaceRoot @ ''/_due/'',
                    quarantinePath = namespaceRoot @ ''/_due_invalid/''\<rparr>]))"

definition dueRoots ::
  "('s, 'b, 'm) env_scheme \<Rightarrow> context \<Rightarrow> string \<Rightarrow> ('s, dueLedgerRoot list) prog" where
  "dueRoots X ctx namespace =
     (if namespace \<noteq> []
      then andThen (lift (WorkflowKey_Validate
             \<lparr>Namespace = namespace, WorkflowID = ''placeholder'', RunID = ''placeholder''\<rparr>)) (\<lambda>_.
           ret [\<lparr>ledger_path = dueRoot namespace, quarantinePath = dueInvalidRoot namespace\<rparr>])
      else let root_dir = StorageRootPrefix @ ''/'' in
        andThen (attempt (op_List X root_dir)) (\<lambda>r.
        case r of
          Inl err \<Rightarrow> if isOpenDALNotFound err then ret [] else fail err
        | Inr lister \<Rightarrow>
            andThen (collectRoots X ctx root_dir (entries lister) []) (\<lambda>roots.
            case lister_Error lister of
              Some listerErr \<Rightarrow> fail listerErr
            | None \<Rightarrow>
            case lister_Close lister of
              Some closeErr \<Rightarrow> fail closeErr
            | None \<Rightarrow> ret (sort_key ledger_path roots))))"

definition dueLedgerPaths ::
  "('s, 'b, 'm) env_scheme \<Rightarrow> context \<Rightarrow> path \<Rightarrow> ('s, path list) prog" where
  "dueLedgerPaths X ctx root_dir = walkOpenDAL X ctx root_dir"

definition quarantineTarget :: "path \<Rightarrow> path \<Rightarrow> path" where
  "quarantineTarget quarantineRoot ledgerPath =
     quarantineRoot @ hex_string (Sum256 (string_bytes ledgerPath)) @ ''.binpb''"

definition quarantineDueEntry ::
  "('s, 'b, 'm) env_scheme \<Rightarrow> context \<Rightarrow> path \<Rightarrow> path \<Rightarrow> ('s, unit) prog" where
  "quarantineDueEntry X ctx quarantineRoot ledgerPath =
     andThen (ctx_Err X ctx) (\<lambda>_.
     andThen (attempt (op_Read X ledgerPath)) (\<lambda>r.
     case r of
       Inl err \<Rightarrow> if isOpenDALNotFound err then ret () else fail err
     | Inr data \<Rightarrow>
         let target = quarantineTarget quarantineRoot ledgerPath in
         andThen (op_CreateDir X (parent_dir target)) (\<lambda>_.
         op_Write X target data)))"

text \<open>The two exits of the scan on a damaged entry: quarantine it and report the scan error.\<close>

definition scanFailed ::
  "('s, 'b, 'm) env_scheme \<Rightarrow> context \<Rightarrow> dueLedgerRoot \<Rightarrow> path \<Rightarrow> go_error \<Rightarrow> ('s, 'a) prog" where
  "scanFailed X ctx ledgerRoot ledgerPath scanErr =
     andThen (attempt (quarantineDueEntry X ctx (quarantinePath ledgerRoot) ledgerPath)) (\<lambda>r.
     case r of
       Inl quarantineErr \<Rightarrow>
         fail (Joined [scanErr, Wrapped ''quarantine invalid due timer entry'' [quarantineErr]])
     | Inr _ \<Rightarrow> fail scanErr)"

text \<open>
  The body of the scan for a sound entry: the wake it gives, or \<open>None\<close> where the loop
  continues. \<open>point\<close> is what \<open>getTimerPoint\<close> returned, its error included.
\<close>

definition scanPrepared ::
  "('s, 'b, 'm) env_scheme \<Rightarrow> context \<Rightarrow> time \<Rightarrow> DueTimerEntry \<Rightarrow> TimerRecord \<Rightarrow> TimerKey \<Rightarrow> WorkflowKey \<Rightarrow>
   ('s, DueTimer option) prog" where
  "scanPrepared X ctx now entry prepared timerKey workflowKey =
     andThen (attempt (getTimerPoint X ctx timerKey)) (\<lambda>point.
     if (case point of Inl pointErr \<Rightarrow> \<not> errors_Is pointErr ErrCorruptRecord | Inr _ \<Rightarrow> False)
     then fail (projl point)
     else if tr_Status prepared = TIMER_STATUS_CANCELED
     then if point \<noteq> Inr None
          then andThen (lift (TimerKey_Path timerKey)) (\<lambda>pointPath.
               andThen (deleteIfExists X pointPath) (\<lambda>_.
               ret None))
          else ret None
     else if point \<noteq> Inr (Some prepared)
     then andThen (PutTimer X ctx prepared) (\<lambda>_. ret None)
     else if tr_Status prepared \<noteq> TIMER_STATUS_SCHEDULED \<or> now < asTime X (de_FireAt entry)
     then ret None
     else
     andThen (attempt (GetWorkflow X ctx workflowKey)) (\<lambda>found.
     case found of
       Inl err \<Rightarrow>
         if errors_Is err ErrCorruptRecord
         then fail (Wrapped ''read parent workflow for due timer'' [err])
         else fail err
     | Inr None \<Rightarrow> ret None
     | Inr (Some workflow) \<Rightarrow>
         if wr_Status workflow \<noteq> WORKFLOW_STATUS_IN_PROGRESS then ret None
         else ret (Some \<lparr>dt_Key = timerKey, dt_Record = Some prepared, dt_Workflow = Some workflow\<rparr>)))"

text \<open>One ledger object of the scan. A sound entry always has a prepared record.\<close>

definition scanDueEntry ::
  "('s, 'b, 'm) env_scheme \<Rightarrow> context \<Rightarrow> time \<Rightarrow> dueLedgerRoot \<Rightarrow> path \<Rightarrow> ('s, DueTimer option) prog" where
  "scanDueEntry X ctx now ledgerRoot ledgerPath =
     andThen (attempt (readListedProto X ctx ledgerPath (unmarshal_due X))) (\<lambda>listed.
     case listed of
       Inl err \<Rightarrow>
         if isOpenDALNotFound err then ret None
         else scanFailed X ctx ledgerRoot ledgerPath (Wrapped ''read due timer entry'' [err])
     | Inr entry \<Rightarrow>
     let timerKey = entry_timerKey entry; workflowKey = entry_workflowKey entry in
     if isl (validateDueEntry X (ledger_path ledgerRoot) ledgerPath entry timerKey workflowKey)
     then scanFailed X ctx ledgerRoot ledgerPath (corruptRecordf ''invalid due timer entry'')
     else
     case de_Record entry of
       None \<Rightarrow> ret None
     | Some prepared \<Rightarrow> scanPrepared X ctx now entry prepared timerKey workflowKey)"

fun scanDuePaths ::
  "('s, 'b, 'm) env_scheme \<Rightarrow> context \<Rightarrow> time \<Rightarrow> dueLedgerRoot \<Rightarrow> path list \<Rightarrow> DueTimer list \<Rightarrow>
   ('s, DueTimer list) prog" where
  "scanDuePaths X ctx now ledgerRoot [] due = ret due"
| "scanDuePaths X ctx now ledgerRoot (ledgerPath # paths) due =
     andThen (scanDueEntry X ctx now ledgerRoot ledgerPath) (\<lambda>wake.
     scanDuePaths X ctx now ledgerRoot paths (case wake of None \<Rightarrow> due | Some d \<Rightarrow> due @ [d]))"

fun scanDueRoots ::
  "('s, 'b, 'm) env_scheme \<Rightarrow> context \<Rightarrow> time \<Rightarrow> dueLedgerRoot list \<Rightarrow> DueTimer list \<Rightarrow>
   ('s, DueTimer list) prog" where
  "scanDueRoots X ctx now [] due = ret due"
| "scanDueRoots X ctx now (ledgerRoot # roots) due =
     andThen (dueLedgerPaths X ctx (ledger_path ledgerRoot)) (\<lambda>paths.
     andThen (scanDuePaths X ctx now ledgerRoot paths due) (\<lambda>due.
     scanDueRoots X ctx now roots due))"

text \<open>The order of the wakes: fire time, then the key, field by field.\<close>

definition dueOrder ::
  "'m wkt_scheme \<Rightarrow> DueTimer \<Rightarrow> time \<times> string \<times> string \<times> string \<times> string" where
  "dueOrder W d =
     (asTime W (Option.bind (dt_Record d) tr_FireAt), Namespace (dt_Key d), WorkflowID (dt_Key d),
      RunID (dt_Key d), TimerID (dt_Key d))"

definition DueTimers ::
  "('s, 'b, 'm) env_scheme \<Rightarrow> context \<Rightarrow> string \<Rightarrow> time \<Rightarrow> ('s, DueTimer list) prog" where
  "DueTimers X ctx namespace now =
     andThen (ctx_Err X ctx) (\<lambda>_.
     if now = zero_time then fail (Plain ''now is required'')
     else
     andThen (dueRoots X ctx namespace) (\<lambda>roots.
     andThen (scanDueRoots X ctx now roots []) (\<lambda>due.
     ret (sort_key (dueOrder X) due))))"

section \<open>Listed ledger entries\<close>

text \<open>A ledger object that passes validation is the ledger entry of its own key.\<close>

lemma entry_due_at:
  assumes "obs p = Some b" "unmarshal_due X b = Some e"
    and v: "validateDueEntry X rt p e (entry_timerKey e) (entry_workflowKey e) = Inr ()"
  shows "due_at X obs (entry_timerKey e) = Some e" "has_ledger obs (entry_timerKey e)"
    "dueEntryPath (entry_timerKey e) = Inr p" "rt = dueRoot (Namespace (entry_timerKey e))"
    "entry_workflowKey e = runKey (entry_timerKey e)"
    "\<exists>r. de_Record e = Some r \<and> timer_key r = entry_timerKey e \<and> due_ready X r \<and>
       asTime X (tr_FireAt r) = asTime X (de_FireAt e)"
proof -
  obtain r where r: "de_Record e = Some r" "dueEntryPath (entry_timerKey e) = Inr p"
    "rt = dueRoot (Namespace (entry_timerKey e))"
    using v unfolding validateDueEntry_ok by auto
  have c: "checkDueEntry X (entry_timerKey e) p e = Inr ()"
    using v r(3) by (simp add: checkDueEntry_ok)
  then show "due_at X obs (entry_timerKey e) = Some e"
    using assms(1,2) r(2) by (simp add: due_at_def point_at_def)
  show "has_ledger obs (entry_timerKey e)"
    using assms(1) r(2) by (simp add: has_ledger_def)
  show "dueEntryPath (entry_timerKey e) = Inr p" "rt = dueRoot (Namespace (entry_timerKey e))"
    using r by simp_all
  show "entry_workflowKey e = runKey (entry_timerKey e)"
    using checkDueEntry_record [OF c] by auto
  show "\<exists>r. de_Record e = Some r \<and> timer_key r = entry_timerKey e \<and> due_ready X r \<and>
       asTime X (tr_FireAt r) = asTime X (de_FireAt e)"
    using checkDueEntry_record [OF c] by (auto simp: asTime_def)
qed

text \<open>The timers of a run, by their IDs.\<close>

definition run_timer :: "WorkflowKey \<Rightarrow> string \<Rightarrow> TimerKey" where
  "run_timer key tid = \<lparr>Namespace = Namespace (withDefaults key), WorkflowID = WorkflowID key,
     RunID = RunID key, TimerID = tid\<rparr>"

lemma TimerID_run_timer [simp]: "TimerID (run_timer key tid) = tid"
  by (simp add: run_timer_def)

lemma run_timer_eq: "runKey (withDefaults k) = withDefaults key \<Longrightarrow> withDefaults k = run_timer key (TimerID k)"
  by (cases k; cases key) (auto simp: run_timer_def runKey_def withDefaults_def split: if_splits)

lemma run_timer_runKey: "runKey (withDefaults (run_timer key tid)) = withDefaults key"
  by (auto simp: run_timer_def runKey_def withDefaults_def DefaultNamespace_def)

lemma run_timer_inj [simp]: "run_timer key tid = run_timer key tid' \<longleftrightarrow> tid = tid'"
  by (simp add: run_timer_def)

lemma withDefaults_run_timer [simp]: "withDefaults (run_timer key tid) = run_timer key tid"
  by (auto simp: run_timer_def withDefaults_def DefaultNamespace_def)

lemma run_timer_paths:
  "dueEntryPath (run_timer key tid) = Inr p \<Longrightarrow> dueEntryPath (run_timer key tid') = Inr p \<longleftrightarrow> tid' = tid"
  "TimerKey_Path (run_timer key tid) = Inr q \<Longrightarrow> TimerKey_Path (run_timer key tid') = Inr q \<longleftrightarrow> tid' = tid"
  using Path_eq_iff(5) [of "run_timer key tid" p "run_timer key tid'"]
    Path_eq_iff(3) [of "run_timer key tid" q "run_timer key tid'"] by simp_all

definition by_id :: "(string \<times> TimerRecord) list \<Rightarrow> bool" where
  "by_id rs \<longleftrightarrow> distinct (map fst rs) \<and>
     (\<forall>tid r. map_of rs tid = Some r \<longrightarrow> TimerID (TimerKeyFromProto (tr_Key r)) = tid)"

lemma by_id_Nil: "by_id []"
  by (simp add: by_id_def)

lemma by_id_update: "by_id rs \<Longrightarrow> TimerID (TimerKeyFromProto (tr_Key r)) = tid \<Longrightarrow> by_id (AList.update tid r rs)"
  unfolding by_id_def by (auto simp: distinct_update update_conv')

text \<open>The point paths that the ledger entries at \<open>ps\<close> cover.\<close>

definition shadow_paths :: "WorkflowKey \<Rightarrow> path set \<Rightarrow> path set" where
  "shadow_paths key ps = {q. \<exists>tid. dueEntryPath (run_timer key tid) \<in> Inr ` ps \<and>
     TimerKey_Path (run_timer key tid) = Inr q}"

lemma shadow_paths_insert:
  assumes "dueEntryPath (run_timer key tid) = Inr p" "TimerKey_Path (run_timer key tid) = Inr q"
  shows "shadow_paths key (insert p ps) = insert q (shadow_paths key ps)"
  using assms run_timer_paths(1) [OF assms(1)] by (auto simp: shadow_paths_def)

context opendal_laws
begin

text \<open>What one entry of the run contributes to the listing.\<close>

lemma shadow_entry:
  assumes "obs p = Some b" "unmarshal_due X b = Some e"
    and "validateDueEntry X (dueRoot (Namespace (withDefaults key))) p e (entry_timerKey e) (entry_workflowKey e) = Inr ()"
    and "sameWorkflowRun key (entry_workflowKey e)"
  obtains tid r where "entry_timerKey e = run_timer key tid" "de_Record e = Some r"
    "timer_view X obs (run_timer key tid) = shown r" "TimerID (TimerKeyFromProto (tr_Key r)) = tid"
    "dueEntryPath (run_timer key tid) = Inr p"
proof -
  note e = entry_due_at [where obs = obs and p = p, OF assms(1-3)]
  obtain r where r: "de_Record e = Some r" "timer_key r = entry_timerKey e" using e(6) by auto
  have run: "entry_timerKey e = run_timer key (TimerID (TimerKeyFromProto (de_Key e)))"
    using run_timer_eq [of "TimerKeyFromProto (de_Key e)" key] assms(4) e(5)
    by (simp add: sameWorkflowRun_iff runKey_withDefaults)
  show thesis
  proof (rule that [OF run r(1)])
    show "timer_view X obs (run_timer key (TimerID (TimerKeyFromProto (de_Key e)))) = shown r"
      using e(1,2) r(1) by (simp add: timer_view_def flip: run)
    show "TimerID (TimerKeyFromProto (tr_Key r)) = TimerID (TimerKeyFromProto (de_Key e))"
      using arg_cong [OF r(2), of TimerID] by simp
    show "dueEntryPath (run_timer key (TimerID (TimerKeyFromProto (de_Key e)))) = Inr p"
      using e(3) by (simp flip: run)
  qed
qed

text \<open>The two loops of the listing, as functions of the paths they are given.\<close>

definition shadow_map :: "WorkflowKey \<Rightarrow> (path \<Rightarrow> 'b option) \<Rightarrow> path set \<Rightarrow> (string \<times> TimerRecord) list \<Rightarrow>
    string \<Rightarrow> TimerRecord option" where
  "shadow_map key obs ps recs tid =
     (if dueEntryPath (run_timer key tid) \<in> Inr ` ps then timer_view X obs (run_timer key tid)
      else map_of recs tid)"

lemma shadow_map_insert:
  assumes p: "dueEntryPath (run_timer key tid) = Inr p" "p \<notin> ps"
    and r: "timer_view X obs (run_timer key tid) = shown r"
    and fresh: "map_of recs tid = None"
  shows "shadow_map key obs ps
      (if tr_Status r = TIMER_STATUS_CANCELED then recs else AList.update tid r recs) =
    shadow_map key obs (insert p ps) recs"
proof (rule ext)
  fix tid'
  show "shadow_map key obs ps
      (if tr_Status r = TIMER_STATUS_CANCELED then recs else AList.update tid r recs) tid' =
    shadow_map key obs (insert p ps) recs tid'"
    using assms run_timer_paths(1) [OF p(1), of tid']
    by (cases "tid' = tid") (auto simp: shadow_map_def update_conv' shown_def)
qed

lemma collectShadows_spec:
  assumes "distinct ps" "by_id recs"
    and "\<And>tid. dueEntryPath (run_timer key tid) \<in> Inr ` set ps \<Longrightarrow> map_of recs tid = None"
  shows "wpre (collectShadows X c key ps recs sh)
    (\<lambda>(recs', sh') s1. objs s1 = objs s \<and> dirs s1 = dirs s \<and> by_id recs' \<and>
       map_of recs' = shadow_map key (objs s) (set ps) recs \<and> set sh' = set sh \<union> shadow_paths key (set ps))
    (\<lambda>e s1. objs s1 = objs s) s"
  using assms
proof (induction ps arbitrary: recs sh s)
  case Nil
  then show ?case by (simp add: wp shadow_map_def [abs_def] shadow_paths_def)
next
  case (Cons p ps)
  show ?case
    unfolding collectShadows.simps wpre_andThen
  proof (rule wp_readListed, goal_cases)
    case (1 b e s1)
    show ?case
    proof (cases "isl (validateDueEntry X (dueRoot (Namespace (withDefaults key))) p e
          (entry_timerKey e) (entry_workflowKey e)) \<or> \<not> sameWorkflowRun key (entry_workflowKey e)")
      case True
      then show ?thesis using 1 by (auto simp: Let_def wp)
    next
      case False
      then obtain tid r where e: "entry_timerKey e = run_timer key tid" "de_Record e = Some r"
        "timer_view X (objs s) (run_timer key tid) = shown r" "TimerID (TimerKeyFromProto (tr_Key r)) = tid"
        "dueEntryPath (run_timer key tid) = Inr p"
        using shadow_entry [where obs = "objs s" and p = p, OF 1(1,2), of key]
        by (cases "validateDueEntry X (dueRoot (Namespace (withDefaults key))) p e
          (entry_timerKey e) (entry_workflowKey e)") auto
      define recs' where "recs' = (if tr_Status r = TIMER_STATUS_CANCELED then recs else AList.update tid r recs)"
      have fresh: "map_of recs tid = None" using Cons.prems(3) e(5) by simp
      have ids: "by_id recs'" using Cons.prems(2) e(4) by_id_update by (simp add: recs'_def)
      have "map_of recs' tid' = None" if "dueEntryPath (run_timer key tid') \<in> Inr ` set ps" for tid'
        using that Cons.prems(1) Cons.prems(3) [of tid'] run_timer_paths(1) [OF e(5), of tid']
        by (auto simp: recs'_def update_conv')
      note fresh' = this
      have IH: "wpre (collectShadows X c key ps recs' (q # sh))
          (\<lambda>(recs', sh') s2. objs s2 = objs s \<and> dirs s2 = dirs s \<and> by_id recs' \<and>
             map_of recs' = shadow_map key (objs s) (set (p # ps)) recs \<and>
             set sh' = set sh \<union> shadow_paths key (set (p # ps)))
          (\<lambda>e s2. objs s2 = objs s) s1" if q: "TimerKey_Path (run_timer key tid) = Inr q" for q
        by (rule wpre_mono [OF Cons.IH [OF _ ids fresh', of "q # sh" s1]])
           (use Cons.prems(1) 1(3,4) shadow_paths_insert [OF e(5) q, of "set ps"]
             shadow_map_insert [OF e(5) _ e(3) fresh, of "set ps"] in \<open>auto simp flip: recs'_def\<close>)
      show ?thesis
        using False e(1,2) 1(3) IH by (auto simp: Let_def wp recs'_def split: sum.splits)
    qed
  qed simp
qed

definition point_map :: "WorkflowKey \<Rightarrow> (path \<Rightarrow> 'b option) \<Rightarrow> path set \<Rightarrow> path set \<Rightarrow>
    (string \<times> TimerRecord) list \<Rightarrow> string \<Rightarrow> TimerRecord option" where
  "point_map key obs ps sh recs tid =
     (if TimerKey_Path (run_timer key tid) \<in> Inr ` (ps - sh) then timer_at X obs (run_timer key tid)
      else map_of recs tid)"

lemma point_map_skip: "p \<in> sh \<Longrightarrow> point_map key obs (insert p ps) sh recs = point_map key obs ps sh recs"
  by (auto simp: point_map_def fun_eq_iff)

lemma point_map_insert:
  assumes p: "TimerKey_Path (run_timer key tid) = Inr p" and "p \<notin> sh"
    and r: "timer_at X obs (run_timer key tid) = Some r"
  shows "point_map key obs ps sh (AList.update tid r recs) = point_map key obs (insert p ps) sh recs"
proof (rule ext)
  fix tid'
  show "point_map key obs ps sh (AList.update tid r recs) tid' = point_map key obs (insert p ps) sh recs tid'"
    using assms run_timer_paths(2) [OF p, of tid']
    by (cases "tid' = tid") (auto simp: point_map_def update_conv')
qed

lemma listed_timer:
  assumes "obs p = Some b" "unmarshal_timer X b = Some r" "validateListedTimer p key r = Inr ()"
  defines "tid \<equiv> TimerID (TimerKeyFromProto (tr_Key r))"
  shows "TimerKey_Path (TimerKeyFromProto (tr_Key r)) = Inr p" "TimerKey_Path (run_timer key tid) = Inr p"
    "timer_at X obs (run_timer key tid) = Some r"
proof -
  note v = validateListedTimer_ok [OF assms(3)]
  have k: "timer_key r = run_timer key tid" using run_timer_eq v by (simp add: tid_def)
  show path: "TimerKey_Path (TimerKeyFromProto (tr_Key r)) = Inr p" using v by simp
  then show "TimerKey_Path (run_timer key tid) = Inr p" by (simp add: TimerKey_Path_withDefaults flip: k)
  have "timer_at X obs (TimerKeyFromProto (tr_Key r)) = Some r"
    using v assms(1,2) by (simp add: timer_at_def point_at_def)
  then show "timer_at X obs (run_timer key tid) = Some r" by (simp add: timer_at_withDefaults flip: k)
qed

lemma collectPoints_spec:
  assumes "by_id recs" "\<And>p. p \<in> set ps \<Longrightarrow> suffix ''.binpb'' p"
  shows "wpre (collectPoints X c key sh ps recs)
    (\<lambda>recs' s1. objs s1 = objs s \<and> by_id recs' \<and> map_of recs' = point_map key (objs s) (set ps) (set sh) recs)
    (\<lambda>e s1. objs s1 = objs s) s"
  using assms
proof (induction ps arbitrary: recs s)
  case Nil
  then show ?case by (simp add: wp point_map_def [abs_def])
next
  case (Cons p ps)
  have skip: "wpre (collectPoints X c key sh ps recs)
      (\<lambda>recs' s2. objs s2 = objs s \<and> by_id recs' \<and>
         map_of recs' = point_map key (objs s) (set (p # ps)) (set sh) recs)
      (\<lambda>e s2. objs s2 = objs s) s1" if "p \<in> set sh" "objs s1 = objs s" for s1
    by (rule wpre_mono [OF Cons.IH [OF Cons.prems(1), of s1]])
       (use Cons.prems(2) that in \<open>auto simp: point_map_skip\<close>)
  have take_it: "wpre (collectPoints X c key sh ps (AList.update (TimerID (TimerKeyFromProto (tr_Key r))) r recs))
      (\<lambda>recs' s2. objs s2 = objs s \<and> by_id recs' \<and>
         map_of recs' = point_map key (objs s) (set (p # ps)) (set sh) recs)
      (\<lambda>e s2. objs s2 = objs s) s1"
    if "p \<notin> set sh" "objs s1 = objs s" "objs s p = Some b" "unmarshal_timer X b = Some r"
      "validateListedTimer p key r = Inr ()" for s1 b r
    using listed_timer [where obs = "objs s" and p = p, OF that(3-5)] that(1,2) Cons.prems
    by (intro wpre_mono [OF Cons.IH [OF by_id_update [OF Cons.prems(1)], of r _ s1]])
       (auto simp: point_map_insert)
  have at: "TimerKey_Path (TimerKeyFromProto (tr_Key r)) = Inr p" if "validateListedTimer p key r = Inr ()" for r
    using validateListedTimer_ok [OF that] by simp
  have "suffix ''.binpb'' p" using Cons.prems(2) by simp
  then show ?case
    by (auto simp: wp HasSuffix_def at simp del: set_simps intro!: wp_readListed skip intro: take_it split: sum.splits)
qed

lemma dueRunRoot_below:
  assumes "dueRunRoot key = Inr d"
  shows "dir_path d" "dueEntryPath (run_timer key tid) = Inr p \<Longrightarrow> prefix d p \<and> suffix ''.binpb'' p"
proof -
  have d: "d = dueRoot (Namespace (withDefaults key)) @ WorkflowID key @ ''/'' @ RunID key @ ''/''"
    using assms by (auto simp: dueRunRoot_def key_Validates Let_def split: if_splits)
  then show "dir_path d" by (simp add: dir_path_def)
  assume p: "dueEntryPath (run_timer key tid) = Inr p"
  then have "p = d @ tid @ ''.binpb''"
    using object_path_eq [of "ObjDue (run_timer key tid)" p] by (simp add: d) (simp add: run_timer_def)
  moreover have "suffix ''.binpb'' p" using object_path_binpb [of "ObjDue (run_timer key tid)" p] p by simp
  ultimately show "prefix d p \<and> suffix ''.binpb'' p" by simp
qed

lemma run_timer_below:
  assumes "TimerKey_DirPath \<lparr>Namespace = Namespace key, WorkflowID = WorkflowID key, RunID = RunID key,
      TimerID = ''placeholder''\<rparr> = Inr d" "TimerKey_Path (run_timer key tid) = Inr p"
  shows "prefix d p \<and> suffix ''.binpb'' p"
  using kind_Path_below(2) [OF assms(2)] kind_DirPath(2) [OF assms(1)]
    object_path_binpb [of "ObjTimer (run_timer key tid)" p] assms(2)
  by (cases "Namespace key = []") (simp_all add: Namespace_withDefaults run_timer_def DefaultNamespace_def)

text \<open>The merged listing is the view of the run.\<close>

lemma merged_view:
  assumes due: "dueRunRoot key = Inr dueDir"
    and dir: "TimerKey_DirPath \<lparr>Namespace = Namespace key, WorkflowID = WorkflowID key, RunID = RunID key,
      TimerID = ''placeholder''\<rparr> = Inr dir"
    and recs: "map_of recs = shadow_map key obs (records_below obs dueDir) []"
  shows "point_map key obs (records_below obs dir) (shadow_paths key (records_below obs dueDir)) recs =
    (\<lambda>tid. timer_view X obs (run_timer key tid))"
proof (rule ext)
  fix tid
  let ?k = "run_timer key tid"
  have l: "dueEntryPath ?k \<in> Inr ` records_below obs dueDir \<longleftrightarrow> has_ledger obs ?k"
    using dueRunRoot_below(2) [OF due] by (auto simp: has_ledger_def records_below_def image_iff)
  have sh: "q \<in> shadow_paths key (records_below obs dueDir) \<longleftrightarrow> has_ledger obs ?k"
    if "TimerKey_Path ?k = Inr q" for q
    using that run_timer_paths(2) [OF that] l by (auto simp: shadow_paths_def)
  have pt: "timer_at X obs ?k = None" if "TimerKey_Path ?k \<notin> Inr ` records_below obs dir"
    using that run_timer_below [OF dir] by (cases "TimerKey_Path ?k")
      (auto simp: timer_at_def point_at_def records_below_def split: option.splits)
  have path: "TimerKey_Path ?k \<in> Inr ` (records_below obs dir - shadow_paths key (records_below obs dueDir)) \<longleftrightarrow>
      TimerKey_Path ?k \<in> Inr ` records_below obs dir \<and> \<not> has_ledger obs ?k"
    using sh by (auto simp: image_iff)
  show "point_map key obs (records_below obs dir) (shadow_paths key (records_below obs dueDir)) recs tid =
    timer_view X obs ?k"
    using l pt path by (simp add: point_map_def recs shadow_map_def timer_view_def)
qed

lemma listing_result:
  assumes ids: "by_id recs" and view: "map_of recs = (\<lambda>tid. timer_view X obs (run_timer key tid))"
  defines "f \<equiv> \<lambda>r. TimerID (TimerKeyFromProto (tr_Key r))"
  shows "set (sort_key f (filter P (map snd recs))) =
      {r. \<exists>k. runKey (withDefaults k) = withDefaults key \<and> timer_view X obs k = Some r \<and> P r}"
    and "sorted_wrt (<) (map f (sort_key f (filter P (map snd recs))))"
proof -
  have d: "distinct (map fst recs)" using ids by (simp add: by_id_def)
  have "map f (map snd recs) = map fst recs"
    using ids map_of_eq_Some_iff [OF d] by (auto simp: by_id_def f_def)
  then have "distinct (map f (map snd recs))" using d by (simp only:)
  then have "distinct (map f (filter P (map snd recs)))" by (rule distinct_map_filter)
  then have "distinct (map f (sort_key f (filter P (map snd recs))))"
    by (simp add: distinct_map)
  then show "sorted_wrt (<) (map f (sort_key f (filter P (map snd recs))))"
    by (simp add: strict_sorted_iff)
  have "r \<in> ran (map_of recs) \<longleftrightarrow> (\<exists>k. runKey (withDefaults k) = withDefaults key \<and> timer_view X obs k = Some r)" for r
  proof
    assume "r \<in> ran (map_of recs)"
    then obtain tid where "timer_view X obs (run_timer key tid) = Some r" by (auto simp: view ran_def)
    then show "\<exists>k. runKey (withDefaults k) = withDefaults key \<and> timer_view X obs k = Some r"
      using run_timer_runKey [of key tid] by blast
  next
    assume "\<exists>k. runKey (withDefaults k) = withDefaults key \<and> timer_view X obs k = Some r"
    then obtain k where "withDefaults k = run_timer key (TimerID k)" "timer_view X obs k = Some r"
      using run_timer_eq by blast
    then have "timer_view X obs (run_timer key (TimerID k)) = Some r"
      using timer_view_withDefaults [of X obs k] by simp
    then show "r \<in> ran (map_of recs)" by (auto simp: view ran_def)
  qed
  then show "set (sort_key f (filter P (map snd recs))) =
      {r. \<exists>k. runKey (withDefaults k) = withDefaults key \<and> timer_view X obs k = Some r \<and> P r}"
    using ran_distinct [OF d] by auto
qed

lemma below_binpb: "p \<in> records_below obs d \<Longrightarrow> suffix ''.binpb'' p"
  by (simp add: records_below_def)

lemma wp_walk:
  assumes "dir_path d"
    and "\<And>s1. objs s1 = objs s \<Longrightarrow> dirs s1 = dirs s \<Longrightarrow> Q (sorted_list_of_set (records_below (objs s) d)) s1"
    and "\<And>e s1. objs s1 = objs s \<Longrightarrow> dirs s1 = dirs s \<Longrightarrow> E e s1"
  shows "wpre (walkOpenDAL X c d) Q E s"
  using assms by (auto intro!: wpre_mono [OF walk_done])

lemma ListTimers_spec:
  "wpre (ListTimers X c key status)
    (\<lambda>rs s1. objs s1 = objs s \<and>
       set rs = {r. \<exists>k. runKey (withDefaults k) = withDefaults key \<and> timer_view X (objs s) k = Some r \<and>
         (status = TIMER_STATUS_UNSPECIFIED \<or> tr_Status r = status)} \<and>
       sorted_wrt (<) (map (\<lambda>r. TimerID (TimerKeyFromProto (tr_Key r))) rs))
    (\<lambda>e s1. objs s1 = objs s) s"
    (is "wpre _ ?Q ?E s")
proof -
  have points: "wpre (collectPoints X c key sh (sorted_list_of_set (records_below (objs s) dir)) recs)
      (\<lambda>recs. wpre (ret (sort_key (\<lambda>record. TimerID (TimerKeyFromProto (tr_Key record)))
       (filter (\<lambda>record. status = TIMER_STATUS_UNSPECIFIED \<or> tr_Status record = status)
         (map snd recs)))) ?Q ?E) ?E s2"
    if "dueRunRoot key = Inr dueDir"
      "TimerKey_DirPath \<lparr>Namespace = Namespace key, WorkflowID = WorkflowID key, RunID = RunID key,
        TimerID = ''placeholder''\<rparr> = Inr dir"
      "map_of recs = shadow_map key (objs s) (records_below (objs s) dueDir) []" "by_id recs"
      "set sh = shadow_paths key (records_below (objs s) dueDir)" "objs s2 = objs s"
    for dueDir dir recs sh s2
    using merged_view [OF that(1-3)] listing_result [of _ "objs s" key] that
    by (intro wpre_mono [OF collectPoints_spec [OF that(4)]]) (auto simp: wpre_ret below_binpb)
  show ?thesis
    unfolding ListTimers_def
    by (auto simp: wpre_andThen wpre_lift wpre_case_prod by_id_Nil intro!: wp_ctx wp_walk
        wpre_mono [OF collectShadows_spec] split: sum.splits)
       (erule dueRunRoot_below(1), erule kind_DirPath_dir(2), erule (5) points)
qed

end

section \<open>What a scan may change\<close>

text \<open>The prepared record of a timer's ledger entry.\<close>

definition ledger_rec ::
  "('b, 'm) codec_scheme \<Rightarrow> (path \<Rightarrow> 'b option) \<Rightarrow> TimerKey \<Rightarrow> TimerRecord option" where
  "ledger_rec X obs k = Option.bind (due_at X obs k) de_Record"

text \<open>
  Two buckets that differ at most by repairs: the ledger and the records of other kinds agree, and a
  point record that differs is now what the ledger prescribes for it.
\<close>

definition repaired ::
  "('b, 'm) codec_scheme \<Rightarrow> (path \<Rightarrow> 'b option) \<Rightarrow> (path \<Rightarrow> 'b option) \<Rightarrow> bool" where
  "repaired X obs obs' \<longleftrightarrow> workflow_at X obs' = workflow_at X obs \<and>
     activity_at X obs' = activity_at X obs \<and> event_at X obs' = event_at X obs \<and> has_ledger obs' = has_ledger obs \<and>
     ledger_rec X obs' = ledger_rec X obs \<and>
     (\<forall>k. timer_at X obs' k = timer_at X obs k \<or>
        ledger_rec X obs k \<noteq> None \<and> timer_at X obs' k = Option.bind (ledger_rec X obs k) shown)"

lemma timer_view_ledger:
  "timer_view X obs k = (if has_ledger obs k then Option.bind (ledger_rec X obs k) shown else timer_at X obs k)"
  by (simp add: timer_view_def ledger_rec_def split: option.splits)

lemma ledger_rec_has: "ledger_rec X obs k = Some r \<Longrightarrow> has_ledger obs k"
  by (auto simp: ledger_rec_def due_at_def has_ledger_def point_at_Some bind_eq_Some_conv)

lemma ledger_rec_withDefaults: "ledger_rec X obs (withDefaults k) = ledger_rec X obs k"
  by (simp add: ledger_rec_def due_at_withDefaults)

lemma repaired_refl [simp]: "repaired X obs obs"
  by (simp add: repaired_def)

lemma repaired_trans: "repaired X obs obs1 \<Longrightarrow> repaired X obs1 obs2 \<Longrightarrow> repaired X obs obs2"
proof -
  assume a: "repaired X obs obs1" and b: "repaired X obs1 obs2"
  have "timer_at X obs2 k = timer_at X obs k \<or>
      ledger_rec X obs k \<noteq> None \<and> timer_at X obs2 k = Option.bind (ledger_rec X obs k) shown" for k
    using a b unfolding repaired_def by (cases "timer_at X obs2 k = timer_at X obs1 k") auto
  with a b show ?thesis unfolding repaired_def by simp
qed

lemma repaired_view: "repaired X obs obs' \<Longrightarrow> timer_view X obs' = timer_view X obs"
proof (rule ext)
  fix k assume "repaired X obs obs'"
  then show "timer_view X obs' k = timer_view X obs k"
    using ledger_rec_has [of X obs k] unfolding repaired_def timer_view_ledger by auto
qed

lemma has_ledger_upd: "(\<And>k. dueEntryPath k \<noteq> Inr p) \<Longrightarrow> has_ledger (obs(p := v)) = has_ledger obs"
proof (rule ext)
  fix k assume "\<And>k. dueEntryPath k \<noteq> Inr p"
  then show "has_ledger (obs(p := v)) k = has_ledger obs k"
    by (cases "dueEntryPath k") (auto simp: has_ledger_def)
qed

text \<open>Objects outside the addressing scheme are no part of any view.\<close>

lemma foreign_write:
  assumes "\<And>x. object_path x \<noteq> Inr t"
  shows "repaired X obs (obs(t \<mapsto> b))"
proof -
  have "WorkflowKey_Path w \<noteq> Inr t" "TimerKey_Path k \<noteq> Inr t" "dueEntryPath k \<noteq> Inr t"
    "ActivityKey_Path a \<noteq> Inr t" "EventKey_Path e \<noteq> Inr t" for w k a e
    using assms by (metis Path_object(2), metis Path_object(3), metis Path_object(6), metis Path_object(1), metis Path_object(4))
  then show ?thesis
    by (auto simp: repaired_def activity_at_def event_at_def workflow_at_def timer_at_def ledger_rec_def [abs_def] due_at_def has_ledger_upd
        point_at_write fun_eq_iff)
qed

context opendal_laws
begin

lemma repaired_ledger:
  assumes u: "due_upd X r obs obs'" and r: "ledger_rec X obs (timer_key r) = Some r"
  shows "repaired X obs obs'"
proof -
  obtain p b where p: "dueEntryPath (timer_key r) = Inr p" "obs' = obs(p \<mapsto> b)"
    using u by (auto simp: due_upd_def)
  have "workflow_at X obs' = workflow_at X obs" "activity_at X obs' = activity_at X obs"
    "event_at X obs' = event_at X obs"
    using view_frame [OF p(1) [unfolded Path_object]] by (simp_all add: p(2))
  moreover have same: "has_ledger obs k" "ledger_rec X obs k = Some r" if "withDefaults k = timer_key r" for k
    using that r ledger_rec_has [OF r] has_ledger_withDefaults [of obs k] ledger_rec_withDefaults [of X obs k]
    by simp_all
  moreover have "has_ledger obs' = has_ledger obs"
    using same(1) by (auto simp: due_upd_view(2) [OF u])
  moreover have "ledger_rec X obs' = ledger_rec X obs"
    using same(2) by (auto simp: ledger_rec_def [abs_def] due_upd_view(1) [OF u] entry_for_def fun_eq_iff)
  ultimately show ?thesis by (simp add: repaired_def due_upd_view(3) [OF u])
qed

lemma repaired_point:
  assumes u: "timer_upd X r obs obs'" and r: "ledger_rec X obs (timer_key r) = Some r" "shown r = Some r"
  shows "repaired X obs obs'"
proof -
  obtain p b where p: "TimerKey_Path (timer_key r) = Inr p" "obs' = obs(p \<mapsto> b)"
    using u by (auto simp: timer_upd_def)
  have "workflow_at X obs' = workflow_at X obs" "activity_at X obs' = activity_at X obs"
    "event_at X obs' = event_at X obs"
    using view_frame [OF p(1) [unfolded Path_object]] by (simp_all add: p(2))
  moreover have "ledger_rec X obs k = Some r" if "withDefaults k = timer_key r" for k
    using that r(1) ledger_rec_withDefaults [of X obs k] by simp
  moreover have "ledger_rec X obs' = ledger_rec X obs"
    by (simp add: ledger_rec_def [abs_def] timer_upd_view [OF u])
  ultimately show ?thesis
    using r(2) by (auto simp: repaired_def timer_upd_view [OF u])
qed

lemma repaired_delete:
  assumes p: "TimerKey_Path k = Inr p" and r: "ledger_rec X obs k = Some r" "shown r = None"
  shows "repaired X obs (obs(p := None))"
proof -
  have due: "dueEntryPath k' \<noteq> Inr p" for k' using due_not_timer [of k' p k] p by auto
  have "workflow_at X (obs(p := None)) = workflow_at X obs" "activity_at X (obs(p := None)) = activity_at X obs"
    "event_at X (obs(p := None)) = event_at X obs"
    using view_frame [OF p [unfolded Path_object]] by simp_all
  moreover have "ledger_rec X obs k' = Some r" if "withDefaults k' = withDefaults k" for k'
    using that r(1) ledger_rec_withDefaults [of X obs k] ledger_rec_withDefaults [of X obs k'] by simp
  moreover have "ledger_rec X (obs(p := None)) = ledger_rec X obs" "has_ledger (obs(p := None)) = has_ledger obs"
    using due by (auto simp: ledger_rec_def [abs_def] due_at_def point_at_delete has_ledger_upd fun_eq_iff)
  ultimately show ?thesis
    using r(2) by (auto simp: repaired_def view_deleted(3) [OF p])
qed

lemma PutTimer_repairs:
  assumes r: "ledger_rec X (objs s) (timer_key r) = Some r" "shown r = Some r"
  shows "wpre (PutTimer X c r)
    (\<lambda>_ s1. repaired X (objs s) (objs s1) \<and> timer_at X (objs s1) (timer_key r) = Some r)
    (\<lambda>_ s1. repaired X (objs s) (objs s1)) s"
proof -
  have both: "repaired X (objs s) obs' \<and> timer_at X obs' (timer_key r) = Some r" if t: "timer_both r (objs s) obs'" for obs'
  proof -
    obtain obs1 where o: "due_upd X r (objs s) obs1" "timer_upd X r obs1 obs'"
      using t by (auto simp: timer_both_def)
    note a = repaired_ledger [OF o(1) r(1)]
    have "ledger_rec X obs1 (timer_key r) = Some r" using a r(1) by (simp add: repaired_def)
    from repaired_point [OF o(2) this r(2)] a show ?thesis
      using repaired_trans timer_upd_view(1) [OF o(2)] by auto
  qed
  show ?thesis
    by (rule wpre_mono [OF PutTimer_spec]) (use both repaired_ledger [OF _ r(1)] in auto)
qed

end

section \<open>The scan\<close>

text \<open>A root the scan is given: its quarantine directory lies beside the ledger of a namespace.\<close>

definition root_ok :: "dueLedgerRoot \<Rightarrow> bool" where
  "root_ok rt \<longleftrightarrow> (\<exists>n. slash_free n \<and> quarantinePath rt = StorageRootPrefix @ ''/'' @ n @ ''/_due_invalid/'')"

lemma slash_free_hex: "slash_free (hex_string bs)"
  using hex_string_set [of bs] by (auto simp: slash_free_def hex_digits_def)

lemma quarantine_foreign:
  assumes "root_ok rt"
  shows "object_path x \<noteq> Inr (quarantineTarget (quarantinePath rt) p)"
proof
  assume "object_path x = Inr (quarantineTarget (quarantinePath rt) p)"
  from segs_object_path [OF this] obtain n where "slash_free n"
    "segs (StorageRootPrefix @ ''/'' @ n @ ''/_due_invalid/'' @ hex_string (Sum256 (string_bytes p)) @ ''.binpb'') =
     object_segs (canonical x)"
    using assms by (auto simp: root_ok_def quarantineTarget_def)
  then show False
    by (cases "canonical x") (simp_all add: StorageRootPrefix_def slash_free_hex)
qed

text \<open>
  The timers a scan at \<open>now\<close> should wake: scheduled in the ledger for no later than \<open>now\<close>,
  with a workflow in progress.
\<close>

definition wake_ready :: "('b, 'm) codec_scheme \<Rightarrow> time \<Rightarrow> (path \<Rightarrow> 'b option) \<Rightarrow> TimerKey \<Rightarrow> DueTimer \<Rightarrow> bool" where
  "wake_ready X now obs k d \<longleftrightarrow> withDefaults k = k \<and>
     (\<exists>r w. d = \<lparr>dt_Key = k, dt_Record = Some r, dt_Workflow = Some w\<rparr> \<and>
        ledger_rec X obs k = Some r \<and> due_ready X r \<and> tr_Status r = TIMER_STATUS_SCHEDULED \<and>
        asTime X (tr_FireAt r) \<le> now \<and>
        workflow_at X obs (runKey k) = Some w \<and> wr_Status w = WORKFLOW_STATUS_IN_PROGRESS)"

definition synced :: "('b, 'm) codec_scheme \<Rightarrow> (path \<Rightarrow> 'b option) \<Rightarrow> TimerKey \<Rightarrow> bool" where
  "synced X obs k \<longleftrightarrow> timer_at X obs k = timer_view X obs k"

lemma wake_ready_repaired: "repaired X obs obs' \<Longrightarrow> wake_ready X now obs' = wake_ready X now obs"
  by (simp add: wake_ready_def fun_eq_iff repaired_def)

lemma synced_repaired: "repaired X obs obs' \<Longrightarrow> has_ledger obs k \<Longrightarrow> synced X obs k \<Longrightarrow> synced X obs' k"
  unfolding repaired_def synced_def timer_view_ledger by (elim conjE allE [of _ k]) auto

lemma wake_ready_ledger: "wake_ready X now obs k d \<Longrightarrow> has_ledger obs k"
  by (auto simp: wake_ready_def dest: ledger_rec_has)

text \<open>One entry: what a successful step of the scan did, from bucket \<open>obs\<close> to bucket \<open>obs'\<close>.\<close>

definition scanned ::
  "('b, 'm) codec_scheme \<Rightarrow> time \<Rightarrow> path \<Rightarrow> (path \<Rightarrow> 'b option) \<Rightarrow> DueTimer option \<Rightarrow> (path \<Rightarrow> 'b option) \<Rightarrow> bool" where
  "scanned X now p obs wake obs' \<longleftrightarrow> repaired X obs obs' \<and>
     (\<forall>d. wake = Some d \<longrightarrow>
        (\<exists>k. dueEntryPath k = Inr p \<and> wake_ready X now obs k d \<and> synced X obs k)) \<and>
     (\<forall>k. dueEntryPath k = Inr p \<longrightarrow> has_ledger obs k \<longrightarrow> withDefaults k = k \<longrightarrow> synced X obs' k \<and>
        (\<forall>d. wake_ready X now obs k d \<longrightarrow> synced X obs k \<longrightarrow> wake = Some d))"

text \<open>A sound ledger object: the entry \<open>e\<close> at \<open>p\<close>, of the key \<open>k\<close>, with the prepared record \<open>r\<close>.\<close>

definition prepared_at ::
  "('b, 'm) codec_scheme \<Rightarrow> (path \<Rightarrow> 'b option) \<Rightarrow> path \<Rightarrow> DueTimerEntry \<Rightarrow> TimerKey \<Rightarrow> TimerRecord \<Rightarrow> bool" where
  "prepared_at X obs p e k r \<longleftrightarrow> withDefaults k = k \<and> dueEntryPath k = Inr p \<and>
     ledger_rec X obs k = Some r \<and> timer_key r = k \<and> due_ready X r \<and>
     asTime X (tr_FireAt r) = asTime X (de_FireAt e)"

lemma prepared_only:
  "prepared_at X obs p e k r \<Longrightarrow> dueEntryPath k' = Inr p \<Longrightarrow> withDefaults k' = k' \<Longrightarrow> k' = k"
  using Path_eq_iff(5) [of k p k'] by (auto simp: prepared_at_def)

lemma prepared_view: "prepared_at X obs p e k r \<Longrightarrow> timer_view X obs k = shown r"
  using ledger_rec_has [of X obs k r] by (simp add: timer_view_ledger prepared_at_def)

lemma scanned_quiet:
  assumes e: "prepared_at X obs p e k r" and rep: "repaired X obs obs'" and pt: "timer_at X obs' k = shown r"
    and no: "\<And>d. timer_at X obs k = shown r \<Longrightarrow> \<not> wake_ready X now obs k d"
  shows "scanned X now p obs None obs'"
  unfolding scanned_def synced_def
  using rep pt no repaired_view [OF rep] prepared_view [OF e] by (auto dest!: prepared_only [OF e])

lemma scanned_emit:
  assumes e: "prepared_at X obs p e k r" and pt: "timer_at X obs k = Some r"
    and r: "tr_Status r = TIMER_STATUS_SCHEDULED" "asTime X (de_FireAt e) \<le> now"
    and w: "workflow_at X obs (runKey k) = Some w" "wr_Status w = WORKFLOW_STATUS_IN_PROGRESS"
  shows "scanned X now p obs (Some \<lparr>dt_Key = k, dt_Record = Some r, dt_Workflow = Some w\<rparr>) obs"
    (is "scanned X now p obs (Some ?d) obs")
proof -
  have ready: "wake_ready X now obs k ?d" using e r w by (simp add: wake_ready_def prepared_at_def)
  have unique: "d = ?d" if "wake_ready X now obs k d" for d
    using that e w by (auto simp: wake_ready_def prepared_at_def)
  have sync: "synced X obs k" using pt r prepared_view [OF e] by (simp add: synced_def shown_def)
  have "synced X obs k' \<and> (\<forall>d. wake_ready X now obs k' d \<longrightarrow> Some ?d = Some d)"
    if "dueEntryPath k' = Inr p" "withDefaults k' = k'" for k'
    using prepared_only [OF e that] unique sync by auto
  then show ?thesis
    unfolding scanned_def using ready sync e by (auto simp: prepared_at_def)
qed

lemma not_ready_late:
  "prepared_at X obs p e k r \<Longrightarrow> tr_Status r \<noteq> TIMER_STATUS_SCHEDULED \<or> now < asTime X (de_FireAt e) \<Longrightarrow>
   \<not> wake_ready X now obs k d"
  by (auto simp: wake_ready_def prepared_at_def)

lemma not_ready_idle:
  "\<not> (\<exists>w. workflow_at X obs (runKey k) = Some w \<and> wr_Status w = WORKFLOW_STATUS_IN_PROGRESS) \<Longrightarrow>
   \<not> wake_ready X now obs k d"
  by (auto simp: wake_ready_def)

text \<open>A whole pass over the ledger objects at \<open>ps\<close>, which emitted \<open>ys\<close>.\<close>

definition emitted ::
  "('b, 'm) codec_scheme \<Rightarrow> time \<Rightarrow> (path \<Rightarrow> 'b option) \<Rightarrow> path \<Rightarrow> DueTimer \<Rightarrow> bool" where
  "emitted X now obs p d \<longleftrightarrow> (\<exists>k. dueEntryPath k = Inr p \<and> wake_ready X now obs k d \<and> synced X obs k)"

definition scan_post ::
  "('b, 'm) codec_scheme \<Rightarrow> time \<Rightarrow> (path \<Rightarrow> 'b option) \<Rightarrow> path list \<Rightarrow> DueTimer list \<Rightarrow> (path \<Rightarrow> 'b option) \<Rightarrow> bool" where
  "scan_post X now obs ps ys obs' \<longleftrightarrow> repaired X obs obs' \<and>
     (\<exists>qs. subseq qs ps \<and> list_all2 (emitted X now obs') qs ys) \<and>
     (\<forall>k. dueEntryPath k \<in> Inr ` set ps \<longrightarrow> has_ledger obs k \<longrightarrow> withDefaults k = k \<longrightarrow> synced X obs' k \<and>
        (\<forall>d. wake_ready X now obs k d \<longrightarrow> synced X obs k \<longrightarrow> d \<in> set ys))"

lemma emitted_repaired: "repaired X obs obs' \<Longrightarrow> emitted X now obs p d \<Longrightarrow> emitted X now obs' p d"
  unfolding emitted_def using wake_ready_repaired synced_repaired wake_ready_ledger by metis

lemma scan_post_emitted:
  assumes "scan_post X now obs ps ys obs'" "d \<in> set ys"
  shows "\<exists>p \<in> set ps. emitted X now obs' p d"
proof -
  obtain qs where "subseq qs ps" "list_all2 (emitted X now obs') qs ys" using assms(1) by (auto simp: scan_post_def)
  moreover obtain q where "q \<in> set qs" "emitted X now obs' q d"
    using calculation(2) assms(2) by (metis in_set_conv_nth list_all2_conv_all_nth)
  ultimately show ?thesis using list_emb_set [of "(=)" qs ps q] by blast
qed

lemma scan_post_Nil: "scan_post X now obs [] [] obs"
  by (simp add: scan_post_def)

lemma scan_post_Cons:
  assumes h: "scanned X now p obs wake obs1" and t: "scan_post X now obs1 ps ys obs2"
  shows "scan_post X now obs (p # ps) (case wake of None \<Rightarrow> ys | Some d \<Rightarrow> d # ys) obs2"
proof -
  have r1: "repaired X obs obs1" and r2: "repaired X obs1 obs2" using h t by (simp_all add: scanned_def scan_post_def)
  obtain qs where qs: "subseq qs ps" "list_all2 (emitted X now obs2) qs ys" using t by (auto simp: scan_post_def)
  have em: "emitted X now obs2 p d" if "wake = Some d" for d
    using that h emitted_repaired [OF repaired_trans [OF r1 r2], of now p d] by (auto simp: scanned_def emitted_def)
  have "\<exists>qs. subseq qs (p # ps) \<and> list_all2 (emitted X now obs2) qs (case wake of None \<Rightarrow> ys | Some d \<Rightarrow> d # ys)"
    using qs em by (cases wake) (auto intro: exI [of _ "p # qs"] exI [of _ qs])
  moreover have "synced X obs2 k \<and> (\<forall>d. wake_ready X now obs k d \<longrightarrow> synced X obs k \<longrightarrow>
      d \<in> set (case wake of None \<Rightarrow> ys | Some d \<Rightarrow> d # ys))"
    if k: "dueEntryPath k \<in> Inr ` set (p # ps)" "has_ledger obs k" "withDefaults k = k" for k
  proof -
    have l: "has_ledger obs1 k" using k(2) r1 by (simp add: repaired_def)
    consider "dueEntryPath k = Inr p" | "dueEntryPath k \<in> Inr ` set ps" using k(1) by auto
    then show ?thesis
    proof cases
      case 1
      then have "synced X obs1 k" "\<forall>d. wake_ready X now obs k d \<longrightarrow> synced X obs k \<longrightarrow> wake = Some d"
        using h k by (auto simp: scanned_def)
      then show ?thesis using synced_repaired [OF r2 l] by auto
    next
      case 2
      then have "synced X obs2 k" "\<forall>d. wake_ready X now obs1 k d \<longrightarrow> synced X obs1 k \<longrightarrow> d \<in> set ys"
        using t l k(3) by (auto simp: scan_post_def)
      then show ?thesis
        using wake_ready_repaired [OF r1] synced_repaired [OF r1 k(2)] by (auto split: option.splits)
    qed
  qed
  ultimately show ?thesis using repaired_trans [OF r1 r2] by (simp add: scan_post_def)
qed

context opendal_laws
begin

lemma scanFailed_spec:
  assumes "root_ok rt" "\<And>e s1. repaired X (objs s) (objs s1) \<Longrightarrow> E e s1"
  shows "wpre (scanFailed X c rt p e) Q E s"
proof -
  note t = quarantine_foreign [OF assms(1), of _ p]
  have "file_path (quarantineTarget (quarantinePath rt) p)" by (simp add: quarantineTarget_def file_path_def)
  then show ?thesis
    unfolding scanFailed_def quarantineDueEntry_def
    using foreign_write [where X = X and t = "quarantineTarget (quarantinePath rt) p", OF t]
    by (auto simp: wp Let_def intro!: ops assms(2) split: sum.splits)
qed

lemma getTimerPoint_full:
  "wpre (getTimerPoint X c k)
    (\<lambda>r s1. objs s1 = objs s \<and> r = timer_at X (objs s) k)
    (\<lambda>e s1. objs s1 = objs s \<and> (errors_Is e ErrCorruptRecord \<longrightarrow> timer_at X (objs s) k = None)) s"
  unfolding getTimerPoint_def timer_at_def
  by (rule wpre_mono [OF wpre_conj [OF readPoint_spec readPoint_corrupt]]) (auto intro: Path_file(3))

text \<open>The exits of the step for a sound entry.\<close>

lemma scan_remove:
  assumes e: "prepared_at X (objs s) p e k r" and s1: "objs s1 = objs s"
    and c: "tr_Status r = TIMER_STATUS_CANCELED"
  shows "wpre (andThen (lift (TimerKey_Path k)) (\<lambda>pp. andThen (deleteIfExists X pp) (\<lambda>_. ret None)))
    (\<lambda>wake s1. scanned X now p (objs s) wake (objs s1)) (\<lambda>_ s1. repaired X (objs s) (objs s1)) s1"
proof (cases "TimerKey_Path k")
  case (Inr pp)
  have n: "shown r = None" using c by (simp add: shown_def)
  have rep: "repaired X (objs s) ((objs s)(pp := None))"
    using e n by (intro repaired_delete [OF Inr]) (simp_all add: prepared_at_def)
  have "scanned X now p (objs s) None ((objs s)(pp := None))"
    using n c not_ready_late [OF e] by (intro scanned_quiet [OF e rep]) (simp_all add: view_deleted(3) [OF Inr])
  then show ?thesis
    using Inr rep s1 by (auto simp: wp intro!: wp_deleteIfExists Path_file(3) [OF Inr])
qed (simp add: wp s1)

lemma scan_repair:
  assumes e: "prepared_at X (objs s) p e k r" and s1: "objs s1 = objs s"
    and c: "tr_Status r \<noteq> TIMER_STATUS_CANCELED" "timer_at X (objs s) k \<noteq> Some r"
  shows "wpre (andThen (PutTimer X c r) (\<lambda>_. ret None))
    (\<lambda>wake s1. scanned X now p (objs s) wake (objs s1)) (\<lambda>_ s1. repaired X (objs s) (objs s1)) s1"
  unfolding wpre_andThen wpre_ret
  by (rule wpre_mono [OF PutTimer_repairs])
     (use s1 c e in \<open>auto simp: shown_def prepared_at_def intro!: scanned_quiet [OF e]\<close>)

lemma scan_wake:
  assumes e: "prepared_at X (objs s) p e k r" and s1: "objs s1 = objs s"
    and r: "timer_at X (objs s) k = Some r" "tr_Status r = TIMER_STATUS_SCHEDULED" "asTime X (de_FireAt e) \<le> now"
  shows "wpre (GetWorkflow X c (runKey k))
    (\<lambda>w. wpre (case w of None \<Rightarrow> ret None
       | Some w \<Rightarrow> if wr_Status w \<noteq> WORKFLOW_STATUS_IN_PROGRESS then ret None
           else ret (Some \<lparr>dt_Key = k, dt_Record = Some r, dt_Workflow = Some w\<rparr>))
       (\<lambda>wake s1. scanned X now p (objs s) wake (objs s1)) (\<lambda>_ s1. repaired X (objs s) (objs s1)))
    (\<lambda>err s2. objs s2 = objs s) s1"
proof (rule wpre_mono [OF GetWorkflow_spec], goal_cases)
  case (1 w s2)
  then have at: "objs s2 = objs s" "workflow_at X (objs s) (runKey k) = w" using s1 by simp_all
  show ?case
  proof (cases "\<exists>v. w = Some v \<and> wr_Status v = WORKFLOW_STATUS_IN_PROGRESS")
    case True
    then show ?thesis using scanned_emit [OF e r] at by (auto simp: wp)
  next
    case False
    then have "scanned X now p (objs s) None (objs s2)"
      using at r not_ready_idle [of X "objs s" k now] by (intro scanned_quiet [OF e]) (auto simp: shown_def)
    with False show ?thesis by (auto simp: wp split: option.splits)
  qed
qed (use s1 in simp)

lemma scanPrepared_spec:
  assumes e: "prepared_at X (objs s) p e k r"
  shows "wpre (scanPrepared X c now e r k (runKey k))
    (\<lambda>wake s1. scanned X now p (objs s) wake (objs s1)) (\<lambda>_ s1. repaired X (objs s) (objs s1)) s"
  unfolding scanPrepared_def wpre_andThen [of "attempt (getTimerPoint X c k)"] wpre_attempt
proof (rule wpre_mono [OF getTimerPoint_full], goal_cases)
  case (1 point s1)
  consider "tr_Status r = TIMER_STATUS_CANCELED" "point = None" | "tr_Status r = TIMER_STATUS_CANCELED" "point \<noteq> None"
    | "tr_Status r \<noteq> TIMER_STATUS_CANCELED" "point \<noteq> Some r"
    | "tr_Status r \<noteq> TIMER_STATUS_CANCELED" "point = Some r"
      "tr_Status r \<noteq> TIMER_STATUS_SCHEDULED \<or> now < asTime X (de_FireAt e)"
    | "point = Some r" "tr_Status r = TIMER_STATUS_SCHEDULED" "asTime X (de_FireAt e) \<le> now"
    by fastforce
  then show ?case
  proof cases
    case 2 then show ?thesis using scan_remove [OF e, of s1] 1 by simp
  next
    case 3 then show ?thesis using scan_repair [OF e, of s1] 1 by simp
  next
    case 5
    then show ?thesis
      using scan_wake [OF e, of s1 now c] 1
      by (auto simp: wpre_andThen wpre_attempt wpre_fail elim!: wpre_mono split: option.splits if_splits)
  qed (use 1 not_ready_late [OF e] in \<open>auto simp: wp shown_def intro!: scanned_quiet [OF e]\<close>)
next
  case (2 err s1)
  then show ?case
    using scan_remove [OF e, of s1] scan_repair [OF e, of s1] by (auto simp: wpre_if wpre_fail)
qed

lemma scanDueEntry_spec:
  assumes "root_ok rt"
  shows "wpre (scanDueEntry X c now rt p)
    (\<lambda>wake s1. scanned X now p (objs s) wake (objs s1)) (\<lambda>_ s1. repaired X (objs s) (objs s1)) s"
  unfolding scanDueEntry_def wpre_andThen wpre_attempt
proof (rule wp_readListed, goal_cases)
  case (1 b e s1)
  show ?case
  proof (cases "validateDueEntry X (ledger_path rt) p e (entry_timerKey e) (entry_workflowKey e)")
    case (Inr u)
    have v: "validateDueEntry X (ledger_path rt) p e (entry_timerKey e) (entry_workflowKey e) = Inr ()"
      using Inr by simp
    note e = entry_due_at [where obs = "objs s" and p = p, OF 1(1,2) v]
    obtain r where r: "de_Record e = Some r" "prepared_at X (objs s1) p e (entry_timerKey e) r"
      using e 1(3) by (auto simp: prepared_at_def ledger_rec_def)
    from scanPrepared_spec [OF r(2), of c now] show ?thesis
      using v r(1) e(5) 1(3) by (simp add: Let_def)
  qed (use 1(3) in \<open>auto simp: Let_def intro!: scanFailed_spec [OF assms]\<close>)
next
  case (2 e s1)
  then show ?case
    by (auto simp: wp scanned_def has_ledger_def intro!: scanFailed_spec [OF assms])
qed

lemma scanDuePaths_spec:
  assumes "root_ok rt"
  shows "wpre (scanDuePaths X c now rt ps due)
    (\<lambda>res s1. \<exists>ys. res = due @ ys \<and> scan_post X now (objs s) ps ys (objs s1))
    (\<lambda>_ s1. repaired X (objs s) (objs s1)) s"
proof (induction ps arbitrary: due s)
  case Nil
  then show ?case by (simp add: wp scan_post_Nil)
next
  case (Cons p ps)
  show ?case
    unfolding scanDuePaths.simps wpre_andThen
  proof (rule wpre_mono [OF scanDueEntry_spec [OF assms]], goal_cases)
    case (1 wake s1)
    have "repaired X (objs s) (objs s1)" using 1 by (simp add: scanned_def)
    note tr = repaired_trans [OF this]
    show ?case
    proof (rule wpre_mono [OF Cons.IH], goal_cases)
      case (1 res s2)
      then show ?case using scan_post_Cons [OF \<open>scanned X now p (objs s) wake (objs s1)\<close>]
        by (cases wake) fastforce+
    qed (rule tr)
  qed simp
qed

lemma walk_keeps: "keeps objs (walkOpenDAL X c d)"
  by (simp add: walkOpenDAL_def walk_loop_keeps)

lemma scanDueRoots_spec:
  assumes "\<And>rt. rt \<in> set rts \<Longrightarrow> root_ok rt"
  shows "wpre (scanDueRoots X c now rts due)
    (\<lambda>res s1. repaired X (objs s) (objs s1) \<and>
       (\<exists>ys. res = due @ ys \<and> (\<forall>d \<in> set ys. \<exists>p. emitted X now (objs s1) p d)))
    (\<lambda>_ s1. repaired X (objs s) (objs s1)) s"
  using assms
proof (induction rts arbitrary: due s)
  case (Cons rt rts)
  note walk = keeps_wpre [OF walk_keeps]
  show ?case
    unfolding scanDueRoots.simps wpre_andThen dueLedgerPaths_def
  proof (rule wpre_mono [OF walk], goal_cases)
    case (1 ps s1)
    show ?case
    proof (rule wpre_mono [OF scanDuePaths_spec], goal_cases)
      case (2 due' s2)
      then obtain ys where ys: "due' = due @ ys" "scan_post X now (objs s) ps ys (objs s2)"
        using \<open>objs s1 = objs s\<close> by auto
      then have r: "repaired X (objs s) (objs s2)" "\<forall>d \<in> set ys. \<exists>p. emitted X now (objs s2) p d"
        using scan_post_emitted [OF ys(2)] by (simp add: scan_post_def, blast)
      show ?case
        by (rule wpre_mono [OF Cons.IH])
           (use Cons.prems ys(1) r repaired_trans [OF r(1)] emitted_repaired in \<open>fastforce+\<close>)
    qed (use 1 Cons.prems in auto)
  qed simp
qed (simp add: wp)

lemma collectRoots_spec:
  assumes "\<And>q. q \<in> set es \<Longrightarrow> q \<noteq> root_dir \<Longrightarrow> suffix ''/'' q \<Longrightarrow> \<exists>x. slash_free x \<and> q = StorageRootPrefix @ ''/'' @ x @ ''/''"
    and "\<And>rt. rt \<in> set roots \<Longrightarrow> root_ok rt"
  shows "wpre (collectRoots X c root_dir es roots)
    (\<lambda>rts s1. objs s1 = objs s \<and> (\<forall>rt \<in> set rts. root_ok rt)) (\<lambda>_ s1. objs s1 = objs s) s"
  using assms
proof (induction es arbitrary: roots s)
  case (Cons q es)
  have new: "root_ok \<lparr>ledger_path = TrimSuffix q ''/'' @ ''/_due/'', quarantinePath = TrimSuffix q ''/'' @ ''/_due_invalid/''\<rparr>"
    if q: "q \<noteq> root_dir" "suffix ''/'' q"
  proof -
    obtain x where x: "slash_free x" "q = (StorageRootPrefix @ ''/'' @ x) @ ''/''" using Cons.prems(1) [of q] q by auto
    have "TrimSuffix q ''/'' = StorageRootPrefix @ ''/'' @ x" using q(2) by (simp add: TrimSuffix_def x(2))
    with x(1) show ?thesis by (auto simp: root_ok_def)
  qed
  have IH: "wpre (collectRoots X c root_dir es roots')
      (\<lambda>rts s1. objs s1 = objs s \<and> (\<forall>rt \<in> set rts. root_ok rt)) (\<lambda>_ s1. objs s1 = objs s) s1"
    if "objs s1 = objs s" "\<And>rt. rt \<in> set roots' \<Longrightarrow> root_ok rt" for s1 roots'
    using Cons.IH [of roots' s1] Cons.prems(1) that by auto
  show ?case
    using new Cons.prems(2) by (auto simp: wp Let_def HasSuffix_def intro!: wp_ctx IH)
qed (simp add: wp)

lemma dueRoots_all_spec:
  "wpre (dueRoots X c []) (\<lambda>rts s1. objs s1 = objs s \<and> (\<forall>rt \<in> set rts. root_ok rt)) (\<lambda>_ s1. objs s1 = objs s) s"
proof -
  have dir: "dir_path (StorageRootPrefix @ ''/'')" by (simp add: dir_path_def)
  have found: "wpre (andThen (collectRoots X c (StorageRootPrefix @ ''/'') (entries l) []) (\<lambda>roots.
          case lister_Error l of None \<Rightarrow>
          (case lister_Close l of None \<Rightarrow> ret (sort_key ledger_path roots) | Some e \<Rightarrow> fail e)
          | Some e \<Rightarrow> fail e))
      (\<lambda>rts s1. objs s1 = objs s \<and> (\<forall>rt \<in> set rts. root_ok rt)) (\<lambda>_ s1. objs s1 = objs s) s1"
    if l: "op_List X (StorageRootPrefix @ ''/'') s = (Inr l, s1)" and s1: "objs s1 = objs s" for l s1
  proof (cases "lister_Error l")
    case None
    have "wpre (collectRoots X c (StorageRootPrefix @ ''/'') (entries l) [])
        (\<lambda>rts s2. objs s2 = objs s1 \<and> (\<forall>rt \<in> set rts. root_ok rt)) (\<lambda>_ s2. objs s2 = objs s1) s1"
      by (rule collectRoots_spec) (use list_dirs [OF l None dir] in auto)
    with None s1 show ?thesis
      by (auto simp: wp elim!: wpre_mono split: option.splits)
  next
    case (Some e)
    have "keeps objs (collectRoots X c rd es rts)" for rd es rts
      by (induction es arbitrary: rts) (auto intro!: frame ctx_keeps)
    from keeps_wpre [OF this, of "StorageRootPrefix @ ''/''" "entries l" "[]" s1] Some s1 show ?thesis
      by (auto simp: wp elim!: wpre_mono)
  qed
  show ?thesis
    unfolding dueRoots_def Let_def using found
    by (auto simp: wpre_andThen wpre_attempt wpre_ret wpre_fail intro!: wpre_keepsI [OF list_keeps])
qed

lemma dueRoots_one_spec:
  assumes "ns \<noteq> []"
  shows "wpre (dueRoots X c ns)
    (\<lambda>rts s1. s1 = s \<and> slash_free ns \<and> rts = [\<lparr>ledger_path = dueRoot ns, quarantinePath = dueInvalidRoot ns\<rparr>])
    (\<lambda>_ s1. s1 = s) s"
  using assms
  by (auto simp: dueRoots_def wp key_Validates protovalidate_def withDefaults_def key_rules
      split: sum.splits if_splits)

lemma DueTimers_spec:
  "wpre (DueTimers X c ns now)
    (\<lambda>due s1. repaired X (objs s) (objs s1) \<and> (\<forall>d \<in> set due. \<exists>p. emitted X now (objs s1) p d) \<and>
       sorted (map (dueOrder X) due))
    (\<lambda>_ s1. repaired X (objs s) (objs s1)) s"
proof -
  have roots: "wpre (dueRoots X c ns) (\<lambda>rts s1. objs s1 = objs s \<and> (\<forall>rt \<in> set rts. root_ok rt))
      (\<lambda>_ s1. objs s1 = objs s) s1" if "objs s1 = objs s" for s1
  proof (cases "ns = []")
    case True
    then show ?thesis using dueRoots_all_spec [of c s1] that by simp
  next
    case False
    then show ?thesis
      using that by (auto intro!: wpre_mono [OF dueRoots_one_spec [OF False]] simp: root_ok_def dueInvalidRoot_def)
  qed
  have scan: "wpre (scanDueRoots X c now rts [])
      (\<lambda>due. wpre (ret (sort_key (dueOrder X) due))
        (\<lambda>due s1. repaired X (objs s) (objs s1) \<and> (\<forall>d \<in> set due. \<exists>p. emitted X now (objs s1) p d) \<and>
           sorted (map (dueOrder X) due)) (\<lambda>_ s1. repaired X (objs s) (objs s1)))
      (\<lambda>_ s1. repaired X (objs s) (objs s1)) s1" if "objs s1 = objs s" "\<forall>rt \<in> set rts. root_ok rt" for rts s1
    by (rule wpre_mono [OF scanDueRoots_spec]) (use that in \<open>auto simp: wpre_ret\<close>)
  show ?thesis
    unfolding DueTimers_def
    by (auto simp: wpre_andThen wpre_fail intro!: wp_ctx wpre_mono [OF roots] scan)
qed

lemma DueTimers_namespace_spec:
  assumes "ns \<noteq> []"
  shows "wpre (DueTimers X c ns now)
    (\<lambda>due s1. \<exists>ys. due = sort_key (dueOrder X) ys \<and>
       scan_post X now (objs s) (sorted_list_of_set (records_below (objs s) (dueRoot ns))) ys (objs s1))
    (\<lambda>_ s1. True) s"
proof -
  have rt: "root_ok \<lparr>ledger_path = dueRoot ns, quarantinePath = dueInvalidRoot ns\<rparr>" if "slash_free ns"
    using that by (auto simp: root_ok_def dueInvalidRoot_def)
  have dir: "dir_path (dueRoot ns)" by (simp add: dir_path_def dueRoot_def)
  have scan: "wpre (scanDuePaths X c now \<lparr>ledger_path = dueRoot ns, quarantinePath = dueInvalidRoot ns\<rparr>
        (sorted_list_of_set (records_below (objs s) (dueRoot ns))) [])
      (\<lambda>due. wpre (ret due) (\<lambda>due. wpre (ret (sort_key (dueOrder X) due))
        (\<lambda>due s1. \<exists>ys. due = sort_key (dueOrder X) ys \<and>
          scan_post X now (objs s) (sorted_list_of_set (records_below (objs s) (dueRoot ns))) ys (objs s1))
        (\<lambda>_ s1. True)) (\<lambda>_ s1. True)) (\<lambda>_ s1. True) s1"
    if "slash_free ns" "objs s1 = objs s" for s1
    by (rule wpre_mono [OF scanDuePaths_spec [OF rt]]) (use that in \<open>auto simp: wpre_ret\<close>)
  show ?thesis
    unfolding DueTimers_def
    by (auto simp: wpre_andThen wpre_fail dueLedgerPaths_def
        intro!: wp_ctx wpre_mono [OF dueRoots_one_spec [OF assms]] wp_walk dir scan)
qed

text \<open>After a pass over a namespace every timer of it with a ledger entry is in step.\<close>

lemma namespace_path:
  assumes "has_ledger obs k" "withDefaults k = k" "Namespace k = ns"
  shows "dueEntryPath k \<in> Inr ` records_below obs (dueRoot ns)"
proof -
  obtain p where p: "dueEntryPath k = Inr p" "obs p \<noteq> None" using assms(1) by (auto simp: has_ledger_def)
  have "p = dueRoot ns @ WorkflowID k @ ''/'' @ RunID k @ ''/'' @ TimerID k @ ''.binpb''"
    using object_path_eq [of "ObjDue k" p] p(1) assms(2,3) by simp
  then have "prefix (dueRoot ns) p" by simp
  moreover have "suffix ''.binpb'' p" using object_path_binpb [of "ObjDue k" p] p(1) by simp
  ultimately show ?thesis using p by (auto simp: records_below_def)
qed

lemma two_scans:
  assumes ns: "ns \<noteq> []"
    and scan: "DueTimers X c ns now s = (Inr due1, s1)" "DueTimers X c' ns now' s1 = (Inr due2, s2)"
    and k: "wake_ready X now' (objs s) k d" "Namespace k = ns"
  shows "d \<in> set due2"
proof -
  obtain ys1 where 1: "scan_post X now (objs s) (sorted_list_of_set (records_below (objs s) (dueRoot ns))) ys1 (objs s1)"
    using wpre_InrD [OF DueTimers_namespace_spec [OF ns] scan(1)] by auto
  obtain ys2 where 2: "due2 = sort_key (dueOrder X) ys2"
    "scan_post X now' (objs s1) (sorted_list_of_set (records_below (objs s1) (dueRoot ns))) ys2 (objs s2)"
    using wpre_InrD [OF DueTimers_namespace_spec [OF ns] scan(2)] by auto
  have rep: "repaired X (objs s) (objs s1)" using 1 by (simp add: scan_post_def)
  have kd: "withDefaults k = k" "has_ledger (objs s) k" "has_ledger (objs s1) k"
    using k(1) wake_ready_ledger [OF k(1)] rep by (auto simp: wake_ready_def repaired_def)
  have "synced X (objs s1) k"
    using 1 namespace_path [OF kd(2,1) k(2)] kd by (simp add: scan_post_def)
  moreover have "wake_ready X now' (objs s1) k d" using k(1) wake_ready_repaired [OF rep] by simp
  ultimately show ?thesis
    using 2 namespace_path [OF kd(3,1) k(2)] kd by (simp add: scan_post_def)
qed

lemma emitted_path: "emitted X now obs p d \<Longrightarrow> dueEntryPath (dt_Key d) = Inr p"
  by (auto simp: emitted_def wake_ready_def)

lemma scan_distinct:
  assumes "ns \<noteq> []" "DueTimers X c ns now s = (Inr due, s1)"
  shows "distinct (map dt_Key due)"
proof -
  obtain ys qs where ys: "due = sort_key (dueOrder X) ys" "list_all2 (emitted X now (objs s1)) qs ys"
    and "subseq qs (sorted_list_of_set (records_below (objs s) (dueRoot ns)))"
    using wpre_InrD [OF DueTimers_namespace_spec [OF assms(1)] assms(2)] by (auto simp: scan_post_def)
  then have "distinct qs" using subseqs_distinctD [of qs] by simp
  moreover have "map (\<lambda>d. dueEntryPath (dt_Key d)) ys = map Inr qs"
    using ys(2) by (induction rule: list_all2_induct) (auto simp: emitted_path)
  ultimately have "distinct (map (\<lambda>d. dueEntryPath (dt_Key d)) ys)" by (simp add: distinct_map)
  then have "distinct ys \<and> inj_on dt_Key (set ys)" by (auto simp: distinct_map inj_on_def)
  then show ?thesis by (simp add: ys(1) distinct_map)
qed

lemma emitted_sound:
  assumes "emitted X now obs p d"
  shows "ValidateDueTimer X d [] now = Inr ()"
    and "timer_at X obs (dt_Key d) = dt_Record d" "ledger_rec X obs (dt_Key d) = dt_Record d"
    and "timer_view X obs (dt_Key d) = dt_Record d" "workflow_at X obs (runKey (dt_Key d)) = dt_Workflow d"
proof -
  obtain k r w where d: "d = \<lparr>dt_Key = k, dt_Record = Some r, dt_Workflow = Some w\<rparr>" "withDefaults k = k"
    and r: "ledger_rec X obs k = Some r" "due_ready X r" "tr_Status r = TIMER_STATUS_SCHEDULED"
      "asTime X (tr_FireAt r) \<le> now" and w: "workflow_at X obs (runKey k) = Some w"
      "wr_Status w = WORKFLOW_STATUS_IN_PROGRESS" and sync: "synced X obs k"
    using assms by (auto simp: emitted_def wake_ready_def)
  have key: "timer_key r = k"
    using r(1) due_at_record [of obs k] d(2) by (auto simp: ledger_rec_def bind_eq_Some_conv)
  have "timer_view X obs k = Some r"
    using r ledger_rec_has [OF r(1)] by (simp add: timer_view_ledger shown_def)
  with sync d r w show "timer_at X obs (dt_Key d) = dt_Record d" "ledger_rec X obs (dt_Key d) = dt_Record d"
    "timer_view X obs (dt_Key d) = dt_Record d" "workflow_at X obs (runKey (dt_Key d)) = dt_Workflow d"
    by (simp_all add: synced_def)
  have "ValidateWorkflowRecord X (Some w) (runKey k) = Inr ()"
    using w(1) by (auto simp: workflow_at_def point_at_Some)
  moreover have "ValidateTimerRecord (Some r) k = Inr ()" using r(2) key by (simp add: due_ready_def)
  moreover have "tr_FireAt r \<noteq> None" "checkValid X (tr_FireAt r)" using r(2,3) by (auto simp: due_ready_def)
  ultimately show "ValidateDueTimer X d [] now = Inr ()"
    using r w by (simp add: ValidateDueTimer_def d(1))
qed

end

section \<open>Properties of the timer readers\<close>

text \<open>
  C10. The merged timer listing is exact. When \<open>ListTimers\<close> succeeds it returns precisely the
  records that point reads through \<open>GetTimer\<close> return for the timers of that run (filtered by
  status), ledger entries overriding stale or damaged point records and tombstones hiding
  deleted ones, in strictly increasing order of timer ID, and it changes nothing.
\<close>

theorem ListTimers_exact:
  assumes "opendal_laws X objs dirs"
    and "ListTimers X ctx key status s = (Inr rs, s1)"
  shows "objs s1 = objs s \<and>
    set rs = {r. \<exists>k. runKey (withDefaults k) = withDefaults key \<and> timer_view X (objs s) k = Some r \<and>
      (status = TIMER_STATUS_UNSPECIFIED \<or> tr_Status r = status)} \<and>
    sorted_wrt (<) (map (\<lambda>r. TimerID (TimerKeyFromProto (tr_Key r))) rs)"
  using wpre_InrD [OF opendal_laws.ListTimers_spec [OF assms(1)] assms(2)] .

text \<open>A bucket with one complete timer, one whose point write was lost, and a running workflow.\<close>

definition late_timer_example :: TimerRecord where
  "late_timer_example = timer_example\<lparr>tr_Key := Some (NewTimerKey ''orders'' ''r1'' ''half'')\<rparr>"

definition scan_example :: memory where
  "scan_example =
     (snd (PutTimer mem_env Caller late_timer_example
       ((snd (PutTimer mem_env Caller timer_example
         (snd (PutWorkflow mem_env Caller (workflow_example ''r1'' 0) empty_memory))))\<lparr>mem_budget := Some 1\<rparr>)))
     \<lparr>mem_budget := None\<rparr>"

theorem ListTimers_exact_witness:
  "set (projr (fst (ListTimers mem_env Caller (NewWorkflowKey ''orders'' ''r1'') TIMER_STATUS_SCHEDULED scan_example))) =
     {r. \<exists>k. runKey (withDefaults k) = withDefaults (NewWorkflowKey ''orders'' ''r1'') \<and>
        timer_view mem_env (mem_lookup scan_example) k = Some r \<and>
        (TIMER_STATUS_SCHEDULED = TIMER_STATUS_UNSPECIFIED \<or> tr_Status r = TIMER_STATUS_SCHEDULED)} \<and>
   length (projr (fst (ListTimers mem_env Caller (NewWorkflowKey ''orders'' ''r1'') TIMER_STATUS_SCHEDULED scan_example))) = 2"
proof
  have ok: "\<not> isl (fst (ListTimers mem_env Caller (NewWorkflowKey ''orders'' ''r1'') TIMER_STATUS_SCHEDULED scan_example))"
    by code_simp
  from ListTimers_exact [OF mem.opendal_laws_axioms run_Inr [OF ok]]
  show "set (projr (fst (ListTimers mem_env Caller (NewWorkflowKey ''orders'' ''r1'') TIMER_STATUS_SCHEDULED scan_example))) =
     {r. \<exists>k. runKey (withDefaults k) = withDefaults (NewWorkflowKey ''orders'' ''r1'') \<and>
        timer_view mem_env (mem_lookup scan_example) k = Some r \<and>
        (TIMER_STATUS_SCHEDULED = TIMER_STATUS_UNSPECIFIED \<or> tr_Status r = TIMER_STATUS_SCHEDULED)}"
    by blast
  show "length (projr (fst (ListTimers mem_env Caller (NewWorkflowKey ''orders'' ''r1'') TIMER_STATUS_SCHEDULED scan_example))) = 2"
    by code_simp
qed

text \<open>
  C11. A due scan is invisible and its wakes are safe. Whatever \<open>DueTimers\<close> returns, for one
  namespace or for all of them, no reader can tell that it ran: every timer and every workflow
  record reads as before. When it succeeds, every wake it emits passes the due-timer check of
  the trust boundary for the requested time, its record is at the same time the ledger's
  record and the point record, it is what \<open>GetTimer\<close> reads, its workflow record is the stored
  one and in progress, and the wakes are ordered by fire time and key.
\<close>

theorem DueTimers_safe:
  assumes "opendal_laws X objs dirs" and "DueTimers X ctx namespace now s = (res, s1)"
  shows "timer_view X (objs s1) = timer_view X (objs s) \<and> workflow_at X (objs s1) = workflow_at X (objs s) \<and>
    (\<forall>due. res = Inr due \<longrightarrow> sorted (map (dueOrder X) due) \<and>
       (\<forall>d \<in> set due. ValidateDueTimer X d [] now = Inr () \<and>
          ledger_rec X (objs s1) (dt_Key d) = dt_Record d \<and> timer_at X (objs s1) (dt_Key d) = dt_Record d \<and>
          timer_view X (objs s1) (dt_Key d) = dt_Record d \<and>
          workflow_at X (objs s1) (runKey (dt_Key d)) = dt_Workflow d))"
proof -
  have spec: "repaired X (objs s) (objs s1) \<and> (\<forall>due. res = Inr due \<longrightarrow> sorted (map (dueOrder X) due) \<and>
      (\<forall>d \<in> set due. \<exists>p. emitted X now (objs s1) p d))"
    using opendal_laws.DueTimers_spec [OF assms(1), of ctx namespace now s] assms(2)
    by (cases res) (auto simp: wpre_def)
  then have "timer_view X (objs s1) = timer_view X (objs s)" "workflow_at X (objs s1) = workflow_at X (objs s)"
    using repaired_view [of X "objs s" "objs s1"] by (simp_all add: repaired_def)
  moreover have "ValidateDueTimer X d [] now = Inr () \<and>
      ledger_rec X (objs s1) (dt_Key d) = dt_Record d \<and> timer_at X (objs s1) (dt_Key d) = dt_Record d \<and>
      timer_view X (objs s1) (dt_Key d) = dt_Record d \<and>
      workflow_at X (objs s1) (runKey (dt_Key d)) = dt_Workflow d" if d: "res = Inr due" "d \<in> set due" for due d
  proof -
    obtain p where "emitted X now (objs s1) p d" using spec d by blast
    from opendal_laws.emitted_sound [OF assms(1) this] show ?thesis by (intro conjI)
  qed
  ultimately show ?thesis using spec by simp
qed

theorem DueTimers_safe_witness:
  "length (projr (fst (DueTimers mem_env Caller [] 1 scan_example))) = 1 \<and>
   ValidateDueTimer mem_env (hd (projr (fst (DueTimers mem_env Caller [] 1 scan_example)))) [] 1 = Inr () \<and>
   timer_view mem_env (mem_lookup (snd (DueTimers mem_env Caller [] 1 scan_example))) =
   timer_view mem_env (mem_lookup scan_example)"
proof -
  have n: "length (projr (fst (DueTimers mem_env Caller [] 1 scan_example))) = 1"
    and ok: "\<not> isl (fst (DueTimers mem_env Caller [] 1 scan_example))"
    by code_simp+
  from n have "hd (projr (fst (DueTimers mem_env Caller [] 1 scan_example))) \<in>
      set (projr (fst (DueTimers mem_env Caller [] 1 scan_example)))"
    by (intro hd_in_set) auto
  with n DueTimers_safe [OF mem.opendal_laws_axioms run_Inr [OF ok]] show ?thesis by blast
qed



end
