(* ===== verification/Store.thy ===== *)
theory Store
  imports DueScan
begin

text \<open>
  The storage interface of \<open>core/go/storage/store.go\<close>, through which the workflow runtime and
  the adapters reach every record, and its contract.

  An implementation of \<open>Store\<close> is a record of operations over a world. What it promises is
  stated against an abstract database, one partial function per record kind: a read returns
  what the database holds and changes nothing; a write has its effect on the database exactly,
  or, if it reports an error, possibly none; a listing returns the records of the run. The
  locale \<open>store_laws\<close> is that contract. \<open>OpenDALStore\<close> is proved to fulfil it, which is the
  refinement of the bucket layout (paths, two-copy timers, latest-run pointers, due ledger) by
  the abstract database.
\<close>

section \<open>The interface\<close>

text \<open>A point read returns \<open>(record, found)\<close>; the two results need not agree in general.\<close>

type_synonym 'r lookup = "bool \<times> 'r option"

definition found :: "'r option \<Rightarrow> 'r lookup" where
  "found r = (r \<noteq> None, r)"

record 's Store =
  st_GetActivity :: "context \<Rightarrow> ActivityKey \<Rightarrow> ('s, ActivityRecord lookup) prog"
  st_PutActivity :: "context \<Rightarrow> ActivityRecord \<Rightarrow> ('s, unit) prog"
  st_ListActivities :: "context \<Rightarrow> WorkflowKey \<Rightarrow> ('s, ActivityRecord list) prog"
  st_DeleteActivity :: "context \<Rightarrow> ActivityKey \<Rightarrow> ('s, bool) prog"
  st_GetEvent :: "context \<Rightarrow> EventKey \<Rightarrow> ('s, EventRecord lookup) prog"
  st_PutEvent :: "context \<Rightarrow> EventRecord \<Rightarrow> ('s, unit) prog"
  st_ListEvents :: "context \<Rightarrow> WorkflowKey \<Rightarrow> ('s, EventRecord list) prog"
  st_DeleteEvent :: "context \<Rightarrow> EventKey \<Rightarrow> ('s, bool) prog"
  st_GetTimer :: "context \<Rightarrow> TimerKey \<Rightarrow> ('s, TimerRecord lookup) prog"
  st_PutTimer :: "context \<Rightarrow> TimerRecord \<Rightarrow> ('s, unit) prog"
  st_ListTimers :: "context \<Rightarrow> WorkflowKey \<Rightarrow> TimerStatus \<Rightarrow> ('s, TimerRecord list) prog"
  st_DeleteTimer :: "context \<Rightarrow> TimerKey \<Rightarrow> ('s, bool) prog"
  st_GetWorkflow :: "context \<Rightarrow> WorkflowKey \<Rightarrow> ('s, WorkflowRecord lookup) prog"
  st_PutWorkflow :: "context \<Rightarrow> WorkflowRecord \<Rightarrow> ('s, unit) prog"
  st_GetLatestWorkflowRun :: "context \<Rightarrow> string \<Rightarrow> string \<Rightarrow> ('s, LatestWorkflowRunPointer lookup) prog"
  st_DeleteWorkflow :: "context \<Rightarrow> WorkflowKey \<Rightarrow> ('s, bool) prog"
  st_DueTimers :: "context \<Rightarrow> string \<Rightarrow> time \<Rightarrow> ('s, DueTimer list) prog"

text \<open>\<open>OpenDALStore\<close> as a \<open>Store\<close>.\<close>

definition OpenDALStore :: "('s, 'b, 'm) env_scheme \<Rightarrow> 's Store" where
  "OpenDALStore X = \<lparr>
     st_GetActivity = (\<lambda>ctx key. andThen (GetActivity X ctx key) (\<lambda>r. ret (found r))),
     st_PutActivity = PutActivity X,
     st_ListActivities = ListActivities X,
     st_DeleteActivity = DeleteActivity X,
     st_GetEvent = (\<lambda>ctx key. andThen (GetEvent X ctx key) (\<lambda>r. ret (found r))),
     st_PutEvent = PutEvent X,
     st_ListEvents = ListEvents X,
     st_DeleteEvent = DeleteEvent X,
     st_GetTimer = (\<lambda>ctx key. andThen (GetTimer X ctx key) (\<lambda>r. ret (found r))),
     st_PutTimer = PutTimer X,
     st_ListTimers = ListTimers X,
     st_DeleteTimer = DeleteTimer X,
     st_GetWorkflow = (\<lambda>ctx key. andThen (GetWorkflow X ctx key) (\<lambda>r. ret (found r))),
     st_PutWorkflow = PutWorkflow X,
     st_GetLatestWorkflowRun = (\<lambda>ctx ns workflowID.
        andThen (GetLatestWorkflowRun X ctx ns workflowID) (\<lambda>r. ret (found r))),
     st_DeleteWorkflow = DeleteWorkflow X,
     st_DueTimers = DueTimers X\<rparr>"

section \<open>The abstract database\<close>

record database =
  db_workflow :: "WorkflowKey \<Rightarrow> WorkflowRecord option"
  db_activity :: "ActivityKey \<Rightarrow> ActivityRecord option"
  db_timer :: "TimerKey \<Rightarrow> TimerRecord option"
  db_event :: "EventKey \<Rightarrow> EventRecord option"

text \<open>A table update: the default namespace is one with the empty one.\<close>

definition set_key :: "('m WorkflowKey_scheme \<Rightarrow> 'r option) \<Rightarrow> 'm WorkflowKey_scheme \<Rightarrow> 'r option \<Rightarrow>
    'm WorkflowKey_scheme \<Rightarrow> 'r option" where
  "set_key t k v = (\<lambda>k'. if withDefaults k' = withDefaults k then v else t k')"

definition put_workflow :: "WorkflowRecord \<Rightarrow> database \<Rightarrow> database" where
  "put_workflow r d = d\<lparr>db_workflow := set_key (db_workflow d) (WorkflowKeyFromProto (wr_Key r)) (Some r)\<rparr>"

definition put_activity :: "ActivityRecord \<Rightarrow> database \<Rightarrow> database" where
  "put_activity r d = d\<lparr>db_activity := set_key (db_activity d) (ActivityKeyFromProto (ar_Key r)) (Some r)\<rparr>"

text \<open>A canceled timer reads as absent.\<close>

definition put_timer :: "TimerRecord \<Rightarrow> database \<Rightarrow> database" where
  "put_timer r d = d\<lparr>db_timer := set_key (db_timer d) (TimerKeyFromProto (tr_Key r)) (shown r)\<rparr>"

definition put_event :: "EventRecord \<Rightarrow> database \<Rightarrow> database" where
  "put_event r d = d\<lparr>db_event := set_key (db_event d) (EventKeyFromProto (er_Key r)) (Some r)\<rparr>"

definition del_workflow :: "WorkflowKey \<Rightarrow> database \<Rightarrow> database" where
  "del_workflow k d = d\<lparr>db_workflow := set_key (db_workflow d) k None\<rparr>"

definition del_activity :: "ActivityKey \<Rightarrow> database \<Rightarrow> database" where
  "del_activity k d = d\<lparr>db_activity := set_key (db_activity d) k None\<rparr>"

definition del_timer :: "TimerKey \<Rightarrow> database \<Rightarrow> database" where
  "del_timer k d = d\<lparr>db_timer := set_key (db_timer d) k None\<rparr>"

definition del_event :: "EventKey \<Rightarrow> database \<Rightarrow> database" where
  "del_event k d = d\<lparr>db_event := set_key (db_event d) k None\<rparr>"

lemmas db_ops = put_workflow_def put_activity_def put_timer_def put_event_def
  del_workflow_def del_activity_def del_timer_def del_event_def

text \<open>The records of one run in a table.\<close>

definition in_run :: "('m WorkflowKey_scheme \<Rightarrow> 'r option) \<Rightarrow> WorkflowKey \<Rightarrow> 'r set" where
  "in_run t key = {r. \<exists>k. runKey (withDefaults k) = withDefaults key \<and> t k = Some r}"

text \<open>
  \<open>reads db m P\<close>: \<open>m\<close> changes nothing and its result satisfies \<open>P\<close> of the database.
  \<open>writes db m f\<close>: \<open>m\<close> applies \<open>f\<close> to the database, or fails and may have done nothing.
\<close>

definition reads :: "('s \<Rightarrow> 'd) \<Rightarrow> ('s, 'a) prog \<Rightarrow> ('d \<Rightarrow> 'a \<Rightarrow> bool) \<Rightarrow> bool" where
  "reads db m P \<longleftrightarrow> (\<forall>s r s1. m s = (r, s1) \<longrightarrow> db s1 = db s \<and> (\<forall>x. r = Inr x \<longrightarrow> P (db s) x))"

definition writes :: "('s \<Rightarrow> 'd) \<Rightarrow> ('s, 'a) prog \<Rightarrow> ('d \<Rightarrow> 'd) \<Rightarrow> bool" where
  "writes db m f \<longleftrightarrow> (\<forall>s r s1. m s = (r, s1) \<longrightarrow> db s1 = f (db s) \<or> isl r \<and> db s1 = db s)"

lemma wp_reads:
  assumes "reads db m P" and "\<And>x s1. db s1 = db s \<Longrightarrow> P (db s) x \<Longrightarrow> Q x s1" and "\<And>e s1. db s1 = db s \<Longrightarrow> E e s1"
  shows "wpre m Q E s"
  by (rule wpreI) (use assms in \<open>auto simp: reads_def\<close>)

lemma wp_writes:
  assumes "writes db m f" and "\<And>x s1. db s1 = f (db s) \<Longrightarrow> Q x s1"
    and "\<And>e s1. db s1 = f (db s) \<or> db s1 = db s \<Longrightarrow> E e s1"
  shows "wpre m Q E s"
  by (rule wpreI) (use assms in \<open>fastforce simp: writes_def\<close>)+

lemma readsI:
  assumes "\<And>s. wpre m (\<lambda>x s1. db s1 = db s \<and> P (db s) x) (\<lambda>_ s1. db s1 = db s) s"
  shows "reads db m P"
proof (unfold reads_def, intro allI impI)
  fix s r s1 assume "m s = (r, s1)"
  then show "db s1 = db s \<and> (\<forall>x. r = Inr x \<longrightarrow> P (db s) x)"
    using assms [of s] by (cases r) (simp_all add: wpre_def)
qed

lemma writesI:
  assumes "\<And>s. wpre m (\<lambda>x s1. db s1 = f (db s)) (\<lambda>_ s1. db s1 = f (db s) \<or> db s1 = db s) s"
  shows "writes db m f"
proof (unfold writes_def, intro allI impI)
  fix s r s1 assume "m s = (r, s1)"
  then show "db s1 = f (db s) \<or> isl r \<and> db s1 = db s"
    using assms [of s] by (cases r) (auto simp: wpre_def)
qed

section \<open>The contract\<close>

locale store_laws = well_known_types W for W :: "'m wkt_scheme" +
  fixes S :: "'s Store" and db :: "'s \<Rightarrow> database"
  assumes workflow_valid: "db_workflow (db s) wk = Some w \<Longrightarrow> ValidateWorkflowRecord W (Some w) wk = Inr ()"
    and activity_valid: "db_activity (db s) ak = Some a \<Longrightarrow> ValidateActivityRecord (Some a) ak = Inr ()"
    and timer_valid: "db_timer (db s) tk = Some t \<Longrightarrow> ValidateTimerRecord (Some t) tk = Inr ()"
    and event_valid: "db_event (db s) ek = Some e \<Longrightarrow> ValidateEventRecord (Some e) ek = Inr ()"
    and workflow_default: "db_workflow (db s) (withDefaults wk) = db_workflow (db s) wk"
    and activity_default: "db_activity (db s) (withDefaults ak) = db_activity (db s) ak"
    and timer_default: "db_timer (db s) (withDefaults tk) = db_timer (db s) tk"
    and event_default: "db_event (db s) (withDefaults ek) = db_event (db s) ek"
    and GetWorkflow_law: "reads db (st_GetWorkflow S c wk) (\<lambda>d x. x = found (db_workflow d wk))"
    and GetActivity_law: "reads db (st_GetActivity S c ak) (\<lambda>d x. x = found (db_activity d ak))"
    and GetTimer_law: "reads db (st_GetTimer S c tk) (\<lambda>d x. x = found (db_timer d tk))"
    and GetEvent_law: "reads db (st_GetEvent S c ek) (\<lambda>d x. x = found (db_event d ek))"
    and PutWorkflow_law: "writes db (st_PutWorkflow S c w) (put_workflow w)"
    and PutActivity_law: "writes db (st_PutActivity S c a) (put_activity a)"
    and PutTimer_law: "writes db (st_PutTimer S c t) (put_timer t)"
    and PutEvent_law: "writes db (st_PutEvent S c e) (put_event e)"
    and DeleteWorkflow_law: "writes db (st_DeleteWorkflow S c wk) (del_workflow wk)"
    and DeleteActivity_law: "writes db (st_DeleteActivity S c ak) (del_activity ak)"
    and DeleteTimer_law: "writes db (st_DeleteTimer S c tk) (del_timer tk)"
    and DeleteEvent_law: "writes db (st_DeleteEvent S c ek) (del_event ek)"
    and ListActivities_law: "reads db (st_ListActivities S c wk) (\<lambda>d x. set x = in_run (db_activity d) wk)"
    and ListEvents_law: "reads db (st_ListEvents S c wk) (\<lambda>d x. set x = in_run (db_event d) wk)"
    and ListTimers_law: "reads db (st_ListTimers S c wk status) (\<lambda>d x.
          set x = {t \<in> in_run (db_timer d) wk. status = TIMER_STATUS_UNSPECIFIED \<or> tr_Status t = status})"
    and GetLatestWorkflowRun_law: "reads db (st_GetLatestWorkflowRun S c n i) (\<lambda>d x. True)"
    and DueTimers_law: "reads db (st_DueTimers S c n now) (\<lambda>d x. \<forall>due \<in> set x.
          ValidateDueTimer W due [] now = Inr () \<and> db_timer d (dt_Key due) = dt_Record due \<and>
          db_workflow d (runKey (dt_Key due)) = dt_Workflow due)"
begin

lemmas wp_store =
  wp_reads [OF GetWorkflow_law] wp_reads [OF GetActivity_law] wp_reads [OF GetTimer_law] wp_reads [OF GetEvent_law]
  wp_writes [OF PutWorkflow_law] wp_writes [OF PutActivity_law] wp_writes [OF PutTimer_law] wp_writes [OF PutEvent_law]
  wp_writes [OF DeleteWorkflow_law] wp_writes [OF DeleteActivity_law] wp_writes [OF DeleteTimer_law] wp_writes [OF DeleteEvent_law]
  wp_reads [OF ListActivities_law] wp_reads [OF ListEvents_law] wp_reads [OF ListTimers_law]
  wp_reads [OF GetLatestWorkflowRun_law] wp_reads [OF DueTimers_law]

end

section \<open>The bucket as a database\<close>

definition database_of :: "('b, 'm) codec_scheme \<Rightarrow> (path \<Rightarrow> 'b option) \<Rightarrow> database" where
  "database_of X obs = \<lparr>db_workflow = workflow_at X obs, db_activity = activity_at X obs,
     db_timer = timer_view X obs, db_event = event_at X obs\<rparr>"

lemma timer_view_frame:
  assumes "object_path y = Inr p" "\<And>k. y \<noteq> ObjTimer k" "\<And>k. y \<noteq> ObjDue k"
  shows "timer_view X (obs(p := x)) = timer_view X obs"
proof -
  have "canonical (ObjDue k) \<noteq> canonical y" for k using assms(3) by (cases y) auto
  then have due: "dueEntryPath k \<noteq> Inr p" for k
    unfolding Path_object using object_path_distinct [OF _ assms(1)] by metis
  then have "has_ledger (obs(p := x)) = has_ledger obs" "due_at X (obs(p := x)) = due_at X obs"
    by (auto simp: has_ledger_upd due_at_def fun_eq_iff intro!: point_at_other)
  then show ?thesis by (intro ext) (simp add: timer_view_def view_frame(3) [OF assms(1,2)])
qed

lemma kind_frame:
  "ActivityKey_Path a = Inr p \<Longrightarrow> workflow_at X (obs(p := x)) = workflow_at X obs \<and>
     timer_view X (obs(p := x)) = timer_view X obs \<and> event_at X (obs(p := x)) = event_at X obs"
  "WorkflowKey_Path w = Inr p \<Longrightarrow> activity_at X (obs(p := x)) = activity_at X obs \<and>
     timer_view X (obs(p := x)) = timer_view X obs \<and> event_at X (obs(p := x)) = event_at X obs"
  "EventKey_Path e = Inr p \<Longrightarrow> workflow_at X (obs(p := x)) = workflow_at X obs \<and>
     timer_view X (obs(p := x)) = timer_view X obs \<and> activity_at X (obs(p := x)) = activity_at X obs"
  "TimerKey_Path t = Inr p \<Longrightarrow> workflow_at X (obs(p := x)) = workflow_at X obs \<and>
     event_at X (obs(p := x)) = event_at X obs \<and> activity_at X (obs(p := x)) = activity_at X obs"
  "dueEntryPath t = Inr p \<Longrightarrow> workflow_at X (obs(p := x)) = workflow_at X obs \<and>
     event_at X (obs(p := x)) = event_at X obs \<and> activity_at X (obs(p := x)) = activity_at X obs"
  using view_frame [of "ObjActivity a" p, where X = X and obs = obs] timer_view_frame [of "ObjActivity a" p X obs]
    view_frame [of "ObjWorkflow w" p, where X = X and obs = obs] timer_view_frame [of "ObjWorkflow w" p X obs]
    view_frame [of "ObjEvent e" p, where X = X and obs = obs] timer_view_frame [of "ObjEvent e" p X obs]
    view_frame [of "ObjTimer t" p, where X = X and obs = obs] view_frame [of "ObjDue t" p, where X = X and obs = obs]
  by simp_all

lemma pointer_frame:
  assumes "latestWorkflowRunPointerPath n i = Inr p"
  shows "database_of X (obs(p := x)) = database_of X obs"
  using assms view_frame [of "ObjLatest n i" p, where X = X and obs = obs] timer_view_frame [of "ObjLatest n i" p X obs]
  by (simp add: database_of_def)

lemma point_at_valid: "point_at obs kp u v = Some r \<Longrightarrow> v r = Inr ()"
  by (auto simp: point_at_Some)

lemma view_default:
  "workflow_at X obs (withDefaults wk) = workflow_at X obs wk"
  "activity_at X obs (withDefaults ak) = activity_at X obs ak"
  "event_at X obs (withDefaults ek) = event_at X obs ek"
  by (simp_all add: workflow_at_def activity_at_def event_at_def WorkflowKey_Path_def ActivityKey_Path_def EventKey_Path_def
     ValidateWorkflowRecord_def ValidateActivityRecord_def ValidateEventRecord_def Let_def cong: if_cong)

context opendal_laws
begin

abbreviation bucket_db :: "'s \<Rightarrow> database" where
  "bucket_db s \<equiv> database_of X (objs s)"

lemma db_activity_write:
  assumes "activity_write r s s1"
  shows "bucket_db s1 = put_activity r (bucket_db s)"
proof -
  obtain p b where "ActivityKey_Path (ActivityKeyFromProto (ar_Key r)) = Inr p" "objs s1 = (objs s)(p \<mapsto> b)"
    using assms by (auto simp: activity_write_def)
  with activity_at_written [OF assms] kind_frame(1) [of _ p X "objs s"] show ?thesis
    by (simp add: database_of_def put_activity_def set_key_def)
qed

lemma db_event_write:
  assumes "event_write r s s1"
  shows "bucket_db s1 = put_event r (bucket_db s)"
proof -
  obtain p b where "EventKey_Path (EventKeyFromProto (er_Key r)) = Inr p" "objs s1 = (objs s)(p \<mapsto> b)"
    using assms by (auto simp: event_write_def)
  with event_at_written [OF assms] kind_frame(3) [of _ p X "objs s"] show ?thesis
    by (simp add: database_of_def put_event_def set_key_def)
qed

lemma db_workflow_upd:
  assumes "workflow_upd X r obs obs'"
  shows "database_of X obs' = put_workflow r (database_of X obs)"
proof -
  obtain p b where "WorkflowKey_Path (WorkflowKeyFromProto (wr_Key r)) = Inr p" "obs' = obs(p \<mapsto> b)"
    using assms by (auto simp: workflow_upd_def)
  with workflow_at_upd [OF assms] kind_frame(2) [of _ p X obs] show ?thesis
    by (simp add: database_of_def put_workflow_def set_key_def)
qed

lemma db_pointer_upd: "pointer_upd X r rt ro obs obs' \<Longrightarrow> database_of X obs' = database_of X obs"
  using pointer_frame by (auto simp: pointer_upd_def)

lemma db_put_done: "put_done X r obs obs' \<Longrightarrow> database_of X obs' = put_workflow r (database_of X obs)"
  using db_workflow_upd db_pointer_upd by (auto simp: put_done_def split: if_splits)

lemma db_put_partial:
  "put_partial X r obs obs' \<Longrightarrow> database_of X obs' = put_workflow r (database_of X obs) \<or> database_of X obs' = database_of X obs"
  using db_workflow_upd db_pointer_upd by (auto simp: put_partial_def)

lemma db_due_upd:
  assumes "due_upd X r obs obs'"
  shows "database_of X obs' = put_timer r (database_of X obs)"
proof -
  obtain p b where "dueEntryPath (timer_key r) = Inr p" "obs' = obs(p \<mapsto> b)"
    using assms by (auto simp: due_upd_def)
  with timer_view_due_upd [OF assms] kind_frame(5) [of _ p X obs] show ?thesis
    by (simp add: database_of_def put_timer_def set_key_def)
qed

lemma db_timer_point:
  assumes "TimerKey_Path k = Inr p" and "timer_view X (obs(p := x)) = timer_view X obs"
  shows "database_of X (obs(p := x)) = database_of X obs"
  using assms(2) kind_frame(4) [OF assms(1), of X obs] by (simp add: database_of_def)

lemma db_timer_both:
  assumes "timer_both r obs obs'"
  shows "database_of X obs' = put_timer r (database_of X obs)"
proof -
  obtain obs1 p b where o: "due_upd X r obs obs1" "TimerKey_Path (timer_key r) = Inr p" "obs' = obs1(p \<mapsto> b)"
    using assms by (auto simp: timer_both_def timer_upd_def)
  have "timer_view X obs' = timer_view X obs1" using timer_view_put [OF assms] timer_view_due_upd [OF o(1)] by simp
  with db_timer_point [OF o(2)] db_due_upd [OF o(1)] o(3) show ?thesis by simp
qed

lemma db_timer_gone:
  assumes "timer_gone k obs obs'"
  shows "database_of X obs' = del_timer k (database_of X obs)"
proof -
  obtain r obs1 where o: "timer_key r = withDefaults k" "due_upd X (tombstone r) obs obs1"
    "obs' = obs1 \<or> (\<exists>p. TimerKey_Path k = Inr p \<and> obs' = obs1(p := None))"
    using assms by (auto simp: timer_gone_def)
  have "timer_view X obs' = timer_view X obs1"
    using timer_view_gone [OF assms] timer_view_due_upd [OF o(2)] o(1) by (simp cong: if_cong)
  with o(3) db_timer_point have "database_of X obs' = database_of X obs1" by auto
  with db_due_upd [OF o(2)] o(1) show ?thesis
    by (simp add: put_timer_def del_timer_def set_key_def tombstone_def shown_def cong: if_cong)
qed

lemma db_deleted:
  "ActivityKey_Path a = Inr p \<Longrightarrow> database_of X (obs(p := None)) = del_activity a (database_of X obs)"
  "WorkflowKey_Path w = Inr p \<Longrightarrow> database_of X (obs(p := None)) = del_workflow w (database_of X obs)"
  "EventKey_Path e = Inr p \<Longrightarrow> database_of X (obs(p := None)) = del_event e (database_of X obs)"
  using kind_frame(1) [of a p X obs] kind_frame(2) [of w p X obs] kind_frame(3) [of e p X obs]
  by (simp_all add: view_deleted database_of_def del_activity_def del_workflow_def del_event_def set_key_def)

lemma timer_view_valid:
  assumes "timer_view X obs k = Some r"
  shows "ValidateTimerRecord (Some r) k = Inr ()"
  using assms due_at_record [of obs k]
  by (auto simp: timer_view_def shown_def due_ready_def ValidateTimerRecord_ok timer_at_def point_at_Some bind_eq_Some_conv
      split: if_splits option.splits)

lemma db_no_timer: "timer_view X (objs s) k = None \<Longrightarrow> bucket_db s = del_timer k (bucket_db s)"
  using timer_view_withDefaults [of X "objs s"]
  by (auto simp: database_of_def del_timer_def set_key_def fun_eq_iff) metis

end

sublocale opendal_laws \<subseteq> bucket: store_laws X "OpenDALStore X" "\<lambda>s. database_of X (objs s)"
proof (unfold_locales, goal_cases)
  case (1 s wk w)
  then show ?case by (auto simp: database_of_def workflow_at_def point_at_Some)
next
  case (2 s ak a)
  then show ?case by (auto simp: database_of_def activity_at_def point_at_Some)
next
  case (3 s tk t)
  then show ?case by (auto simp: database_of_def intro: timer_view_valid)
next
  case (4 s ek e)
  then show ?case by (auto simp: database_of_def event_at_def point_at_Some)
next
  case (9 c wk)
  show ?case
    by (rule readsI) (auto simp: OpenDALStore_def wp database_of_def intro!: wpre_mono [OF GetWorkflow_spec])
next
  case (10 c ak)
  show ?case
    by (rule readsI) (auto simp: OpenDALStore_def wp database_of_def intro!: wpre_mono [OF GetActivity_spec])
next
  case (11 c tk)
  show ?case
    by (rule readsI) (auto simp: OpenDALStore_def wp database_of_def intro!: wpre_mono [OF wp_GetTimer_spec])
next
  case (12 c ek)
  show ?case
    by (rule readsI) (auto simp: OpenDALStore_def wp database_of_def intro!: wpre_mono [OF GetEvent_spec])
next
  case (13 c w)
  show ?case
    by (rule writesI) (auto simp: OpenDALStore_def db_put_done dest: db_put_partial intro!: wpre_mono [OF PutWorkflow_spec])
next
  case (14 c a)
  show ?case
    by (rule writesI) (auto simp: OpenDALStore_def db_activity_write intro!: wpre_mono [OF PutActivity_spec])
next
  case (15 c t)
  show ?case
    by (rule writesI) (auto simp: OpenDALStore_def db_timer_both db_due_upd intro!: wpre_mono [OF PutTimer_spec])
next
  case (16 c e)
  show ?case
    by (rule writesI) (auto simp: OpenDALStore_def db_event_write intro!: wpre_mono [OF PutEvent_spec])
next
  case (17 c wk)
  show ?case
    by (rule writesI) (auto simp: OpenDALStore_def db_deleted intro!: wpre_mono [OF DeleteWorkflow_spec])
next
  case (18 c ak)
  show ?case
    by (rule writesI) (auto simp: OpenDALStore_def db_deleted intro!: wpre_mono [OF DeleteActivity_spec])
next
  case (19 c tk)
  have no: "bucket_db s1 = del_timer tk (bucket_db s)" if "objs s1 = objs s" "timer_view X (objs s) tk = None" for s s1
    using db_no_timer [OF that(2)] that(1) by simp
  show ?case
    by (rule writesI) (auto simp: OpenDALStore_def db_timer_gone intro: no intro!: wpre_mono [OF DeleteTimer_spec])
next
  case (20 c ek)
  show ?case
    by (rule writesI) (auto simp: OpenDALStore_def db_deleted intro!: wpre_mono [OF DeleteEvent_spec])
next
  case (21 c wk)
  show ?case
    by (rule readsI) (auto simp: OpenDALStore_def database_of_def in_run_def intro!: wpre_mono [OF ListActivities_spec])
next
  case (22 c wk)
  show ?case
    by (rule readsI) (auto simp: OpenDALStore_def database_of_def in_run_def intro!: wpre_mono [OF ListEvents_spec])
next
  case (23 c wk status)
  show ?case
    by (rule readsI) (auto simp: OpenDALStore_def database_of_def in_run_def intro!: wpre_mono [OF ListTimers_spec])
next
  case (24 c n i)
  show ?case
    by (rule readsI) (auto simp: OpenDALStore_def wp database_of_def intro!: wpre_mono [OF GetLatestWorkflowRun_spec])
next
  case (25 c n now)
  have rep: "bucket_db s1 = bucket_db s" if "repaired X (objs s) (objs s1)" for s s1
    using that repaired_view [OF that] by (simp add: database_of_def repaired_def)
  have due: "st_DueTimers (OpenDALStore X) c n now = DueTimers X c n now" by (simp add: OpenDALStore_def)
  show ?case
    unfolding due
  proof (rule readsI, rule wpre_mono [OF DueTimers_spec], goal_cases)
    case (1 s due s1)
    then have r: "bucket_db s1 = bucket_db s" using rep by blast
    have "ValidateDueTimer X d [] now = Inr () \<and> db_timer (bucket_db s) (dt_Key d) = dt_Record d \<and>
        db_workflow (bucket_db s) (runKey (dt_Key d)) = dt_Workflow d" if d: "d \<in> set due" for d
    proof -
      obtain p where "emitted X now (objs s1) p d" using 1 d by blast
      from emitted_sound [OF this] show ?thesis unfolding r [symmetric] by (simp add: database_of_def)
    qed
    with r show ?case by blast
  qed (use rep in blast)
qed (auto simp: database_of_def view_default timer_view_withDefaults)

context opendal_laws
begin

lemma bucket_store: "store_laws X (OpenDALStore X) bucket_db"
  by unfold_locales

end

section \<open>Properties\<close>

text \<open>
  C16. The object store implements the record database. On every operator that behaves as
  documented, \<open>OpenDALStore\<close> refines the abstract database that its bucket stands for: each of
  the seventeen operations of the \<open>Store\<close> interface has on the database the effect, and returns
  the answer, that the contract \<open>store_laws\<close> fixes for it, whatever crashes, repairs and
  pointer updates happened in the bucket; an operation that fails did what it was asked to do
  or nothing; and every record the database shows is valid for the key it is shown at.
\<close>

theorem opendal_implements_store:
  assumes "opendal_laws X objs dirs"
  shows "store_laws X (OpenDALStore X) (\<lambda>s. database_of X (objs s))"
  by (rule opendal_laws.bucket_store [OF assms])

theorem opendal_implements_store_witness:
  "fst (st_GetTimer (OpenDALStore mem_env) Caller (NewTimerKey ''orders'' ''r1'' ''half'') scan_example) =
     Inr (found (db_timer (database_of mem_env (mem_lookup scan_example)) (NewTimerKey ''orders'' ''r1'' ''half''))) \<and>
   fst (projr (fst (st_GetTimer (OpenDALStore mem_env) Caller (NewTimerKey ''orders'' ''r1'' ''half'') scan_example)))"
proof -
  have ok: "\<not> isl (fst (st_GetTimer (OpenDALStore mem_env) Caller (NewTimerKey ''orders'' ''r1'' ''half'') scan_example))"
    and found: "fst (projr (fst (st_GetTimer (OpenDALStore mem_env) Caller (NewTimerKey ''orders'' ''r1'' ''half'') scan_example)))"
    by code_simp+
  have "store_laws mem_env (OpenDALStore mem_env) (\<lambda>s. database_of mem_env (mem_lookup s))"
    by (rule opendal_implements_store [OF mem.opendal_laws_axioms])
  from store_laws.GetTimer_law [OF this, unfolded reads_def, rule_format, OF run_Inr [OF ok]] found
  show ?thesis using run_Inr [OF ok] by (metis fst_conv)
qed

end
