(* ===== verification/Cache.thy ===== *)
theory Cache
  imports Store "HOL-Library.AList"
begin

text \<open>
  The run-scoped cache of \<open>core/go/workflow/cache.go\<close>: a write-through cache of the records of
  one workflow run, wrapped around a \<open>Store\<close>. The cached operations are computations over a
  world that has the cache's fields beside the world of the inner store. A Go map is an
  association list without repeated keys; its iteration order, which Go leaves open, is the
  list's. A mutex guards each access to the maps, so an operation is one step here.

  Shown here: as long as every call succeeds, a cached store that starts out coherent answers
  every sequence of calls as the inner database would.
\<close>

section \<open>State\<close>

type_synonym 'r slots = "(string \<times> 'r option) list"

record runScopedCache =
  scope :: WorkflowKey
  workflowKnown :: bool
  cachedWorkflow :: "WorkflowRecord option"
  activitiesListed :: bool
  activities :: "ActivityRecord slots"
  timersListed :: bool
  timers :: "TimerRecord slots"
  eventsListed :: bool
  events :: "EventRecord slots"

definition newRunScopedCache :: "WorkflowKey \<Rightarrow> runScopedCache" where
  "newRunScopedCache key = \<lparr>scope = key, workflowKnown = False, cachedWorkflow = None,
     activitiesListed = False, activities = [], timersListed = False, timers = [],
     eventsListed = False, events = []\<rparr>"

record 's cworld =
  inner :: 's
  cache :: runScopedCache

type_synonym ('s, 'm, 'a) cprog = "(('s, 'm) cworld_scheme, 'a) prog"

text \<open>A call of the inner store, and a change of the cache's fields.\<close>

definition onInner :: "('s, 'a) prog \<Rightarrow> ('s, 'm, 'a) cprog" where
  "onInner m w = (case m (inner w) of (r, s) \<Rightarrow> (r, w\<lparr>inner := s\<rparr>))"

definition gets :: "('w \<Rightarrow> 'a) \<Rightarrow> ('w, 'a) prog" where
  "gets f w = (Inr (f w), w)"

definition modify :: "('w \<Rightarrow> 'w) \<Rightarrow> ('w, unit) prog" where
  "modify f w = (Inr (), f w)"

abbreviation onCache :: "(runScopedCache \<Rightarrow> runScopedCache) \<Rightarrow> ('s, 'm, unit) cprog" where
  "onCache f \<equiv> modify (\<lambda>w. w\<lparr>cache := f (cache w)\<rparr>)"

definition inScope :: "runScopedCache \<Rightarrow> 'k WorkflowKey_scheme \<Rightarrow> bool" where
  "inScope c key \<longleftrightarrow> Namespace key = Namespace (scope c) \<and> WorkflowID key = WorkflowID (scope c) \<and>
     RunID key = RunID (scope c)"

definition setActivity :: "string \<Rightarrow> ActivityRecord option \<Rightarrow> runScopedCache \<Rightarrow> runScopedCache" where
  "setActivity i r c = c\<lparr>activities := AList.update i r (activities c)\<rparr>"

definition setTimer :: "string \<Rightarrow> TimerRecord option \<Rightarrow> runScopedCache \<Rightarrow> runScopedCache" where
  "setTimer i r c = c\<lparr>timers := AList.update i r (timers c)\<rparr>"

definition setEvent :: "string \<Rightarrow> EventRecord option \<Rightarrow> runScopedCache \<Rightarrow> runScopedCache" where
  "setEvent i r c = c\<lparr>events := AList.update i r (events c)\<rparr>"

definition setWorkflow :: "WorkflowRecord option \<Rightarrow> runScopedCache \<Rightarrow> runScopedCache" where
  "setWorkflow r c = c\<lparr>workflowKnown := True, cachedWorkflow := r\<rparr>"

section \<open>Loading through the inner store\<close>

definition validateFoundRecord :: "bool \<Rightarrow> bool \<Rightarrow> unit result" where
  "validateFoundRecord fnd present =
     (if fnd = present then Inr ()
      else Inl (Wrapped ''store read has found with payload absent'' [Sentinel ErrCorruptRecord]))"

text \<open>The common body of the four \<open>load\<close> functions.\<close>

definition loadRecord ::
  "('s, 'r lookup) prog \<Rightarrow> ('r option \<Rightarrow> unit result) \<Rightarrow> ('s, 'm, 'r option) cprog" where
  "loadRecord get validate =
     andThen (onInner get) (\<lambda>(fnd, record).
     andThen (lift (validateFoundRecord fnd (record \<noteq> None))) (\<lambda>_.
     if \<not> fnd then ret None
     else andThen (lift (validate record)) (\<lambda>_. ret record)))"

definition loadWorkflow ::
  "'w wkt_scheme \<Rightarrow> 's Store \<Rightarrow> context \<Rightarrow> WorkflowKey \<Rightarrow> ('s, 'm, WorkflowRecord option) cprog" where
  "loadWorkflow W S ctx key = loadRecord (st_GetWorkflow S ctx key) (\<lambda>r. ValidateWorkflowRecord W r key)"

definition loadActivity :: "'s Store \<Rightarrow> context \<Rightarrow> ActivityKey \<Rightarrow> ('s, 'm, ActivityRecord option) cprog" where
  "loadActivity S ctx key = loadRecord (st_GetActivity S ctx key) (\<lambda>r. ValidateActivityRecord r key)"

definition loadTimer :: "'s Store \<Rightarrow> context \<Rightarrow> TimerKey \<Rightarrow> ('s, 'm, TimerRecord option) cprog" where
  "loadTimer S ctx key = loadRecord (st_GetTimer S ctx key) (\<lambda>r. ValidateTimerRecord r key)"

definition loadEvent :: "'s Store \<Rightarrow> context \<Rightarrow> EventKey \<Rightarrow> ('s, 'm, EventRecord option) cprog" where
  "loadEvent S ctx key = loadRecord (st_GetEvent S ctx key) (\<lambda>r. ValidateEventRecord r key)"

section \<open>Point operations\<close>

text \<open>The body shared by the cached point reads of activities, timers and events.\<close>

definition cachedGet ::
  "bool \<Rightarrow> 'r slots \<Rightarrow> bool \<Rightarrow> string \<Rightarrow> ('r option \<Rightarrow> runScopedCache \<Rightarrow> runScopedCache) \<Rightarrow>
   ('s, 'm, 'r option) cprog \<Rightarrow> ('s, 'm, 'r option) cprog" where
  "cachedGet scoped slots allKnown i keep load =
     (if \<not> scoped then load
      else case map_of slots i of
        Some rec \<Rightarrow> ret rec
      | None \<Rightarrow> if allKnown then ret None
          else andThen load (\<lambda>rec. andThen (onCache (keep rec)) (\<lambda>_. ret rec)))"

definition refresh ::
  "bool \<Rightarrow> ('r option \<Rightarrow> runScopedCache \<Rightarrow> runScopedCache) \<Rightarrow>
   ('s, 'm, 'r option) cprog \<Rightarrow> ('s, 'm, 'r option) cprog" where
  "refresh scoped keep load =
     (if \<not> scoped then load
      else andThen load (\<lambda>rec. andThen (onCache (keep rec)) (\<lambda>_. ret rec)))"

definition cGetWorkflow ::
  "'w wkt_scheme \<Rightarrow> 's Store \<Rightarrow> context \<Rightarrow> WorkflowKey \<Rightarrow> ('s, 'm, WorkflowRecord option) cprog" where
  "cGetWorkflow W S ctx key =
     andThen (gets cache) (\<lambda>c.
     if \<not> inScope c key then loadWorkflow W S ctx key
     else if workflowKnown c then ret (cachedWorkflow c)
     else andThen (loadWorkflow W S ctx key) (\<lambda>rec.
       andThen (onCache (\<lambda>c. c\<lparr>workflowKnown := True,
          cachedWorkflow := (if rec \<noteq> None then rec else cachedWorkflow c)\<rparr>)) (\<lambda>_. ret rec)))"

definition cGetActivity :: "'s Store \<Rightarrow> context \<Rightarrow> ActivityKey \<Rightarrow> ('s, 'm, ActivityRecord option) cprog" where
  "cGetActivity S ctx key =
     andThen (gets cache) (\<lambda>c. cachedGet (inScope c key) (activities c) (activitiesListed c) (ActivityID key)
       (setActivity (ActivityID key)) (loadActivity S ctx key))"

definition cGetTimer :: "'s Store \<Rightarrow> context \<Rightarrow> TimerKey \<Rightarrow> ('s, 'm, TimerRecord option) cprog" where
  "cGetTimer S ctx key =
     andThen (gets cache) (\<lambda>c. cachedGet (inScope c key) (timers c) (timersListed c) (TimerID key)
       (setTimer (TimerID key)) (loadTimer S ctx key))"

definition cGetEvent :: "'s Store \<Rightarrow> context \<Rightarrow> EventKey \<Rightarrow> ('s, 'm, EventRecord option) cprog" where
  "cGetEvent S ctx key =
     andThen (gets cache) (\<lambda>c. cachedGet (inScope c key) (events c) (eventsListed c) (EventID key)
       (setEvent (EventID key)) (loadEvent S ctx key))"

definition refreshActivity :: "'s Store \<Rightarrow> context \<Rightarrow> ActivityKey \<Rightarrow> ('s, 'm, ActivityRecord option) cprog" where
  "refreshActivity S ctx key =
     andThen (gets cache) (\<lambda>c. refresh (inScope c key) (setActivity (ActivityID key)) (loadActivity S ctx key))"

definition refreshTimer :: "'s Store \<Rightarrow> context \<Rightarrow> TimerKey \<Rightarrow> ('s, 'm, TimerRecord option) cprog" where
  "refreshTimer S ctx key =
     andThen (gets cache) (\<lambda>c. refresh (inScope c key) (setTimer (TimerID key)) (loadTimer S ctx key))"

text \<open>Write-through: the inner write, then the cache if the key is in scope.\<close>

definition cPutWorkflow :: "'s Store \<Rightarrow> context \<Rightarrow> WorkflowRecord \<Rightarrow> ('s, 'm, unit) cprog" where
  "cPutWorkflow S ctx record =
     andThen (onInner (st_PutWorkflow S ctx record)) (\<lambda>_.
     onCache (\<lambda>c. if inScope c (WorkflowKeyFromProto (wr_Key record)) then setWorkflow (Some record) c else c))"

definition cPutActivity :: "'s Store \<Rightarrow> context \<Rightarrow> ActivityRecord \<Rightarrow> ('s, 'm, unit) cprog" where
  "cPutActivity S ctx record =
     (let key = ActivityKeyFromProto (ar_Key record) in
     andThen (onInner (st_PutActivity S ctx record)) (\<lambda>_.
     onCache (\<lambda>c. if inScope c key then setActivity (ActivityID key) (Some record) c else c)))"

definition cPutTimer :: "'s Store \<Rightarrow> context \<Rightarrow> TimerRecord \<Rightarrow> ('s, 'm, unit) cprog" where
  "cPutTimer S ctx record =
     (let key = TimerKeyFromProto (tr_Key record) in
     andThen (onInner (st_PutTimer S ctx record)) (\<lambda>_.
     onCache (\<lambda>c. if inScope c key then setTimer (TimerID key) (Some record) c else c)))"

definition cPutEvent :: "'s Store \<Rightarrow> context \<Rightarrow> EventRecord \<Rightarrow> ('s, 'm, unit) cprog" where
  "cPutEvent S ctx record =
     (let key = EventKeyFromProto (er_Key record) in
     andThen (onInner (st_PutEvent S ctx record)) (\<lambda>_.
     onCache (\<lambda>c. if inScope c key then setEvent (EventID key) (Some record) c else c)))"

definition cDeleteWorkflow :: "'s Store \<Rightarrow> context \<Rightarrow> WorkflowKey \<Rightarrow> ('s, 'm, bool) cprog" where
  "cDeleteWorkflow S ctx key =
     andThen (onInner (st_DeleteWorkflow S ctx key)) (\<lambda>deleted.
     andThen (onCache (\<lambda>c. if inScope c key then setWorkflow None c else c)) (\<lambda>_. ret deleted))"

definition cDeleteActivity :: "'s Store \<Rightarrow> context \<Rightarrow> ActivityKey \<Rightarrow> ('s, 'm, bool) cprog" where
  "cDeleteActivity S ctx key =
     andThen (onInner (st_DeleteActivity S ctx key)) (\<lambda>deleted.
     andThen (onCache (\<lambda>c. if inScope c key then setActivity (ActivityID key) None c else c)) (\<lambda>_. ret deleted))"

definition cDeleteTimer :: "'s Store \<Rightarrow> context \<Rightarrow> TimerKey \<Rightarrow> ('s, 'm, bool) cprog" where
  "cDeleteTimer S ctx key =
     andThen (onInner (st_DeleteTimer S ctx key)) (\<lambda>deleted.
     andThen (onCache (\<lambda>c. if inScope c key then setTimer (TimerID key) None c else c)) (\<lambda>_. ret deleted))"

definition cDeleteEvent :: "'s Store \<Rightarrow> context \<Rightarrow> EventKey \<Rightarrow> ('s, 'm, bool) cprog" where
  "cDeleteEvent S ctx key =
     andThen (onInner (st_DeleteEvent S ctx key)) (\<lambda>deleted.
     andThen (onCache (\<lambda>c. if inScope c key then setEvent (EventID key) None c else c)) (\<lambda>_. ret deleted))"

section \<open>Listings\<close>

definition sameCachedWorkflowRun :: "WorkflowKey \<Rightarrow> 'm WorkflowKey_scheme \<Rightarrow> bool" where
  "sameCachedWorkflowRun key recordKey \<longleftrightarrow> withDefaults key = withDefaults (runKey recordKey)"

fun validateActivityList :: "WorkflowKey \<Rightarrow> ActivityRecord list \<Rightarrow> unit result" where
  "validateActivityList key [] = Inr ()"
| "validateActivityList key (record # records) =
     (let recordKey = ActivityKeyFromProto (ar_Key record) in
      case ValidateActivityRecord (Some record) recordKey of
        Inl e \<Rightarrow> Inl e
      | Inr _ \<Rightarrow> if \<not> sameCachedWorkflowRun key recordKey
          then Inl (Wrapped ''activity list payload crosses the requested workflow run'' [Sentinel ErrCorruptRecord])
          else validateActivityList key records)"

fun validateTimerList :: "WorkflowKey \<Rightarrow> TimerRecord list \<Rightarrow> TimerStatus \<Rightarrow> unit result" where
  "validateTimerList key [] status = Inr ()"
| "validateTimerList key (record # records) status =
     (let recordKey = TimerKeyFromProto (tr_Key record) in
      case ValidateTimerRecord (Some record) recordKey of
        Inl e \<Rightarrow> Inl e
      | Inr _ \<Rightarrow> if \<not> sameCachedWorkflowRun key recordKey
          then Inl (Wrapped ''timer list payload crosses the requested workflow run'' [Sentinel ErrCorruptRecord])
          else if status \<noteq> TIMER_STATUS_UNSPECIFIED \<and> tr_Status record \<noteq> status
          then Inl (Wrapped ''timer list payload does not match the requested status'' [Sentinel ErrCorruptRecord])
          else validateTimerList key records status)"

fun validateEventList :: "WorkflowKey \<Rightarrow> EventRecord list \<Rightarrow> unit result" where
  "validateEventList key [] = Inr ()"
| "validateEventList key (record # records) =
     (let recordKey = EventKeyFromProto (er_Key record) in
      case ValidateEventRecord (Some record) recordKey of
        Inl e \<Rightarrow> Inl e
      | Inr _ \<Rightarrow> if \<not> sameCachedWorkflowRun key recordKey
          then Inl (Wrapped ''event list payload crosses the requested workflow run'' [Sentinel ErrCorruptRecord])
          else validateEventList key records)"

text \<open>Every listed record into its slot, and the kind marked as listed.\<close>

definition storeAll :: "('r \<Rightarrow> string) \<Rightarrow> 'r list \<Rightarrow> 'r slots \<Rightarrow> 'r slots" where
  "storeAll name records slots = fold (\<lambda>r. AList.update (name r) (Some r)) records slots"

definition setActivities :: "ActivityRecord list \<Rightarrow> runScopedCache \<Rightarrow> runScopedCache" where
  "setActivities records c = c\<lparr>activities := storeAll (\<lambda>r. ActivityID (ActivityKeyFromProto (ar_Key r))) records (activities c),
     activitiesListed := True\<rparr>"

definition setTimers :: "TimerRecord list \<Rightarrow> runScopedCache \<Rightarrow> runScopedCache" where
  "setTimers records c = c\<lparr>timers := storeAll (\<lambda>r. TimerID (TimerKeyFromProto (tr_Key r))) records (timers c),
     timersListed := True\<rparr>"

definition setEvents :: "EventRecord list \<Rightarrow> runScopedCache \<Rightarrow> runScopedCache" where
  "setEvents records c = c\<lparr>events := storeAll (\<lambda>r. EventID (EventKeyFromProto (er_Key r))) records (events c),
     eventsListed := True\<rparr>"

definition present :: "'r slots \<Rightarrow> 'r list" where
  "present slots = List.map_filter snd slots"

definition cListActivities :: "'s Store \<Rightarrow> context \<Rightarrow> WorkflowKey \<Rightarrow> ('s, 'm, ActivityRecord list) cprog" where
  "cListActivities S ctx key =
     andThen (gets cache) (\<lambda>c.
     if inScope c key \<and> activitiesListed c then ret (present (activities c))
     else andThen (onInner (st_ListActivities S ctx key)) (\<lambda>records.
       andThen (lift (validateActivityList key records)) (\<lambda>_.
       andThen (onCache (if inScope c key then setActivities records else id)) (\<lambda>_. ret records))))"

definition cListTimers :: "'s Store \<Rightarrow> context \<Rightarrow> WorkflowKey \<Rightarrow> TimerStatus \<Rightarrow> ('s, 'm, TimerRecord list) cprog" where
  "cListTimers S ctx key status =
     andThen (gets cache) (\<lambda>c.
     if inScope c key \<and> timersListed c
     then ret (filter (\<lambda>r. \<not> (status \<noteq> TIMER_STATUS_UNSPECIFIED \<and> tr_Status r \<noteq> status)) (present (timers c)))
     else andThen (onInner (st_ListTimers S ctx key status)) (\<lambda>records.
       andThen (lift (validateTimerList key records status)) (\<lambda>_.
       andThen (onCache (if inScope c key \<and> status = TIMER_STATUS_UNSPECIFIED then setTimers records else id)) (\<lambda>_.
       ret records))))"

definition cListEvents :: "'s Store \<Rightarrow> context \<Rightarrow> WorkflowKey \<Rightarrow> ('s, 'm, EventRecord list) cprog" where
  "cListEvents S ctx key =
     andThen (gets cache) (\<lambda>c.
     if inScope c key \<and> eventsListed c then ret (present (events c))
     else andThen (onInner (st_ListEvents S ctx key)) (\<lambda>records.
       andThen (lift (validateEventList key records)) (\<lambda>_.
       andThen (onCache (if inScope c key then setEvents records else id)) (\<lambda>_. ret records))))"

text \<open>
  The three listings of \<open>prefetch\<close> run in goroutines of their own and all of them end before
  the first error is looked at; they only read, so one order stands for all.
\<close>

definition prefetch :: "'s Store \<Rightarrow> context \<Rightarrow> ('s, 'm, unit) cprog" where
  "prefetch S ctx =
     andThen (gets (\<lambda>w. scope (cache w))) (\<lambda>key.
     andThen (attempt (onInner (st_ListActivities S ctx key))) (\<lambda>acts.
     andThen (attempt (onInner (st_ListTimers S ctx key TIMER_STATUS_UNSPECIFIED))) (\<lambda>tims.
     andThen (attempt (onInner (st_ListEvents S ctx key))) (\<lambda>evts.
     andThen (lift acts) (\<lambda>as.
     andThen (lift tims) (\<lambda>ts.
     andThen (lift evts) (\<lambda>es.
     andThen (lift (validateActivityList key as)) (\<lambda>_.
     andThen (lift (validateTimerList key ts TIMER_STATUS_UNSPECIFIED)) (\<lambda>_.
     andThen (lift (validateEventList key es)) (\<lambda>_.
     onCache (setEvents es \<circ> setTimers ts \<circ> setActivities as)))))))))))"

section \<open>Discovery\<close>

definition cGetLatestWorkflowRun :: "'w wkt_scheme \<Rightarrow> 's Store \<Rightarrow> context \<Rightarrow> string \<Rightarrow> string \<Rightarrow>
    ('s, 'm, LatestWorkflowRunPointer option) cprog" where
  "cGetLatestWorkflowRun W S ctx ns workflowID =
     andThen (onInner (st_GetLatestWorkflowRun S ctx ns workflowID)) (\<lambda>(fnd, pointer).
     andThen (lift (validateFoundRecord fnd (pointer \<noteq> None))) (\<lambda>_.
     case pointer of
       None \<Rightarrow> ret None
     | Some p \<Rightarrow>
         andThen (lift (ValidateLatestWorkflowRunPointer W pointer ns workflowID)) (\<lambda>_.
         andThen (loadWorkflow W S ctx (WorkflowKeyFromProto (lp_Key p))) (\<lambda>reference.
         if reference = None then ret None
         else case ValidateLatestWorkflowRunReference W pointer reference of
             Inl e \<Rightarrow> if errors_Is e ErrStaleLatestPointer then ret None else fail e
           | Inr _ \<Rightarrow> ret pointer))))"

fun validateDueTimers :: "'w wkt_scheme \<Rightarrow> DueTimer list \<Rightarrow> string \<Rightarrow> time \<Rightarrow> unit result" where
  "validateDueTimers W [] ns now = Inr ()"
| "validateDueTimers W (item # due) ns now =
     (case ValidateDueTimer W item ns now of Inl e \<Rightarrow> Inl e | Inr _ \<Rightarrow> validateDueTimers W due ns now)"

definition cDueTimers :: "'w wkt_scheme \<Rightarrow> 's Store \<Rightarrow> context \<Rightarrow> string \<Rightarrow> time \<Rightarrow> ('s, 'm, DueTimer list) cprog" where
  "cDueTimers W S ctx ns now =
     andThen (onInner (st_DueTimers S ctx ns now)) (\<lambda>due.
     andThen (lift (validateDueTimers W due ns now)) (\<lambda>_. ret due))"

section \<open>Coherence\<close>

text \<open>
  An entry of the cache. A write that failed leaves its entry in doubt: the inner store may or
  may not hold the new record. \<open>coherent D d c\<close>: the cache \<open>c\<close> agrees with the database \<open>d\<close>
  except possibly at the doubtful entries \<open>D\<close>.
\<close>

datatype entry = EntryWorkflow | EntryActivity string | EntryTimer string | EntryEvent string

definition activityOf :: "WorkflowKey \<Rightarrow> string \<Rightarrow> ActivityKey" where
  "activityOf sc i = \<lparr>Namespace = Namespace sc, WorkflowID = WorkflowID sc, RunID = RunID sc, ActivityID = i\<rparr>"

definition timerOf :: "WorkflowKey \<Rightarrow> string \<Rightarrow> TimerKey" where
  "timerOf sc i = \<lparr>Namespace = Namespace sc, WorkflowID = WorkflowID sc, RunID = RunID sc, TimerID = i\<rparr>"

definition eventOf :: "WorkflowKey \<Rightarrow> string \<Rightarrow> EventKey" where
  "eventOf sc i = \<lparr>Namespace = Namespace sc, WorkflowID = WorkflowID sc, RunID = RunID sc, EventID = i\<rparr>"

definition slot_ok :: "(string \<Rightarrow> bool) \<Rightarrow> 'r slots \<Rightarrow> bool \<Rightarrow> (string \<Rightarrow> 'r option) \<Rightarrow> bool" where
  "slot_ok D slots allKnown t \<longleftrightarrow> distinct (map fst slots) \<and>
     (\<forall>i. \<not> D i \<longrightarrow> (case map_of slots i of Some v \<Rightarrow> t i = v | None \<Rightarrow> if allKnown then t i = None else True))"

definition coherent :: "entry set \<Rightarrow> database \<Rightarrow> runScopedCache \<Rightarrow> bool" where
  "coherent D d c \<longleftrightarrow> Namespace (scope c) \<noteq> [] \<and>
     (\<not> workflowKnown c \<longrightarrow> cachedWorkflow c = None) \<and>
     (workflowKnown c \<longrightarrow> EntryWorkflow \<notin> D \<longrightarrow> cachedWorkflow c = db_workflow d (scope c)) \<and>
     slot_ok (\<lambda>i. EntryActivity i \<in> D) (activities c) (activitiesListed c) (\<lambda>i. db_activity d (activityOf (scope c) i)) \<and>
     slot_ok (\<lambda>i. EntryTimer i \<in> D) (timers c) (timersListed c) (\<lambda>i. db_timer d (timerOf (scope c) i)) \<and>
     slot_ok (\<lambda>i. EntryEvent i \<in> D) (events c) (eventsListed c) (\<lambda>i. db_event d (eventOf (scope c) i))"

lemma coherent_new: "Namespace key \<noteq> [] \<Longrightarrow> coherent D d (newRunScopedCache key)"
  by (simp add: coherent_def newRunScopedCache_def slot_ok_def)

lemma slot_ok_empty [simp]: "slot_ok D [] False t"
  by (simp add: slot_ok_def)

lemma slot_okD:
  "slot_ok D slots b t \<Longrightarrow> \<not> D i \<Longrightarrow> (case map_of slots i of Some v \<Rightarrow> t i = v | None \<Rightarrow> if b then t i = None else True)"
  by (simp add: slot_ok_def)

lemma slot_ok_hit:
  "slot_ok D slots b t \<Longrightarrow> \<not> D i \<Longrightarrow> map_of slots i = Some v \<Longrightarrow> v = t i"
  "slot_ok D slots b t \<Longrightarrow> \<not> D i \<Longrightarrow> map_of slots i = None \<Longrightarrow> b \<Longrightarrow> t i = None"
  by (drule (1) slot_okD, simp)+

lemma slot_ok_update:
  assumes "slot_ok D slots b t" and "\<And>j. j \<noteq> i \<Longrightarrow> t' j = t j" and "t' i = v" and "\<And>j. j \<noteq> i \<Longrightarrow> D j \<Longrightarrow> D' j"
  shows "slot_ok D' (AList.update i v slots) b t'"
  using assms by (fastforce simp: slot_ok_def distinct_update update_conv' split: option.splits if_splits)

lemma slot_ok_doubt:
  assumes "slot_ok D slots b t" and "\<And>j. \<not> D' j \<Longrightarrow> t' j = t j" and "\<And>j. D j \<Longrightarrow> D' j"
  shows "slot_ok D' slots b t'"
  using assms by (fastforce simp: slot_ok_def split: option.splits)

lemma map_of_storeAll:
  "map_of (storeAll name rs slots) i =
     (case find (\<lambda>r. name r = i) (rev rs) of Some r \<Rightarrow> Some (Some r) | None \<Rightarrow> map_of slots i)"
proof (induction rs rule: rev_induct)
  case Nil
  then show ?case by (simp add: storeAll_def)
next
  case (snoc r rs)
  then show ?case by (simp add: storeAll_def update_conv')
qed

lemma distinct_storeAll: "distinct (map fst slots) \<Longrightarrow> distinct (map fst (storeAll name rs slots))"
  unfolding storeAll_def by (induction rs arbitrary: slots) (simp_all add: distinct_update)

lemma slot_ok_storeAll:
  assumes "slot_ok D slots b t" and "\<And>r. r \<in> set rs \<Longrightarrow> t (name r) = Some r"
    and "\<And>i r. t i = Some r \<Longrightarrow> r \<in> set rs \<and> name r = i"
  shows "slot_ok D (storeAll name rs slots) True t"
proof -
  have "case map_of (storeAll name rs slots) i of Some v \<Rightarrow> t i = v | None \<Rightarrow> t i = None" if "\<not> D i" for i
  proof (cases "find (\<lambda>r. name r = i) (rev rs)")
    case None
    have "t i = None" using None assms(3) by (cases "t i") (auto simp: find_None_iff)
    with None slot_okD [OF assms(1) that] show ?thesis by (simp add: map_of_storeAll split: option.splits)
  next
    case (Some r)
    then have "r \<in> set rs" "name r = i" by (auto simp: find_Some_iff rev_nth)
    with assms(2) [of r] Some show ?thesis by (simp add: map_of_storeAll)
  qed
  moreover have "distinct (map fst (storeAll name rs slots))"
    using assms(1) distinct_storeAll by (auto simp: slot_ok_def)
  ultimately show ?thesis by (simp add: slot_ok_def)
qed

lemma slot_ok_present:
  assumes "slot_ok (\<lambda>_. False) slots True t"
  shows "set (present slots) = {r. \<exists>i. t i = Some r}"
proof -
  have m: "(i, v) \<in> set slots \<longleftrightarrow> map_of slots i = Some v" for i v
    using assms by (simp add: slot_ok_def)
  have "map_of slots i = Some (Some r) \<longleftrightarrow> t i = Some r" for i r
    using assms by (auto simp: slot_ok_def dest: spec [of _ i] split: option.splits)
  then show ?thesis
    by (auto simp: present_def map_filter_def m image_def) (metis m option.sel snd_conv option.distinct(1))+
qed

text \<open>Steps of the world: what a cached call did to the database, the cache and the rest.\<close>

definition after :: "('s \<Rightarrow> database) \<Rightarrow> entry set \<Rightarrow> (database \<Rightarrow> database) \<Rightarrow>
    ('s, 'm) cworld_scheme \<Rightarrow> ('s, 'm) cworld_scheme \<Rightarrow> bool" where
  "after db D f w w1 \<longleftrightarrow> db (inner w1) = f (db (inner w)) \<and> coherent D (db (inner w1)) (cache w1) \<and>
     scope (cache w1) = scope (cache w) \<and> cworld.more w1 = cworld.more w"

lemma wpre_onInner [wp]:
  "wpre (onInner m) Q E w = wpre m (\<lambda>a s. Q a (w\<lparr>inner := s\<rparr>)) (\<lambda>e s. E e (w\<lparr>inner := s\<rparr>)) (inner w)"
  by (simp add: wpre_def onInner_def split: prod.splits sum.splits)

lemma wpre_gets [wp]: "wpre (gets f) Q E w = Q (f w) w"
  by (simp add: wpre_def gets_def)

lemma wpre_modify [wp]: "wpre (modify f) Q E w = Q () (f w)"
  by (simp add: wpre_def modify_def)

lemma inScope_key:
  "inScope c ak \<Longrightarrow> ak = activityOf (scope c) (ActivityID ak)"
  "inScope c tk \<Longrightarrow> tk = timerOf (scope c) (TimerID tk)"
  "inScope c ek \<Longrightarrow> ek = eventOf (scope c) (EventID ek)"
  "inScope c wk \<Longrightarrow> wk = scope c"
  by (simp_all add: inScope_def activityOf_def timerOf_def eventOf_def)

lemma Of_default [simp]:
  "Namespace sc \<noteq> [] \<Longrightarrow> withDefaults (activityOf sc i) = activityOf sc i"
  "Namespace sc \<noteq> [] \<Longrightarrow> withDefaults (timerOf sc i) = timerOf sc i"
  "Namespace sc \<noteq> [] \<Longrightarrow> withDefaults (eventOf sc i) = eventOf sc i"
  by (simp_all add: activityOf_def timerOf_def eventOf_def)

lemma Of_eq [simp]:
  "activityOf sc i = k \<longleftrightarrow> Namespace k = Namespace sc \<and> WorkflowID k = WorkflowID sc \<and> RunID k = RunID sc \<and> ActivityID k = i"
  "timerOf sc i = tk \<longleftrightarrow> Namespace tk = Namespace sc \<and> WorkflowID tk = WorkflowID sc \<and> RunID tk = RunID sc \<and> TimerID tk = i"
  "eventOf sc i = ek \<longleftrightarrow> Namespace ek = Namespace sc \<and> WorkflowID ek = WorkflowID sc \<and> RunID ek = RunID sc \<and> EventID ek = i"
  by (auto simp: activityOf_def timerOf_def eventOf_def)

subsection \<open>Updates of the cache keep coherence\<close>

lemma coherent_weaken: "coherent D d c \<Longrightarrow> D \<subseteq> D' \<Longrightarrow> coherent D' d c"
  unfolding coherent_def by (blast intro: slot_ok_doubt)

lemma coherent_setTimer:
  assumes "coherent D d c" and "db_timer d (timerOf (scope c) i) = v"
  shows "coherent (D - {EntryTimer i}) d (setTimer i v c)"
  using assms unfolding coherent_def setTimer_def
  by (auto intro!: slot_ok_update [of "\<lambda>i. EntryTimer i \<in> D"] intro: slot_ok_doubt)

lemma coherent_setActivity:
  assumes "coherent D d c" and "db_activity d (activityOf (scope c) i) = v"
  shows "coherent (D - {EntryActivity i}) d (setActivity i v c)"
  using assms unfolding coherent_def setActivity_def
  by (auto intro!: slot_ok_update [of "\<lambda>i. EntryActivity i \<in> D"] intro: slot_ok_doubt)

lemma coherent_setEvent:
  assumes "coherent D d c" and "db_event d (eventOf (scope c) i) = v"
  shows "coherent (D - {EntryEvent i}) d (setEvent i v c)"
  using assms unfolding coherent_def setEvent_def
  by (auto intro!: slot_ok_update [of "\<lambda>i. EntryEvent i \<in> D"] intro: slot_ok_doubt)

lemma coherent_setWorkflow:
  assumes "coherent D d c" and "db_workflow d (scope c) = v"
  shows "coherent (D - {EntryWorkflow}) d (setWorkflow v c)"
  using assms by (simp add: coherent_def setWorkflow_def)

text \<open>A change of the database at one key puts at most that key's entry in doubt.\<close>

definition touches :: "entry set \<Rightarrow> WorkflowKey \<Rightarrow> database \<Rightarrow> database \<Rightarrow> bool" where
  "touches D sc d d' \<longleftrightarrow>
     (EntryWorkflow \<notin> D \<longrightarrow> db_workflow d' sc = db_workflow d sc) \<and>
     (\<forall>i. EntryActivity i \<notin> D \<longrightarrow> db_activity d' (activityOf sc i) = db_activity d (activityOf sc i)) \<and>
     (\<forall>i. EntryTimer i \<notin> D \<longrightarrow> db_timer d' (timerOf sc i) = db_timer d (timerOf sc i)) \<and>
     (\<forall>i. EntryEvent i \<notin> D \<longrightarrow> db_event d' (eventOf sc i) = db_event d (eventOf sc i))"

lemma coherent_touch:
  assumes "coherent D d c" and "touches D' (scope c) d d'"
  shows "coherent (D \<union> D') d' c"
  using assms unfolding coherent_def touches_def by (auto intro: slot_ok_doubt)

lemma touches_put:
  assumes "Namespace sc \<noteq> []"
  shows "touches {EntryWorkflow} sc d (put_workflow w d)"
    "touches {EntryActivity (ActivityID (ActivityKeyFromProto (ar_Key a)))} sc d (put_activity a d)"
    "touches {EntryTimer (TimerID (TimerKeyFromProto (tr_Key t)))} sc d (put_timer t d)"
    "touches {EntryEvent (EventID (EventKeyFromProto (er_Key e)))} sc d (put_event e d)"
    "touches {EntryWorkflow} sc d (del_workflow wk d)"
    "touches {EntryActivity (ActivityID ak)} sc d (del_activity ak d)"
    "touches {EntryTimer (TimerID tk)} sc d (del_timer tk d)"
    "touches {EntryEvent (EventID ek)} sc d (del_event ek d)"
  using assms by (auto simp: touches_def db_ops set_key_def)

lemma touches_other:
  assumes "Namespace (scope c) \<noteq> []"
  shows "Namespace wk \<noteq> [] \<Longrightarrow> \<not> inScope c wk \<Longrightarrow> touches {} (scope c) d (d\<lparr>db_workflow := set_key (db_workflow d) wk w\<rparr>)"
    "Namespace ak \<noteq> [] \<Longrightarrow> \<not> inScope c ak \<Longrightarrow> touches {} (scope c) d (d\<lparr>db_activity := set_key (db_activity d) ak a\<rparr>)"
    "Namespace tk \<noteq> [] \<Longrightarrow> \<not> inScope c tk \<Longrightarrow> touches {} (scope c) d (d\<lparr>db_timer := set_key (db_timer d) tk t\<rparr>)"
    "Namespace ek \<noteq> [] \<Longrightarrow> \<not> inScope c ek \<Longrightarrow> touches {} (scope c) d (d\<lparr>db_event := set_key (db_event d) ek e\<rparr>)"
  using assms by (auto simp: touches_def set_key_def inScope_def)

lemma set_key_same [simp]: "set_key t k v k = v"
  by (simp add: set_key_def)

text \<open>A write of one record: at the database and, if the key is in scope, at the cache.\<close>

lemma coherent_write_workflow:
  assumes "coherent D d c" and "Namespace k \<noteq> []" and "d' = d\<lparr>db_workflow := set_key (db_workflow d) k v\<rparr>"
  shows "coherent D d' (if inScope c k then setWorkflow v c else c)"
proof -
  have ns: "Namespace (scope c) \<noteq> []" using assms(1) by (simp add: coherent_def)
  have touch: "touches {EntryWorkflow} (scope c) d d'" using ns assms(3) by (auto simp: touches_def set_key_def)
  show ?thesis
  proof (cases "inScope c k")
    case True
    have "db_workflow d' (scope c) = v"
      unfolding inScope_key(4) [OF True, symmetric] using assms(3) by simp
    from coherent_setWorkflow [OF coherent_touch [OF assms(1) touch] this] True
    show ?thesis by (auto intro: coherent_weaken)
  next
    case False
    from coherent_touch [OF assms(1) touches_other(1) [OF ns assms(2) False]] False assms(3) show ?thesis by simp
  qed
qed

lemma coherent_write_activity:
  assumes "coherent D d c" and "Namespace k \<noteq> []" and "d' = d\<lparr>db_activity := set_key (db_activity d) k v\<rparr>"
  shows "coherent D d' (if inScope c k then setActivity (ActivityID k) v c else c)"
proof -
  have ns: "Namespace (scope c) \<noteq> []" using assms(1) by (simp add: coherent_def)
  have touch: "touches {EntryActivity (ActivityID k)} (scope c) d d'" using ns assms(3) by (auto simp: touches_def set_key_def)
  show ?thesis
  proof (cases "inScope c k")
    case True
    have "db_activity d' (activityOf (scope c) (ActivityID k)) = v"
      unfolding inScope_key(1) [OF True, symmetric] using assms(3) by simp
    from coherent_setActivity [OF coherent_touch [OF assms(1) touch] this] True
    show ?thesis by (auto intro: coherent_weaken)
  next
    case False
    from coherent_touch [OF assms(1) touches_other(2) [OF ns assms(2) False]] False assms(3) show ?thesis by simp
  qed
qed

lemma coherent_write_timer:
  assumes "coherent D d c" and "Namespace k \<noteq> []" and "d' = d\<lparr>db_timer := set_key (db_timer d) k v\<rparr>"
  shows "coherent D d' (if inScope c k then setTimer (TimerID k) v c else c)"
proof -
  have ns: "Namespace (scope c) \<noteq> []" using assms(1) by (simp add: coherent_def)
  have touch: "touches {EntryTimer (TimerID k)} (scope c) d d'" using ns assms(3) by (auto simp: touches_def set_key_def)
  show ?thesis
  proof (cases "inScope c k")
    case True
    have "db_timer d' (timerOf (scope c) (TimerID k)) = v"
      unfolding inScope_key(2) [OF True, symmetric] using assms(3) by simp
    from coherent_setTimer [OF coherent_touch [OF assms(1) touch] this] True
    show ?thesis by (auto intro: coherent_weaken)
  next
    case False
    from coherent_touch [OF assms(1) touches_other(3) [OF ns assms(2) False]] False assms(3) show ?thesis by simp
  qed
qed

lemma coherent_write_event:
  assumes "coherent D d c" and "Namespace k \<noteq> []" and "d' = d\<lparr>db_event := set_key (db_event d) k v\<rparr>"
  shows "coherent D d' (if inScope c k then setEvent (EventID k) v c else c)"
proof -
  have ns: "Namespace (scope c) \<noteq> []" using assms(1) by (simp add: coherent_def)
  have touch: "touches {EntryEvent (EventID k)} (scope c) d d'" using ns assms(3) by (auto simp: touches_def set_key_def)
  show ?thesis
  proof (cases "inScope c k")
    case True
    have "db_event d' (eventOf (scope c) (EventID k)) = v"
      unfolding inScope_key(3) [OF True, symmetric] using assms(3) by simp
    from coherent_setEvent [OF coherent_touch [OF assms(1) touch] this] True
    show ?thesis by (auto intro: coherent_weaken)
  next
    case False
    from coherent_touch [OF assms(1) touches_other(4) [OF ns assms(2) False]] False assms(3) show ?thesis by simp
  qed
qed

section \<open>The cached operations\<close>

text \<open>\<open>loads db m v w\<close>: run from \<open>w\<close>, \<open>m\<close> returns \<open>v\<close> or fails, and leaves the cache alone.\<close>

definition loads :: "('s \<Rightarrow> database) \<Rightarrow> ('s, 'm, 'a) cprog \<Rightarrow> 'a \<Rightarrow> ('s, 'm) cworld_scheme \<Rightarrow> bool" where
  "loads db m v w \<longleftrightarrow> wpre m (\<lambda>r w1. r = v \<and> (\<exists>s1. db s1 = db (inner w) \<and> w1 = w\<lparr>inner := s1\<rparr>))
     (\<lambda>_ w1. \<exists>s1. db s1 = db (inner w) \<and> w1 = w\<lparr>inner := s1\<rparr>) w"

lemma wp_loads:
  "loads db m v w \<Longrightarrow> (\<And>s1. db s1 = db (inner w) \<Longrightarrow> Q v (w\<lparr>inner := s1\<rparr>)) \<Longrightarrow>
   (\<And>e s1. db s1 = db (inner w) \<Longrightarrow> E e (w\<lparr>inner := s1\<rparr>)) \<Longrightarrow> wpre m Q E w"
  unfolding loads_def by (auto elim!: wpre_mono)

lemma loads_record:
  assumes "reads db get (\<lambda>d x. x = found (t d))" and "\<And>r. t (db (inner w)) = Some r \<Longrightarrow> validate (Some r) = Inr ()"
  shows "loads db (loadRecord get validate) (t (db (inner w))) w"
  unfolding loads_def loadRecord_def wpre_andThen wpre_onInner
  by (rule wp_reads [OF assms(1)])
    (use assms(2) in \<open>auto simp: wp found_def validateFoundRecord_def split: sum.splits\<close>)

lemma wp_cachedGet:
  assumes c: "coherent D (db (inner w)) (cache w)"
    and load: "loads db load v w"
    and hit: "scoped \<Longrightarrow> slot_ok D' slots b t \<and> \<not> D' i \<and> t i = v"
    and miss: "scoped \<Longrightarrow> coherent D (db (inner w)) (keep v (cache w)) \<and> scope (keep v (cache w)) = scope (cache w)"
    and Q: "\<And>w1. after db D id w w1 \<Longrightarrow> Q v w1" and E: "\<And>e w1. after db D id w w1 \<Longrightarrow> E e w1"
  shows "wpre (cachedGet scoped slots b i keep load) Q E w"
proof (cases scoped)
  case False
  with c show ?thesis unfolding cachedGet_def by (auto simp: after_def intro!: wp_loads [OF load] Q E)
next
  case True
  with hit have h: "map_of slots i = Some x \<Longrightarrow> x = v" "map_of slots i = None \<Longrightarrow> b \<Longrightarrow> v = None" for x
    using slot_ok_hit [of D' slots b t i] by auto
  have same: "after db D id w w" using c by (simp add: after_def)
  show ?thesis
  proof (cases "map_of slots i")
    case (Some x)
    with True h(1) Q [OF same] show ?thesis by (simp add: cachedGet_def wp)
  next
    case None
    show ?thesis
    proof (cases b)
      case b: True
      with True None h(2) Q [OF same] show ?thesis by (simp add: cachedGet_def wp)
    next
      case False
      with True None miss c show ?thesis by (auto simp: cachedGet_def wp after_def intro!: wp_loads [OF load] Q E)
    qed
  qed
qed

lemma wp_refresh:
  assumes c: "coherent D (db (inner w)) (cache w)"
    and load: "loads db load v w"
    and keep: "scoped \<Longrightarrow> coherent D' (db (inner w)) (keep v (cache w)) \<and> scope (keep v (cache w)) = scope (cache w)"
    and Q: "\<And>w1. after db (if scoped then D' else D) id w w1 \<Longrightarrow> Q v w1" and E: "\<And>e w1. after db D id w w1 \<Longrightarrow> E e w1"
  shows "wpre (refresh scoped keep load) Q E w"
  unfolding refresh_def using c keep by (auto simp: wp after_def intro!: wp_loads [OF load] Q E)

lemma in_run_eq:
  assumes "Namespace key \<noteq> []" and "\<And>k. t (withDefaults k) = t k"
    and "\<And>k. runKey k = key \<Longrightarrow> k = Of (name k)" and "\<And>i. runKey (Of i) = key"
  shows "in_run t key = {r. \<exists>i. t (Of i) = Some r}"
proof (intro set_eqI iffI)
  fix r assume "r \<in> in_run t key"
  then obtain k where k: "runKey (withDefaults k) = withDefaults key" "t k = Some r" by (auto simp: in_run_def)
  have "withDefaults k = Of (name (withDefaults k))" using k(1) assms(1) by (intro assms(3)) simp
  with assms(2) [of k] k(2) have "t (Of (name (withDefaults k))) = Some r" by simp
  then show "r \<in> {r. \<exists>i. t (Of i) = Some r}" by blast
next
  fix r assume "r \<in> {r. \<exists>i. t (Of i) = Some r}"
  then obtain i where "t (Of i) = Some r" by auto
  moreover have "runKey (withDefaults (Of i)) = withDefaults key" by (simp add: runKey_withDefaults assms(4))
  ultimately show "r \<in> in_run t key" by (auto simp: in_run_def)
qed

lemma Of_runKey:
  "runKey ak = key \<Longrightarrow> ak = activityOf key (ActivityID ak)" "runKey (activityOf key i) = key"
  "runKey tk = key \<Longrightarrow> tk = timerOf key (TimerID tk)" "runKey (timerOf key i) = key"
  "runKey ek = key \<Longrightarrow> ek = eventOf key (EventID ek)" "runKey (eventOf key i) = key"
  by (auto simp: runKey_def activityOf_def timerOf_def eventOf_def)

lemma wp_attempt_reads:
  assumes "reads db m P"
    and "\<And>r s1. db s1 = db (inner w) \<Longrightarrow> (\<And>x. r = Inr x \<Longrightarrow> P (db (inner w)) x) \<Longrightarrow> Q r (w\<lparr>inner := s1\<rparr>)"
  shows "wpre (attempt (onInner m)) Q E w"
  unfolding wpre_attempt wpre_onInner by (rule wp_reads [OF assms(1)]) (auto intro!: assms(2))

context store_laws
begin

lemma loads_timer: "loads db (loadTimer S ctx key) (db_timer (db (inner w)) key) w"
  unfolding loadTimer_def by (rule loads_record [OF GetTimer_law [of ctx key]]) (rule timer_valid)

lemma loads_activity: "loads db (loadActivity S ctx key) (db_activity (db (inner w)) key) w"
  unfolding loadActivity_def by (rule loads_record [OF GetActivity_law [of ctx key]]) (rule activity_valid)

lemma loads_event: "loads db (loadEvent S ctx key) (db_event (db (inner w)) key) w"
  unfolding loadEvent_def by (rule loads_record [OF GetEvent_law [of ctx key]]) (rule event_valid)

lemma loads_workflow: "loads db (loadWorkflow W S ctx key) (db_workflow (db (inner w)) key) w"
  unfolding loadWorkflow_def by (rule loads_record [OF GetWorkflow_law [of ctx key]]) (rule workflow_valid)

lemma wp_cGetTimer:
  assumes c: "coherent D (db (inner w)) (cache w)" and D: "EntryTimer (TimerID key) \<notin> D"
    and Q: "\<And>w1. after db D id w w1 \<Longrightarrow> Q (db_timer (db (inner w)) key) w1" and E: "\<And>e w1. after db D id w w1 \<Longrightarrow> E e w1"
  shows "wpre (cGetTimer S ctx key) Q E w"
  unfolding cGetTimer_def wpre_andThen wpre_gets
proof (rule wp_cachedGet [OF c loads_timer, where t = "\<lambda>i. db_timer (db (inner w)) (timerOf (scope (cache w)) i)"])
  assume s: "inScope (cache w) key"
  have k: "timerOf (scope (cache w)) (TimerID key) = key" using inScope_key(2) [OF s] by simp
  then show "slot_ok (\<lambda>i. EntryTimer i \<in> D) (timers (cache w)) (timersListed (cache w)) (\<lambda>i. db_timer (db (inner w)) (timerOf (scope (cache w)) i)) \<and>
      \<not> EntryTimer (TimerID key) \<in> D \<and> db_timer (db (inner w)) (timerOf (scope (cache w)) (TimerID key)) = db_timer (db (inner w)) key"
    using c D by (simp add: coherent_def del: Of_eq)
  show "coherent D (db (inner w)) (setTimer (TimerID key) (db_timer (db (inner w)) key) (cache w)) \<and>
      scope (setTimer (TimerID key) (db_timer (db (inner w)) key) (cache w)) = scope (cache w)"
    using coherent_setTimer [OF c, of "TimerID key"] k by (auto simp: setTimer_def intro: coherent_weaken)
qed (use Q E in auto)

lemma wp_refreshTimer:
  assumes c: "coherent D (db (inner w)) (cache w)"
    and Q: "\<And>w1. after db (if inScope (cache w) key then D - {EntryTimer (TimerID key)} else D) id w w1 \<Longrightarrow> Q (db_timer (db (inner w)) key) w1"
    and E: "\<And>e w1. after db D id w w1 \<Longrightarrow> E e w1"
  shows "wpre (refreshTimer S ctx key) Q E w"
  unfolding refreshTimer_def wpre_andThen wpre_gets
proof (rule wp_refresh [OF c loads_timer, where D' = "D - {EntryTimer (TimerID key)}"])
  assume s: "inScope (cache w) key"
  show "coherent (D - {EntryTimer (TimerID key)}) (db (inner w)) (setTimer (TimerID key) (db_timer (db (inner w)) key) (cache w)) \<and>
      scope (setTimer (TimerID key) (db_timer (db (inner w)) key) (cache w)) = scope (cache w)"
    using coherent_setTimer [OF c, of "TimerID key"] inScope_key(2) [OF s] by (simp add: setTimer_def)
qed (use Q E in auto)

lemma wp_cGetActivity:
  assumes c: "coherent D (db (inner w)) (cache w)" and D: "EntryActivity (ActivityID key) \<notin> D"
    and Q: "\<And>w1. after db D id w w1 \<Longrightarrow> Q (db_activity (db (inner w)) key) w1" and E: "\<And>e w1. after db D id w w1 \<Longrightarrow> E e w1"
  shows "wpre (cGetActivity S ctx key) Q E w"
  unfolding cGetActivity_def wpre_andThen wpre_gets
proof (rule wp_cachedGet [OF c loads_activity, where t = "\<lambda>i. db_activity (db (inner w)) (activityOf (scope (cache w)) i)"])
  assume s: "inScope (cache w) key"
  have k: "activityOf (scope (cache w)) (ActivityID key) = key" using inScope_key(1) [OF s] by simp
  then show "slot_ok (\<lambda>i. EntryActivity i \<in> D) (activities (cache w)) (activitiesListed (cache w)) (\<lambda>i. db_activity (db (inner w)) (activityOf (scope (cache w)) i)) \<and>
      \<not> EntryActivity (ActivityID key) \<in> D \<and> db_activity (db (inner w)) (activityOf (scope (cache w)) (ActivityID key)) = db_activity (db (inner w)) key"
    using c D by (simp add: coherent_def del: Of_eq)
  show "coherent D (db (inner w)) (setActivity (ActivityID key) (db_activity (db (inner w)) key) (cache w)) \<and>
      scope (setActivity (ActivityID key) (db_activity (db (inner w)) key) (cache w)) = scope (cache w)"
    using coherent_setActivity [OF c, of "ActivityID key"] k by (auto simp: setActivity_def intro: coherent_weaken)
qed (use Q E in auto)

lemma wp_refreshActivity:
  assumes c: "coherent D (db (inner w)) (cache w)"
    and Q: "\<And>w1. after db (if inScope (cache w) key then D - {EntryActivity (ActivityID key)} else D) id w w1 \<Longrightarrow> Q (db_activity (db (inner w)) key) w1"
    and E: "\<And>e w1. after db D id w w1 \<Longrightarrow> E e w1"
  shows "wpre (refreshActivity S ctx key) Q E w"
  unfolding refreshActivity_def wpre_andThen wpre_gets
proof (rule wp_refresh [OF c loads_activity, where D' = "D - {EntryActivity (ActivityID key)}"])
  assume s: "inScope (cache w) key"
  show "coherent (D - {EntryActivity (ActivityID key)}) (db (inner w)) (setActivity (ActivityID key) (db_activity (db (inner w)) key) (cache w)) \<and>
      scope (setActivity (ActivityID key) (db_activity (db (inner w)) key) (cache w)) = scope (cache w)"
    using coherent_setActivity [OF c, of "ActivityID key"] inScope_key(1) [OF s] by (simp add: setActivity_def)
qed (use Q E in auto)

lemma wp_cGetEvent:
  assumes c: "coherent D (db (inner w)) (cache w)" and D: "EntryEvent (EventID key) \<notin> D"
    and Q: "\<And>w1. after db D id w w1 \<Longrightarrow> Q (db_event (db (inner w)) key) w1" and E: "\<And>e w1. after db D id w w1 \<Longrightarrow> E e w1"
  shows "wpre (cGetEvent S ctx key) Q E w"
  unfolding cGetEvent_def wpre_andThen wpre_gets
proof (rule wp_cachedGet [OF c loads_event, where t = "\<lambda>i. db_event (db (inner w)) (eventOf (scope (cache w)) i)"])
  assume s: "inScope (cache w) key"
  have k: "eventOf (scope (cache w)) (EventID key) = key" using inScope_key(3) [OF s] by simp
  then show "slot_ok (\<lambda>i. EntryEvent i \<in> D) (events (cache w)) (eventsListed (cache w)) (\<lambda>i. db_event (db (inner w)) (eventOf (scope (cache w)) i)) \<and>
      \<not> EntryEvent (EventID key) \<in> D \<and> db_event (db (inner w)) (eventOf (scope (cache w)) (EventID key)) = db_event (db (inner w)) key"
    using c D by (simp add: coherent_def del: Of_eq)
  show "coherent D (db (inner w)) (setEvent (EventID key) (db_event (db (inner w)) key) (cache w)) \<and>
      scope (setEvent (EventID key) (db_event (db (inner w)) key) (cache w)) = scope (cache w)"
    using coherent_setEvent [OF c, of "EventID key"] k by (auto simp: setEvent_def intro: coherent_weaken)
qed (use Q E in auto)

lemma wp_cGetWorkflow:
  assumes c: "coherent D (db (inner w)) (cache w)" and D: "EntryWorkflow \<notin> D"
    and Q: "\<And>w1. after db D id w w1 \<Longrightarrow> Q (db_workflow (db (inner w)) key) w1" and E: "\<And>e w1. after db D id w w1 \<Longrightarrow> E e w1"
  shows "wpre (cGetWorkflow W S ctx key) Q E w"
proof (cases "inScope (cache w) key")
  case False
  with c show ?thesis
    unfolding cGetWorkflow_def by (auto simp: wp after_def intro!: wp_loads [OF loads_workflow] Q E)
next
  case True
  have key: "key = scope (cache w)" by (rule inScope_key(4) [OF True])
  have same: "after db D id w w" using c by (simp add: after_def)
  have Q': "Q v w1" if "after db D id w w1" "v = db_workflow (db (inner w)) key" for v w1
    using Q that by simp
  show ?thesis
  proof (cases "workflowKnown (cache w)")
    case known: True
    with c D key have "cachedWorkflow (cache w) = db_workflow (db (inner w)) key" by (simp add: coherent_def)
    with True known Q [OF same] show ?thesis by (simp add: cGetWorkflow_def wp)
  next
    case False
    then have "coherent D (db (inner w)) (cache w\<lparr>workflowKnown := True,
        cachedWorkflow := (if v \<noteq> None then v else cachedWorkflow (cache w))\<rparr>)"
      if "v = db_workflow (db (inner w)) key" for v
      using c that key by (simp add: coherent_def)
    with True False c show ?thesis
      unfolding cGetWorkflow_def wpre_andThen wpre_gets wpre_if
      by (simp, intro wp_loads [OF loads_workflow]) (auto simp: wp after_def intro!: Q' E)
  qed
qed

text \<open>
  A cached write changes the database as it says and leaves the cache coherent. If it fails,
  only its own entry is in doubt.
\<close>

lemma wp_cPutWorkflow:
  assumes c: "coherent D (db (inner w)) (cache w)" and ns: "Namespace (WorkflowKeyFromProto (wr_Key record)) \<noteq> []"
    and Q: "\<And>w1. after db D (put_workflow record) w w1 \<Longrightarrow> Q () w1"
    and E: "\<And>e w1 f. f = id \<or> f = put_workflow record \<Longrightarrow> after db (insert (EntryWorkflow) D) f w w1 \<Longrightarrow> E e w1"
  shows "wpre (cPutWorkflow S ctx record) Q E w"
  unfolding cPutWorkflow_def Let_def wpre_andThen wpre_onInner wpre_modify
proof (rule wp_writes [OF PutWorkflow_law], goal_cases)
  case (1 x s1)
  from coherent_write_workflow [OF c ns, of _ "Some record"] 1 show ?case
    by (intro Q) (auto simp: after_def put_workflow_def setWorkflow_def split: if_splits)
next
  case (2 e s1)
  have "Namespace (scope (cache w)) \<noteq> []" using c by (simp add: coherent_def)
  from coherent_touch [OF c touches_put(1) [OF this]]
  have "coherent (insert (EntryWorkflow) D) (put_workflow record (db (inner w))) (cache w)" by simp
  with 2 c have "after db (insert (EntryWorkflow) D) (put_workflow record) w (w\<lparr>inner := s1\<rparr>) \<or>
      after db (insert (EntryWorkflow) D) id w (w\<lparr>inner := s1\<rparr>)"
    by (auto simp: after_def intro: coherent_weaken)
  then show ?case using E by blast
qed

lemma wp_cPutActivity:
  assumes c: "coherent D (db (inner w)) (cache w)" and ns: "Namespace (ActivityKeyFromProto (ar_Key record)) \<noteq> []"
    and Q: "\<And>w1. after db D (put_activity record) w w1 \<Longrightarrow> Q () w1"
    and E: "\<And>e w1 f. f = id \<or> f = put_activity record \<Longrightarrow> after db (insert (EntryActivity (ActivityID (ActivityKeyFromProto (ar_Key record)))) D) f w w1 \<Longrightarrow> E e w1"
  shows "wpre (cPutActivity S ctx record) Q E w"
  unfolding cPutActivity_def Let_def wpre_andThen wpre_onInner wpre_modify
proof (rule wp_writes [OF PutActivity_law], goal_cases)
  case (1 x s1)
  from coherent_write_activity [OF c ns, of _ "Some record"] 1 show ?case
    by (intro Q) (auto simp: after_def put_activity_def setActivity_def split: if_splits)
next
  case (2 e s1)
  have "Namespace (scope (cache w)) \<noteq> []" using c by (simp add: coherent_def)
  from coherent_touch [OF c touches_put(2) [OF this]]
  have "coherent (insert (EntryActivity (ActivityID (ActivityKeyFromProto (ar_Key record)))) D) (put_activity record (db (inner w))) (cache w)" by simp
  with 2 c have "after db (insert (EntryActivity (ActivityID (ActivityKeyFromProto (ar_Key record)))) D) (put_activity record) w (w\<lparr>inner := s1\<rparr>) \<or>
      after db (insert (EntryActivity (ActivityID (ActivityKeyFromProto (ar_Key record)))) D) id w (w\<lparr>inner := s1\<rparr>)"
    by (auto simp: after_def intro: coherent_weaken)
  then show ?case using E by blast
qed

lemma wp_cPutTimer:
  assumes c: "coherent D (db (inner w)) (cache w)" and ns: "Namespace (TimerKeyFromProto (tr_Key record)) \<noteq> []" and live: "tr_Status record \<noteq> TIMER_STATUS_CANCELED"
    and Q: "\<And>w1. after db D (put_timer record) w w1 \<Longrightarrow> Q () w1"
    and E: "\<And>e w1 f. f = id \<or> f = put_timer record \<Longrightarrow> after db (insert (EntryTimer (TimerID (TimerKeyFromProto (tr_Key record)))) D) f w w1 \<Longrightarrow> E e w1"
  shows "wpre (cPutTimer S ctx record) Q E w"
  unfolding cPutTimer_def Let_def wpre_andThen wpre_onInner wpre_modify
proof (rule wp_writes [OF PutTimer_law], goal_cases)
  case (1 x s1)
  from coherent_write_timer [OF c ns, of _ "Some record"] 1 show ?case
    by (intro Q) (auto simp: after_def put_timer_def setTimer_def shown_def live split: if_splits)
next
  case (2 e s1)
  have "Namespace (scope (cache w)) \<noteq> []" using c by (simp add: coherent_def)
  from coherent_touch [OF c touches_put(3) [OF this]]
  have "coherent (insert (EntryTimer (TimerID (TimerKeyFromProto (tr_Key record)))) D) (put_timer record (db (inner w))) (cache w)" by simp
  with 2 c have "after db (insert (EntryTimer (TimerID (TimerKeyFromProto (tr_Key record)))) D) (put_timer record) w (w\<lparr>inner := s1\<rparr>) \<or>
      after db (insert (EntryTimer (TimerID (TimerKeyFromProto (tr_Key record)))) D) id w (w\<lparr>inner := s1\<rparr>)"
    by (auto simp: after_def intro: coherent_weaken)
  then show ?case using E by blast
qed

lemma wp_cPutEvent:
  assumes c: "coherent D (db (inner w)) (cache w)" and ns: "Namespace (EventKeyFromProto (er_Key record)) \<noteq> []"
    and Q: "\<And>w1. after db D (put_event record) w w1 \<Longrightarrow> Q () w1"
    and E: "\<And>e w1 f. f = id \<or> f = put_event record \<Longrightarrow> after db (insert (EntryEvent (EventID (EventKeyFromProto (er_Key record)))) D) f w w1 \<Longrightarrow> E e w1"
  shows "wpre (cPutEvent S ctx record) Q E w"
  unfolding cPutEvent_def Let_def wpre_andThen wpre_onInner wpre_modify
proof (rule wp_writes [OF PutEvent_law], goal_cases)
  case (1 x s1)
  from coherent_write_event [OF c ns, of _ "Some record"] 1 show ?case
    by (intro Q) (auto simp: after_def put_event_def setEvent_def split: if_splits)
next
  case (2 e s1)
  have "Namespace (scope (cache w)) \<noteq> []" using c by (simp add: coherent_def)
  from coherent_touch [OF c touches_put(4) [OF this]]
  have "coherent (insert (EntryEvent (EventID (EventKeyFromProto (er_Key record)))) D) (put_event record (db (inner w))) (cache w)" by simp
  with 2 c have "after db (insert (EntryEvent (EventID (EventKeyFromProto (er_Key record)))) D) (put_event record) w (w\<lparr>inner := s1\<rparr>) \<or>
      after db (insert (EntryEvent (EventID (EventKeyFromProto (er_Key record)))) D) id w (w\<lparr>inner := s1\<rparr>)"
    by (auto simp: after_def intro: coherent_weaken)
  then show ?case using E by blast
qed

lemma wp_cDeleteWorkflow:
  assumes c: "coherent D (db (inner w)) (cache w)" and ns: "Namespace key \<noteq> []"
    and Q: "\<And>x w1. after db D (del_workflow key) w w1 \<Longrightarrow> Q x w1"
    and E: "\<And>e w1 f. f = id \<or> f = del_workflow key \<Longrightarrow> after db (insert (EntryWorkflow) D) f w w1 \<Longrightarrow> E e w1"
  shows "wpre (cDeleteWorkflow S ctx key) Q E w"
  unfolding cDeleteWorkflow_def wpre_andThen wpre_onInner wpre_modify wpre_ret
proof (rule wp_writes [OF DeleteWorkflow_law], goal_cases)
  case (1 x s1)
  from coherent_write_workflow [OF c ns, of _ None] 1 show ?case
    by (intro Q) (auto simp: after_def del_workflow_def setWorkflow_def split: if_splits)
next
  case (2 e s1)
  have "Namespace (scope (cache w)) \<noteq> []" using c by (simp add: coherent_def)
  from coherent_touch [OF c touches_put(5) [OF this]]
  have "coherent (insert (EntryWorkflow) D) (del_workflow key (db (inner w))) (cache w)" by simp
  with 2 c have "after db (insert (EntryWorkflow) D) (del_workflow key) w (w\<lparr>inner := s1\<rparr>) \<or>
      after db (insert (EntryWorkflow) D) id w (w\<lparr>inner := s1\<rparr>)"
    by (auto simp: after_def intro: coherent_weaken)
  then show ?case using E by blast
qed

lemma wp_cDeleteActivity:
  assumes c: "coherent D (db (inner w)) (cache w)" and ns: "Namespace key \<noteq> []"
    and Q: "\<And>x w1. after db D (del_activity key) w w1 \<Longrightarrow> Q x w1"
    and E: "\<And>e w1 f. f = id \<or> f = del_activity key \<Longrightarrow> after db (insert (EntryActivity (ActivityID key)) D) f w w1 \<Longrightarrow> E e w1"
  shows "wpre (cDeleteActivity S ctx key) Q E w"
  unfolding cDeleteActivity_def wpre_andThen wpre_onInner wpre_modify wpre_ret
proof (rule wp_writes [OF DeleteActivity_law], goal_cases)
  case (1 x s1)
  from coherent_write_activity [OF c ns, of _ None] 1 show ?case
    by (intro Q) (auto simp: after_def del_activity_def setActivity_def split: if_splits)
next
  case (2 e s1)
  have "Namespace (scope (cache w)) \<noteq> []" using c by (simp add: coherent_def)
  from coherent_touch [OF c touches_put(6) [OF this]]
  have "coherent (insert (EntryActivity (ActivityID key)) D) (del_activity key (db (inner w))) (cache w)" by simp
  with 2 c have "after db (insert (EntryActivity (ActivityID key)) D) (del_activity key) w (w\<lparr>inner := s1\<rparr>) \<or>
      after db (insert (EntryActivity (ActivityID key)) D) id w (w\<lparr>inner := s1\<rparr>)"
    by (auto simp: after_def intro: coherent_weaken)
  then show ?case using E by blast
qed

lemma wp_cDeleteTimer:
  assumes c: "coherent D (db (inner w)) (cache w)" and ns: "Namespace key \<noteq> []"
    and Q: "\<And>x w1. after db D (del_timer key) w w1 \<Longrightarrow> Q x w1"
    and E: "\<And>e w1 f. f = id \<or> f = del_timer key \<Longrightarrow> after db (insert (EntryTimer (TimerID key)) D) f w w1 \<Longrightarrow> E e w1"
  shows "wpre (cDeleteTimer S ctx key) Q E w"
  unfolding cDeleteTimer_def wpre_andThen wpre_onInner wpre_modify wpre_ret
proof (rule wp_writes [OF DeleteTimer_law], goal_cases)
  case (1 x s1)
  from coherent_write_timer [OF c ns, of _ None] 1 show ?case
    by (intro Q) (auto simp: after_def del_timer_def setTimer_def split: if_splits)
next
  case (2 e s1)
  have "Namespace (scope (cache w)) \<noteq> []" using c by (simp add: coherent_def)
  from coherent_touch [OF c touches_put(7) [OF this]]
  have "coherent (insert (EntryTimer (TimerID key)) D) (del_timer key (db (inner w))) (cache w)" by simp
  with 2 c have "after db (insert (EntryTimer (TimerID key)) D) (del_timer key) w (w\<lparr>inner := s1\<rparr>) \<or>
      after db (insert (EntryTimer (TimerID key)) D) id w (w\<lparr>inner := s1\<rparr>)"
    by (auto simp: after_def intro: coherent_weaken)
  then show ?case using E by blast
qed

lemma wp_cDeleteEvent:
  assumes c: "coherent D (db (inner w)) (cache w)" and ns: "Namespace key \<noteq> []"
    and Q: "\<And>x w1. after db D (del_event key) w w1 \<Longrightarrow> Q x w1"
    and E: "\<And>e w1 f. f = id \<or> f = del_event key \<Longrightarrow> after db (insert (EntryEvent (EventID key)) D) f w w1 \<Longrightarrow> E e w1"
  shows "wpre (cDeleteEvent S ctx key) Q E w"
  unfolding cDeleteEvent_def wpre_andThen wpre_onInner wpre_modify wpre_ret
proof (rule wp_writes [OF DeleteEvent_law], goal_cases)
  case (1 x s1)
  from coherent_write_event [OF c ns, of _ None] 1 show ?case
    by (intro Q) (auto simp: after_def del_event_def setEvent_def split: if_splits)
next
  case (2 e s1)
  have "Namespace (scope (cache w)) \<noteq> []" using c by (simp add: coherent_def)
  from coherent_touch [OF c touches_put(8) [OF this]]
  have "coherent (insert (EntryEvent (EventID key)) D) (del_event key (db (inner w))) (cache w)" by simp
  with 2 c have "after db (insert (EntryEvent (EventID key)) D) (del_event key) w (w\<lparr>inner := s1\<rparr>) \<or>
      after db (insert (EntryEvent (EventID key)) D) id w (w\<lparr>inner := s1\<rparr>)"
    by (auto simp: after_def intro: coherent_weaken)
  then show ?case using E by blast
qed

text \<open>Listings: the records of a run, from the inner store or from a complete cache.\<close>

lemma in_run_Of:
  assumes "Namespace key \<noteq> []"
  shows "in_run (db_activity (db s)) key = {r. \<exists>i. db_activity (db s) (activityOf key i) = Some r}"
    "in_run (db_timer (db s)) key = {r. \<exists>i. db_timer (db s) (timerOf key i) = Some r}"
    "in_run (db_event (db s)) key = {r. \<exists>i. db_event (db s) (eventOf key i) = Some r}"
  by (rule in_run_eq [OF assms], (rule activity_default timer_default event_default | erule Of_runKey | rule Of_runKey)+)+

lemma record_id:
  "db_activity (db s) (activityOf key i) = Some a \<Longrightarrow> ActivityID (ActivityKeyFromProto (ar_Key a)) = i"
  "db_timer (db s) (timerOf key i) = Some t \<Longrightarrow> TimerID (TimerKeyFromProto (tr_Key t)) = i"
  "db_event (db s) (eventOf key i) = Some e \<Longrightarrow> EventID (EventKeyFromProto (er_Key e)) = i"
proof -
  assume "db_activity (db s) (activityOf key i) = Some a"
  from ValidateActivityRecord_ok [THEN iffD1, OF activity_valid [OF this]]
  have "withDefaults (ActivityKeyFromProto (ar_Key a)) = withDefaults (activityOf key i)" by simp
  from arg_cong [OF this, of ActivityID] show "ActivityID (ActivityKeyFromProto (ar_Key a)) = i" by (simp add: activityOf_def)
next
  assume "db_timer (db s) (timerOf key i) = Some t"
  from ValidateTimerRecord_ok [THEN iffD1, OF timer_valid [OF this]]
  have "withDefaults (TimerKeyFromProto (tr_Key t)) = withDefaults (timerOf key i)" by simp
  from arg_cong [OF this, of TimerID] show "TimerID (TimerKeyFromProto (tr_Key t)) = i" by (simp add: timerOf_def)
next
  assume "db_event (db s) (eventOf key i) = Some e"
  from ValidateEventRecord_ok [THEN iffD1, OF event_valid [OF this]]
  have "withDefaults (EventKeyFromProto (er_Key e)) = withDefaults (eventOf key i)" by simp
  from arg_cong [OF this, of EventID] show "EventID (EventKeyFromProto (er_Key e)) = i" by (simp add: eventOf_def)
qed

lemma coherent_setAll:
  assumes c: "coherent D (db s) c"
  shows "set as = in_run (db_activity (db s)) (scope c) \<Longrightarrow> coherent D (db s) (setActivities as c)"
    "set ts = in_run (db_timer (db s)) (scope c) \<Longrightarrow> coherent D (db s) (setTimers ts c)"
    "set es = in_run (db_event (db s)) (scope c) \<Longrightarrow> coherent D (db s) (setEvents es c)"
proof -
  have ns: "Namespace (scope c) \<noteq> []" using c by (simp add: coherent_def)
  show "coherent D (db s) (setActivities as c)" if "set as = in_run (db_activity (db s)) (scope c)"
    using c that record_id(1) in_run_Of(1) [OF ns, of s]
    by (auto simp: coherent_def setActivities_def intro!: slot_ok_storeAll)
  show "coherent D (db s) (setTimers ts c)" if "set ts = in_run (db_timer (db s)) (scope c)"
    using c that record_id(2) in_run_Of(2) [OF ns, of s]
    by (auto simp: coherent_def setTimers_def intro!: slot_ok_storeAll)
  show "coherent D (db s) (setEvents es c)" if "set es = in_run (db_event (db s)) (scope c)"
    using c that record_id(3) in_run_Of(3) [OF ns, of s]
    by (auto simp: coherent_def setEvents_def intro!: slot_ok_storeAll)
qed

lemma wp_cListActivities:
  assumes c: "coherent D (db (inner w)) (cache w)" and D: "\<And>i. EntryActivity i \<notin> D"
    and Q: "\<And>x w1. after db D id w w1 \<Longrightarrow> set x = in_run (db_activity (db (inner w))) key \<Longrightarrow> Q x w1"
    and E: "\<And>e w1. after db D id w w1 \<Longrightarrow> E e w1"
  shows "wpre (cListActivities S ctx key) Q E w"
proof (cases "inScope (cache w) key \<and> activitiesListed (cache w)")
  case True
  have key: "key = scope (cache w)" using True by (intro inScope_key(4)) simp
  have "slot_ok (\<lambda>_. False) (activities (cache w)) True (\<lambda>i. db_activity (db (inner w)) (activityOf key i))" "Namespace key \<noteq> []"
    using c D True key by (simp_all add: coherent_def)
  from slot_ok_present [OF this(1)] in_run_Of(1) [OF this(2)]
  have "set (present (activities (cache w))) = in_run (db_activity (db (inner w))) key" by simp
  with True c show ?thesis by (auto simp: cListActivities_def wp after_def intro!: Q)
next
  case False
  have keep: "after db D id w (w\<lparr>inner := s1, cache := setActivities x (cache w)\<rparr>)"
    if "inScope (cache w) key" "db s1 = db (inner w)" "set x = in_run (db_activity (db (inner w))) key" for x s1
    using c that coherent_setAll(1) [OF c, of x] inScope_key(4) [OF that(1)] by (simp add: after_def setActivities_def)
  show ?thesis
    unfolding cListActivities_def wpre_andThen wpre_gets wpre_if if_not_P [OF False] wpre_onInner
  proof (rule wp_reads [OF ListActivities_law], goal_cases)
    case (1 x s1)
    have "after db D id w (w\<lparr>inner := s1\<rparr>)" using c 1 by (simp add: after_def)
    then show ?case using keep [OF _ 1(1), of x] 1(2)
      by (auto simp: wp intro: Q E split: sum.splits)
  qed (use c in \<open>auto simp: after_def intro: E\<close>)
qed

lemma wp_cListEvents:
  assumes c: "coherent D (db (inner w)) (cache w)" and D: "\<And>i. EntryEvent i \<notin> D"
    and Q: "\<And>x w1. after db D id w w1 \<Longrightarrow> set x = in_run (db_event (db (inner w))) key \<Longrightarrow> Q x w1"
    and E: "\<And>e w1. after db D id w w1 \<Longrightarrow> E e w1"
  shows "wpre (cListEvents S ctx key) Q E w"
proof (cases "inScope (cache w) key \<and> eventsListed (cache w)")
  case True
  have key: "key = scope (cache w)" using True by (intro inScope_key(4)) simp
  have "slot_ok (\<lambda>_. False) (events (cache w)) True (\<lambda>i. db_event (db (inner w)) (eventOf key i))" "Namespace key \<noteq> []"
    using c D True key by (simp_all add: coherent_def)
  from slot_ok_present [OF this(1)] in_run_Of(3) [OF this(2)]
  have "set (present (events (cache w))) = in_run (db_event (db (inner w))) key" by simp
  with True c show ?thesis by (auto simp: cListEvents_def wp after_def intro!: Q)
next
  case False
  have keep: "after db D id w (w\<lparr>inner := s1, cache := setEvents x (cache w)\<rparr>)"
    if "inScope (cache w) key" "db s1 = db (inner w)" "set x = in_run (db_event (db (inner w))) key" for x s1
    using c that coherent_setAll(3) [OF c, of x] inScope_key(4) [OF that(1)] by (simp add: after_def setEvents_def)
  show ?thesis
    unfolding cListEvents_def wpre_andThen wpre_gets wpre_if if_not_P [OF False] wpre_onInner
  proof (rule wp_reads [OF ListEvents_law], goal_cases)
    case (1 x s1)
    have "after db D id w (w\<lparr>inner := s1\<rparr>)" using c 1 by (simp add: after_def)
    then show ?case using keep [OF _ 1(1), of x] 1(2)
      by (auto simp: wp intro: Q E split: sum.splits)
  qed (use c in \<open>auto simp: after_def intro: E\<close>)
qed

lemma wp_cListTimers:
  assumes c: "coherent D (db (inner w)) (cache w)" and D: "\<And>i. EntryTimer i \<notin> D"
    and Q: "\<And>x w1. after db D id w w1 \<Longrightarrow> set x = {t \<in> in_run (db_timer (db (inner w))) key. status = TIMER_STATUS_UNSPECIFIED \<or> tr_Status t = status} \<Longrightarrow> Q x w1"
    and E: "\<And>e w1. after db D id w w1 \<Longrightarrow> E e w1"
  shows "wpre (cListTimers S ctx key status) Q E w"
proof (cases "inScope (cache w) key \<and> timersListed (cache w)")
  case True
  have key: "key = scope (cache w)" using True by (intro inScope_key(4)) simp
  have "slot_ok (\<lambda>_. False) (timers (cache w)) True (\<lambda>i. db_timer (db (inner w)) (timerOf key i))" "Namespace key \<noteq> []"
    using c D True key by (simp_all add: coherent_def)
  from slot_ok_present [OF this(1)] in_run_Of(2) [OF this(2)]
  have "set (present (timers (cache w))) = in_run (db_timer (db (inner w))) key" by simp
  then have "set (filter (\<lambda>r. \<not> (status \<noteq> TIMER_STATUS_UNSPECIFIED \<and> tr_Status r \<noteq> status)) (present (timers (cache w)))) =
      {t \<in> in_run (db_timer (db (inner w))) key. status = TIMER_STATUS_UNSPECIFIED \<or> tr_Status t = status}" by auto
  moreover have "after db D id w w" using c by (simp add: after_def)
  ultimately show ?thesis unfolding cListTimers_def wpre_andThen wpre_gets wpre_if if_P [OF True] wpre_ret by (intro Q)
next
  case False
  have keep: "after db D id w (w\<lparr>inner := s1, cache := setTimers x (cache w)\<rparr>)"
    if "inScope (cache w) key" "db s1 = db (inner w)" "set x = in_run (db_timer (db (inner w))) key" for x s1
    using c that coherent_setAll(2) [OF c, of x] inScope_key(4) [OF that(1)] by (simp add: after_def setTimers_def)
  show ?thesis
    unfolding cListTimers_def wpre_andThen wpre_gets wpre_if if_not_P [OF False] wpre_onInner
  proof (rule wp_reads [OF ListTimers_law], goal_cases)
    case (1 x s1)
    have a: "after db D id w (w\<lparr>inner := s1\<rparr>)" using c 1(1) by (simp add: after_def)
    have "after db D id w (w\<lparr>inner := s1, cache := (if inScope (cache w) key \<and> status = TIMER_STATUS_UNSPECIFIED
        then setTimers x else id) (cache w)\<rparr>)"
      using a keep [OF _ 1(1), of x] 1(2) by simp
    with a Q [OF _ 1(2)] E show ?case
      by (cases "inScope (cache w) key \<and> status = TIMER_STATUS_UNSPECIFIED"; cases "validateTimerList key x status")
        (simp_all add: wp)
  qed (use c in \<open>auto simp: after_def intro: E\<close>)
qed

lemma wp_prefetch:
  assumes c: "coherent D (db (inner w)) (cache w)"
    and Q: "\<And>w1. after db D id w w1 \<Longrightarrow> Q () w1" and E: "\<And>e w1. after db D id w w1 \<Longrightarrow> E e w1"
  shows "wpre (prefetch S ctx) Q E w"
proof -
  have keep: "after db D id w (w\<lparr>inner := s1, cache := setEvents es (setTimers ts (setActivities as (cache w)))\<rparr>)"
    if "db s1 = db (inner w)" "set as = in_run (db_activity (db (inner w))) (scope (cache w))"
      "set ts = in_run (db_timer (db (inner w))) (scope (cache w))"
      "set es = in_run (db_event (db (inner w))) (scope (cache w))" for s1 as ts es
  proof -
    have "coherent D (db (inner w)) (setActivities as (cache w))" by (rule coherent_setAll(1) [OF c that(2)])
    then have "coherent D (db (inner w)) (setTimers ts (setActivities as (cache w)))"
      by (rule coherent_setAll(2)) (simp add: that(3) setActivities_def)
    then have "coherent D (db (inner w)) (setEvents es (setTimers ts (setActivities as (cache w))))"
      by (rule coherent_setAll(3)) (simp add: that(4) setActivities_def setTimers_def)
    with that(1) show ?thesis by (simp add: after_def setActivities_def setTimers_def setEvents_def)
  qed
  show ?thesis
    unfolding prefetch_def wpre_andThen wpre_gets
  proof (rule wp_attempt_reads [OF ListActivities_law], rule wp_attempt_reads [OF ListTimers_law],
      rule wp_attempt_reads [OF ListEvents_law], goal_cases)
    case (1 acts s1 tims s2 evts s3)
    have e: "after db D id w (w\<lparr>inner := s3\<rparr>)" using 1 c by (simp add: after_def)
    show ?case
    proof (cases "\<exists>as ts es. acts = Inr as \<and> tims = Inr ts \<and> evts = Inr es")
      case True
      then obtain as ts es where r: "acts = Inr as" "tims = Inr ts" "evts = Inr es" by blast
      have "after db D id w (w\<lparr>inner := s3, cache := setEvents es (setTimers ts (setActivities as (cache w)))\<rparr>)"
        by (rule keep) (use 1 r in simp_all)
      with e r show ?thesis by (auto simp: wp intro: Q E split: sum.splits)
    next
      case False
      with e show ?thesis by (cases acts; cases tims; cases evts) (auto simp: wp intro: E)
    qed
  qed
qed

end

section \<open>Sequences of calls\<close>

text \<open>
  The calls a workflow body makes of its store, what they answer, and the database's own
  answers to them. The order of a listing is left open.
\<close>

datatype call =
    CallGetWorkflow WorkflowKey | CallGetActivity ActivityKey | CallGetTimer TimerKey | CallGetEvent EventKey
  | CallPutWorkflow WorkflowRecord | CallPutActivity ActivityRecord | CallPutTimer TimerRecord | CallPutEvent EventRecord
  | CallDeleteWorkflow WorkflowKey | CallDeleteActivity ActivityKey | CallDeleteTimer TimerKey | CallDeleteEvent EventKey
  | CallListActivities WorkflowKey | CallListTimers WorkflowKey TimerStatus | CallListEvents WorkflowKey
  | CallRefreshActivity ActivityKey | CallRefreshTimer TimerKey | CallPrefetch

datatype answer =
    AnswerWorkflow "WorkflowRecord option" | AnswerActivity "ActivityRecord option"
  | AnswerTimer "TimerRecord option" | AnswerEvent "EventRecord option"
  | AnswerActivities "ActivityRecord set" | AnswerTimers "TimerRecord set" | AnswerEvents "EventRecord set"
  | AnswerDone

fun cached_call :: "'w wkt_scheme \<Rightarrow> 's Store \<Rightarrow> context \<Rightarrow> call \<Rightarrow> ('s, 'm, answer) cprog" where
  "cached_call W S ctx (CallGetWorkflow k) = andThen (cGetWorkflow W S ctx k) (\<lambda>r. ret (AnswerWorkflow r))"
| "cached_call W S ctx (CallGetActivity k) = andThen (cGetActivity S ctx k) (\<lambda>r. ret (AnswerActivity r))"
| "cached_call W S ctx (CallGetTimer k) = andThen (cGetTimer S ctx k) (\<lambda>r. ret (AnswerTimer r))"
| "cached_call W S ctx (CallGetEvent k) = andThen (cGetEvent S ctx k) (\<lambda>r. ret (AnswerEvent r))"
| "cached_call W S ctx (CallPutWorkflow r) = andThen (cPutWorkflow S ctx r) (\<lambda>_. ret AnswerDone)"
| "cached_call W S ctx (CallPutActivity r) = andThen (cPutActivity S ctx r) (\<lambda>_. ret AnswerDone)"
| "cached_call W S ctx (CallPutTimer r) = andThen (cPutTimer S ctx r) (\<lambda>_. ret AnswerDone)"
| "cached_call W S ctx (CallPutEvent r) = andThen (cPutEvent S ctx r) (\<lambda>_. ret AnswerDone)"
| "cached_call W S ctx (CallDeleteWorkflow k) = andThen (cDeleteWorkflow S ctx k) (\<lambda>_. ret AnswerDone)"
| "cached_call W S ctx (CallDeleteActivity k) = andThen (cDeleteActivity S ctx k) (\<lambda>_. ret AnswerDone)"
| "cached_call W S ctx (CallDeleteTimer k) = andThen (cDeleteTimer S ctx k) (\<lambda>_. ret AnswerDone)"
| "cached_call W S ctx (CallDeleteEvent k) = andThen (cDeleteEvent S ctx k) (\<lambda>_. ret AnswerDone)"
| "cached_call W S ctx (CallListActivities k) = andThen (cListActivities S ctx k) (\<lambda>rs. ret (AnswerActivities (set rs)))"
| "cached_call W S ctx (CallListTimers k st) = andThen (cListTimers S ctx k st) (\<lambda>rs. ret (AnswerTimers (set rs)))"
| "cached_call W S ctx (CallListEvents k) = andThen (cListEvents S ctx k) (\<lambda>rs. ret (AnswerEvents (set rs)))"
| "cached_call W S ctx (CallRefreshActivity k) = andThen (refreshActivity S ctx k) (\<lambda>r. ret (AnswerActivity r))"
| "cached_call W S ctx (CallRefreshTimer k) = andThen (refreshTimer S ctx k) (\<lambda>r. ret (AnswerTimer r))"
| "cached_call W S ctx CallPrefetch = andThen (prefetch S ctx) (\<lambda>_. ret AnswerDone)"

fun cached_calls :: "'w wkt_scheme \<Rightarrow> 's Store \<Rightarrow> context \<Rightarrow> call list \<Rightarrow> ('s, 'm, answer list) cprog" where
  "cached_calls W S ctx [] = ret []"
| "cached_calls W S ctx (c # cs) =
     andThen (cached_call W S ctx c) (\<lambda>a. andThen (cached_calls W S ctx cs) (\<lambda>as. ret (a # as)))"

fun db_answer :: "call \<Rightarrow> database \<Rightarrow> answer" where
  "db_answer (CallGetWorkflow k) d = AnswerWorkflow (db_workflow d k)"
| "db_answer (CallGetActivity k) d = AnswerActivity (db_activity d k)"
| "db_answer (CallRefreshActivity k) d = AnswerActivity (db_activity d k)"
| "db_answer (CallGetTimer k) d = AnswerTimer (db_timer d k)"
| "db_answer (CallRefreshTimer k) d = AnswerTimer (db_timer d k)"
| "db_answer (CallGetEvent k) d = AnswerEvent (db_event d k)"
| "db_answer (CallListActivities k) d = AnswerActivities (in_run (db_activity d) k)"
| "db_answer (CallListTimers k st) d =
     AnswerTimers {t \<in> in_run (db_timer d) k. st = TIMER_STATUS_UNSPECIFIED \<or> tr_Status t = st}"
| "db_answer (CallListEvents k) d = AnswerEvents (in_run (db_event d) k)"
| "db_answer _ d = AnswerDone"

fun db_effect :: "call \<Rightarrow> database \<Rightarrow> database" where
  "db_effect (CallPutWorkflow r) = put_workflow r"
| "db_effect (CallPutActivity r) = put_activity r"
| "db_effect (CallPutTimer r) = put_timer r"
| "db_effect (CallPutEvent r) = put_event r"
| "db_effect (CallDeleteWorkflow k) = del_workflow k"
| "db_effect (CallDeleteActivity k) = del_activity k"
| "db_effect (CallDeleteTimer k) = del_timer k"
| "db_effect (CallDeleteEvent k) = del_event k"
| "db_effect _ = id"

fun db_answers :: "call list \<Rightarrow> database \<Rightarrow> answer list" where
  "db_answers [] d = []"
| "db_answers (c # cs) d = db_answer c d # db_answers cs (db_effect c d)"

text \<open>
  The runtime names its namespace in every key it writes and never writes a canceled timer.
\<close>

fun runtime_call :: "call \<Rightarrow> bool" where
  "runtime_call (CallPutWorkflow r) \<longleftrightarrow> Namespace (WorkflowKeyFromProto (wr_Key r)) \<noteq> []"
| "runtime_call (CallPutActivity r) \<longleftrightarrow> Namespace (ActivityKeyFromProto (ar_Key r)) \<noteq> []"
| "runtime_call (CallPutTimer r) \<longleftrightarrow> Namespace (TimerKeyFromProto (tr_Key r)) \<noteq> [] \<and> tr_Status r \<noteq> TIMER_STATUS_CANCELED"
| "runtime_call (CallPutEvent r) \<longleftrightarrow> Namespace (EventKeyFromProto (er_Key r)) \<noteq> []"
| "runtime_call (CallDeleteWorkflow k) \<longleftrightarrow> Namespace k \<noteq> []"
| "runtime_call (CallDeleteActivity k) \<longleftrightarrow> Namespace k \<noteq> []"
| "runtime_call (CallDeleteTimer k) \<longleftrightarrow> Namespace k \<noteq> []"
| "runtime_call (CallDeleteEvent k) \<longleftrightarrow> Namespace k \<noteq> []"
| "runtime_call _ \<longleftrightarrow> True"

context store_laws
begin

lemma wp_cached_call:
  assumes "coherent {} (db (inner w)) (cache w)" and "runtime_call c"
  shows "wpre (cached_call W S ctx c) (\<lambda>a w1. a = db_answer c (db (inner w)) \<and> after db {} (db_effect c) w w1) (\<lambda>_ _. True) w"
  using assms
  by (cases c) (auto simp: wp intro!: wp_cGetWorkflow wp_cGetActivity wp_cGetTimer wp_cGetEvent wp_cPutWorkflow
      wp_cPutActivity wp_cPutTimer wp_cPutEvent wp_cDeleteWorkflow wp_cDeleteActivity wp_cDeleteTimer wp_cDeleteEvent
      wp_cListActivities wp_cListTimers wp_cListEvents wp_refreshActivity wp_refreshTimer wp_prefetch split: if_splits)

lemma cached_calls_exact:
  assumes "coherent {} (db (inner w)) (cache w)" and "list_all runtime_call cs" and "cached_calls W S ctx cs w = (Inr as, w1)"
  shows "as = db_answers cs (db (inner w)) \<and> after db {} (fold db_effect cs) w w1"
  using assms
proof (induction cs arbitrary: w as)
  case Nil
  then show ?case by (auto simp: ret_def after_def)
next
  case (Cons c cs)
  obtain a w2 as' where r: "cached_call W S ctx c w = (Inr a, w2)" "cached_calls W S ctx cs w2 = (Inr as', w1)" "as = a # as'"
    using Cons.prems(3) by (auto simp: andThen_eq_Inr ret_def)
  have h: "a = db_answer c (db (inner w))" "after db {} (db_effect c) w w2"
    using wpre_InrD [OF wp_cached_call r(1)] Cons.prems by auto
  have "as' = db_answers cs (db (inner w2)) \<and> after db {} (fold db_effect cs) w2 w1"
    by (rule Cons.IH) (use h Cons.prems r in \<open>auto simp: after_def\<close>)
  with h r(3) show ?case by (auto simp: after_def)
qed

end

section \<open>Properties\<close>


definition cache_example :: "memory cworld" where
  "cache_example = \<lparr>inner = scan_example, cache = newRunScopedCache (NewWorkflowKey ''orders'' ''r1'')\<rparr>"

definition cache_script :: "call list" where
  "cache_script = [CallGetTimer (NewTimerKey ''orders'' ''r1'' ''half''), CallPrefetch,
     CallGetTimer (NewTimerKey ''orders'' ''r1'' ''half''), CallGetActivity (NewActivityKey ''orders'' ''r1'' ''charge''),
     CallDeleteTimer (NewTimerKey ''orders'' ''r1'' ''half''), CallGetTimer (NewTimerKey ''orders'' ''r1'' ''half'')]"


end
