(* ===== verification/Waits.thy ===== *)
theory Waits
  imports Cache
begin

text \<open>
  Durable waits of \<open>core/go/workflow/workflow.go\<close>: \<open>Sleep\<close>, \<open>ArmPoll\<close>, \<open>ResolvePoll\<close> and
  \<open>WaitEvent\<close>, and the bookkeeping of consumed wake timers. A workflow body runs over a world
  that has the run-scoped cache and the timers this invocation has slept through.

  Shown here: a wait that reports a pending timer has a durable scheduled record behind it,
  and no wait takes away the last scheduled wake of its run.
\<close>

section \<open>The workflow and its environment\<close>

record Workflow =
  wf_workflowID :: string
  wf_runID :: string

record 's world = "'s cworld" +
  consumedWakeTimers :: "(string \<times> TimerKey) list"

type_synonym ('s, 'm, 'a) wprog = "(('s, 'm) world_scheme, 'a) prog"

text \<open>The store the runtime was given and the clock.\<close>

record 's runtime = wkt +
  rt_Store :: "'s Store"
  rt_Now :: "'s \<Rightarrow> time \<times> 's"

definition time_now :: "('s, 'r) runtime_scheme \<Rightarrow> ('s, 'm, time) cprog" where
  "time_now R = onInner (\<lambda>s. case rt_Now R s of (t, s1) \<Rightarrow> (Inr t, s1))"

definition Current :: "'f Workflow_scheme option \<Rightarrow> 'f Workflow_scheme result" where
  "Current workflow = (case workflow of None \<Rightarrow> Inl (Plain ''workflow context is required'') | Some flow \<Rightarrow> Inr flow)"

definition timerKey :: "'f Workflow_scheme \<Rightarrow> string \<Rightarrow> TimerKey" where
  "timerKey flow i = \<lparr>Namespace = DefaultNamespace, WorkflowID = wf_workflowID flow, RunID = wf_runID flow, TimerID = i\<rparr>"

definition workflowInfrastructureError :: "string \<Rightarrow> go_error \<Rightarrow> go_error" where
  "workflowInfrastructureError operation cause =
     (if errors_Is cause ErrCorruptRecord then cause
      else if errors_As is_WorkflowInfrastructureError cause \<noteq> None then cause
      else WorkflowInfrastructureError operation cause)"

definition timerConflict :: "string \<Rightarrow> go_error list \<Rightarrow> go_error" where
  "timerConflict t es = Wrapped t (Sentinel ErrTimerConflict # es)"

definition getTimerAuthoritative :: "('s, 'r) runtime_scheme \<Rightarrow> context \<Rightarrow> TimerKey \<Rightarrow> ('s, 'm, TimerRecord option) cprog" where
  "getTimerAuthoritative R ctx key = refreshTimer (rt_Store R) ctx key"

definition getActivityAuthoritative :: "('s, 'r) runtime_scheme \<Rightarrow> context \<Rightarrow> ActivityKey \<Rightarrow> ('s, 'm, ActivityRecord option) cprog" where
  "getActivityAuthoritative R ctx key = refreshActivity (rt_Store R) ctx key"

section \<open>Consumed wake timers\<close>

definition registerConsumedWakeTimer :: "TimerKey \<Rightarrow> ('s, 'm, unit) wprog" where
  "registerConsumedWakeTimer key =
     modify (\<lambda>w. w\<lparr>consumedWakeTimers := AList.update (TimerID key) key (consumedWakeTimers w)\<rparr>)"

definition forgetConsumedWakeTimer :: "string \<Rightarrow> ('s, 'm, unit) wprog" where
  "forgetConsumedWakeTimer timerID =
     modify (\<lambda>w. w\<lparr>consumedWakeTimers := AList.delete timerID (consumedWakeTimers w)\<rparr>)"

text \<open>One round of the acknowledgement: the error to report, if any.\<close>

definition acknowledgeTimer ::
  "('s, 'r) runtime_scheme \<Rightarrow> string \<times> TimerKey \<Rightarrow> ('s, 'm, go_error option) wprog" where
  "acknowledgeTimer R entry =
     (let (timerID, key) = entry in
     andThen (attempt (cGetTimer (rt_Store R) Detached key)) (\<lambda>got.
     case got of
       Inl err \<Rightarrow> ret (Some (Wrapped ''get consumed wake timer'' [err]))
     | Inr None \<Rightarrow> andThen (forgetConsumedWakeTimer timerID) (\<lambda>_. ret None)
     | Inr (Some record) \<Rightarrow>
         if tr_Status record = TIMER_STATUS_FIRED \<or> tr_Status record = TIMER_STATUS_CANCELED
         then andThen (forgetConsumedWakeTimer timerID) (\<lambda>_. ret None)
         else if tr_TimerKind record \<noteq> TIMER_KIND_SLEEP \<and> tr_TimerKind record \<noteq> TIMER_KIND_POLL
         then ret (Some (timerConflict ''consumed timer is not a wake timer'' []))
         else andThen (time_now R) (\<lambda>now.
           andThen (attempt (cPutTimer (rt_Store R) Detached
             (record\<lparr>tr_Status := TIMER_STATUS_FIRED, tr_FiredAt := Some (Timestamp_New R now)\<rparr>))) (\<lambda>put.
           case put of
             Inl err \<Rightarrow> ret (Some (Wrapped ''acknowledge consumed wake timer'' [err]))
           | Inr _ \<Rightarrow> andThen (forgetConsumedWakeTimer timerID) (\<lambda>_. ret None)))))"

fun acknowledge_loop ::
  "('s, 'r) runtime_scheme \<Rightarrow> (string \<times> TimerKey) list \<Rightarrow> go_error list \<Rightarrow> ('s, 'm, go_error list) wprog" where
  "acknowledge_loop R [] errs = ret errs"
| "acknowledge_loop R (e # es) errs =
     andThen (acknowledgeTimer R e) (\<lambda>err.
     acknowledge_loop R es (case err of None \<Rightarrow> errs | Some x \<Rightarrow> errs @ [x]))"

text \<open>\<open>errors.Join\<close> of no error is nil.\<close>

definition joinErrors :: "go_error list \<Rightarrow> unit result" where
  "joinErrors errs = (if errs = [] then Inr () else Inl (Joined errs))"

definition acknowledgeConsumedWakeTimers :: "('s, 'r) runtime_scheme \<Rightarrow> string \<Rightarrow> ('s, 'm, unit) wprog" where
  "acknowledgeConsumedWakeTimers R exceptTimerID =
     andThen (gets consumedWakeTimers) (\<lambda>consumed.
     andThen (acknowledge_loop R (sort_key fst (filter (\<lambda>(timerID, _). timerID \<noteq> exceptTimerID) consumed)) []) (\<lambda>errs.
     lift (joinErrors errs)))"

section \<open>Sleep\<close>

text \<open>The status part of the two record checks.\<close>

definition checkTimerStatus :: "('s, 'r) runtime_scheme \<Rightarrow> TimerRecord \<Rightarrow> unit result" where
  "checkTimerStatus R record =
     (case tr_Status record of
        TIMER_STATUS_SCHEDULED \<Rightarrow>
          if tr_FiredAt record \<noteq> None then Inl (timerConflict ''scheduled timer has fired_at'' []) else Inr ()
      | TIMER_STATUS_FIRED \<Rightarrow>
          (case tr_FiredAt record of
             None \<Rightarrow> Inl (timerConflict ''fired timer has no fired_at'' [])
           | Some stamp \<Rightarrow> if \<not> Timestamp_CheckValid R stamp
               then Inl (timerConflict ''fired timer has invalid fired_at'' [Plain ''invalid timestamp'']) else Inr ())
      | TIMER_STATUS_CANCELED \<Rightarrow>
          if tr_FiredAt record \<noteq> None then Inl (timerConflict ''canceled timer has fired_at'' []) else Inr ()
      | _ \<Rightarrow> Inl (timerConflict ''timer has unknown status'' []))"

text \<open>The timestamps of a timer record: both present and valid.\<close>

definition checkTimerTimes :: "('s, 'r) runtime_scheme \<Rightarrow> TimerRecord \<Rightarrow> time result" where
  "checkTimerTimes R record =
     (case tr_CreatedAt record of
        None \<Rightarrow> Inl (timerConflict ''timer has no created_at'' [])
      | Some created \<Rightarrow>
      if \<not> Timestamp_CheckValid R created
      then Inl (timerConflict ''timer has invalid created_at'' [Plain ''invalid timestamp''])
      else case tr_FireAt record of
        None \<Rightarrow> Inl (timerConflict ''timer has no fire_at'' [])
      | Some stamp \<Rightarrow>
      if \<not> Timestamp_CheckValid R stamp
      then Inl (timerConflict ''timer has invalid fire_at'' [Plain ''invalid timestamp''])
      else Inr (Timestamp_AsTime R stamp))"

definition sleepTimerDetails ::
  "('s, 'r) runtime_scheme \<Rightarrow> TimerRecord \<Rightarrow> TimerKey \<Rightarrow> duration \<Rightarrow> (time \<times> TimerStatus) result" where
  "sleepTimerDetails R record key duration =
     (case ValidateTimerRecord (Some record) key of
        Inl err \<Rightarrow> Inl (timerConflict ''invalid sleep timer record'' [err])
      | Inr _ \<Rightarrow>
      if tr_TimerKind record \<noteq> TIMER_KIND_SLEEP then Inl (timerConflict ''timer kind changed'' [])
      else if tr_RetryActivityId record \<noteq> [] then Inl (timerConflict ''sleep timer is linked to retry activity'' [])
      else case tr_Duration record of
        None \<Rightarrow> Inl (timerConflict ''sleep timer has no duration'' [])
      | Some d \<Rightarrow>
      if \<not> Duration_CheckValid R d
      then Inl (timerConflict ''sleep timer has invalid duration'' [Plain ''invalid duration''])
      else let storedDuration = Duration_AsDuration R d in
      if d \<noteq> Duration_New R storedDuration
      then Inl (timerConflict ''sleep timer duration is outside Go time.Duration range'' [])
      else if storedDuration < 0 then Inl (timerConflict ''sleep timer has negative duration'' [])
      else if storedDuration \<noteq> duration then Inl (timerConflict ''timer duration changed'' [])
      else case checkTimerTimes R record of
        Inl err \<Rightarrow> Inl err
      | Inr fireAt \<Rightarrow>
      case checkTimerStatus R record of
        Inl err \<Rightarrow> Inl err
      | Inr _ \<Rightarrow> Inr (fireAt, tr_Status record))"

text \<open>The end of a sleep whose timer is scheduled: still pending, or slept through.\<close>

definition finishSleep :: "TimerKey \<Rightarrow> time \<Rightarrow> time \<Rightarrow> ('s, 'm, unit) wprog" where
  "finishSleep key now fireAt =
     (if now < fireAt then fail (TimerPendingError (TimerID key) fireAt) else registerConsumedWakeTimer key)"

text \<open>After a write of the timer that failed: read the timer back and say what is known.\<close>

definition verifySleep ::
  "('s, 'r) runtime_scheme \<Rightarrow> TimerKey \<Rightarrow> duration \<Rightarrow> go_error \<Rightarrow> ('s, 'm, unit) wprog" where
  "verifySleep R key duration writeErr =
     (let infrastructureErr = workflowInfrastructureError ''persist sleep timer'' writeErr in
     andThen (attempt (getTimerAuthoritative R Detached key)) (\<lambda>got.
     case got of
       Inl readErr \<Rightarrow> fail (workflowInfrastructureError ''verify ambiguous sleep timer write'' (Joined [writeErr, readErr]))
     | Inr None \<Rightarrow> fail infrastructureErr
     | Inr (Some verified) \<Rightarrow>
       (case sleepTimerDetails R verified key duration of
          Inl validationErr \<Rightarrow> fail (Joined [validationErr, infrastructureErr])
        | Inr (verifiedFireAt, status) \<Rightarrow>
            if status = TIMER_STATUS_SCHEDULED
            then fail (Joined [TimerPendingError (TimerID key) verifiedFireAt, infrastructureErr])
            else if status = TIMER_STATUS_FIRED then ret ()
            else fail (Joined [timerConflict ''timer was canceled'' [], infrastructureErr]))))"

text \<open>A sleep whose timer record exists, and one that starts.\<close>

definition resumeSleep ::
  "('s, 'r) runtime_scheme \<Rightarrow> TimerKey \<Rightarrow> duration \<Rightarrow> time \<Rightarrow> TimerRecord \<Rightarrow> ('s, 'm, unit) wprog" where
  "resumeSleep R key duration now record =
     andThen (lift (sleepTimerDetails R record key duration)) (\<lambda>(fireAt, status).
     if status = TIMER_STATUS_FIRED then ret ()
     else if status = TIMER_STATUS_CANCELED then fail (timerConflict ''timer was canceled'' [])
     else andThen (attempt (acknowledgeConsumedWakeTimers R (TimerID key))) (\<lambda>_. finishSleep key now fireAt))"

definition newSleep :: "('s, 'r) runtime_scheme \<Rightarrow> TimerKey \<Rightarrow> duration \<Rightarrow> time \<Rightarrow> TimerRecord" where
  "newSleep R key duration now =
     \<lparr>tr_SchemaVersion = RECORD_SCHEMA_VERSION_TIMER, tr_Key = Some (Proto key),
      tr_TimerKind = TIMER_KIND_SLEEP, tr_Duration = Some (Duration_New R duration),
      tr_Status = TIMER_STATUS_SCHEDULED, tr_FireAt = Some (Timestamp_New R (now + duration)),
      tr_CreatedAt = Some (Timestamp_New R now), tr_FiredAt = None, tr_RetryActivityId = []\<rparr>"

definition startSleep :: "('s, 'r) runtime_scheme \<Rightarrow> context \<Rightarrow> TimerKey \<Rightarrow> duration \<Rightarrow> time \<Rightarrow> ('s, 'm, unit) wprog" where
  "startSleep R ctx key duration now =
     andThen (attempt (cPutTimer (rt_Store R) ctx (newSleep R key duration now))) (\<lambda>put.
     case put of
       Inl writeErr \<Rightarrow> verifySleep R key duration writeErr
     | Inr _ \<Rightarrow> andThen (attempt (acknowledgeConsumedWakeTimers R (TimerID key))) (\<lambda>_. finishSleep key now (now + duration)))"

definition Sleep :: "('s, 'r) runtime_scheme \<Rightarrow> context \<Rightarrow> 'f Workflow_scheme option \<Rightarrow> string \<Rightarrow> duration \<Rightarrow> ('s, 'm, unit) wprog" where
  "Sleep R ctx workflow timerID duration =
     andThen (lift (Current workflow)) (\<lambda>flow.
     if duration < 0 then fail (Plain ''sleep duration must not be negative'')
     else let key = timerKey flow timerID in
     andThen (lift (TimerKey_Validate key)) (\<lambda>_.
     andThen (time_now R) (\<lambda>now.
     andThen (attempt (cGetTimer (rt_Store R) ctx key)) (\<lambda>got.
     case got of
       Inl err \<Rightarrow> fail (workflowInfrastructureError ''read sleep timer'' err)
     | Inr (Some record) \<Rightarrow> resumeSleep R key duration now record
     | Inr None \<Rightarrow> startSleep R ctx key duration now))))"

section \<open>Polls\<close>

record PollOptions =
  po_TimerId :: string
  po_Interval :: "Duration option"

text \<open>The rules of \<open>PollOptions\<close> in \<open>temporaless.proto\<close>.\<close>

definition PollOptions_rules :: "PollOptions \<Rightarrow> bool" where
  "PollOptions_rules options \<longleftrightarrow> path_segment (po_TimerId options) \<and>
     (case po_Interval options of None \<Rightarrow> False | Some d \<Rightarrow> du_seconds d * 1000000000 + du_nanos d > 0)"

definition pollInterval :: "('s, 'r) runtime_scheme \<Rightarrow> PollOptions option \<Rightarrow> duration result" where
  "pollInterval R poll =
     (case poll of
        None \<Rightarrow> Inl (Plain ''poll options are required'')
      | Some options \<Rightarrow>
      case protovalidate (PollOptions_rules options) of
        Inl err \<Rightarrow> Inl err
      | Inr _ \<Rightarrow>
      case po_Interval options of
        None \<Rightarrow> Inl (Plain ''poll interval is required'')
      | Some intervalMessage \<Rightarrow>
      if \<not> Duration_CheckValid R intervalMessage
      then Inl (Wrapped ''poll interval is invalid'' [Plain ''invalid duration''])
      else let interval = Duration_AsDuration R intervalMessage in
      if intervalMessage \<noteq> Duration_New R interval
      then Inl (Plain ''poll interval is outside Go time.Duration range'')
      else if interval \<le> 0 then Inl (Plain ''poll interval must be positive'')
      else Inr interval)"

definition ValidatePollOptions :: "('s, 'r) runtime_scheme \<Rightarrow> PollOptions option \<Rightarrow> unit result" where
  "ValidatePollOptions R options =
     (case options of
        None \<Rightarrow> Inr ()
      | Some _ \<Rightarrow> (case pollInterval R options of Inl err \<Rightarrow> Inl err | Inr _ \<Rightarrow> Inr ()))"

definition pollTimerDetails ::
  "('s, 'r) runtime_scheme \<Rightarrow> TimerRecord \<Rightarrow> TimerKey \<Rightarrow> duration \<Rightarrow> (time \<times> TimerStatus) result" where
  "pollTimerDetails R record key interval =
     (case ValidateTimerRecord (Some record) key of
        Inl err \<Rightarrow> Inl (timerConflict ''invalid poll timer record'' [err])
      | Inr _ \<Rightarrow>
      if tr_TimerKind record \<noteq> TIMER_KIND_POLL then Inl (timerConflict ''timer kind changed'' [])
      else if tr_RetryActivityId record \<noteq> [] then Inl (timerConflict ''poll timer is linked to an activity retry'' [])
      else case tr_Duration record of
        None \<Rightarrow> Inl (timerConflict ''poll timer has no interval'' [])
      | Some d \<Rightarrow>
      if \<not> Duration_CheckValid R d
      then Inl (timerConflict ''poll timer has invalid interval'' [Plain ''invalid duration''])
      else let storedInterval = Duration_AsDuration R d in
      if d \<noteq> Duration_New R storedInterval
      then Inl (timerConflict ''poll interval is outside Go time.Duration range'' [])
      else if storedInterval \<le> 0 then Inl (timerConflict ''poll interval must be positive'' [])
      else if storedInterval \<noteq> interval then Inl (timerConflict ''poll interval changed'' [])
      else case checkTimerTimes R record of
        Inl err \<Rightarrow> Inl err
      | Inr fireAt \<Rightarrow>
      case checkTimerStatus R record of
        Inl err \<Rightarrow> Inl err
      | Inr _ \<Rightarrow> Inr (fireAt, tr_Status record))"

text \<open>
  After a failed write of the poll timer: every outcome of the verification is an error, so
  the returned time is never used.
\<close>

definition verifyPoll ::
  "('s, 'r) runtime_scheme \<Rightarrow> TimerKey \<Rightarrow> duration \<Rightarrow> go_error \<Rightarrow> ('s, 'm, time) wprog" where
  "verifyPoll R key interval writeErr =
     (let infrastructureErr = workflowInfrastructureError ''persist poll timer'' writeErr in
     andThen (attempt (getTimerAuthoritative R Detached key)) (\<lambda>got.
     case got of
       Inl readErr \<Rightarrow> fail (workflowInfrastructureError ''verify ambiguous poll timer write'' (Joined [writeErr, readErr]))
     | Inr None \<Rightarrow> fail infrastructureErr
     | Inr (Some verified) \<Rightarrow>
       (case pollTimerDetails R verified key interval of
          Inl validationErr \<Rightarrow> fail (Joined [validationErr, infrastructureErr])
        | Inr (_, verifiedStatus) \<Rightarrow>
            if verifiedStatus \<noteq> TIMER_STATUS_SCHEDULED
            then fail (Joined [timerConflict ''verified poll timer is not scheduled'' [], infrastructureErr])
            else fail infrastructureErr)))"

text \<open>The write that arms the timer: a copy of the stored record or a new one.\<close>

definition armedPoll :: "('s, 'r) runtime_scheme \<Rightarrow> TimerKey \<Rightarrow> duration \<Rightarrow> time \<Rightarrow> TimerRecord option \<Rightarrow> TimerRecord" where
  "armedPoll R key interval now stored =
     (let record = (case stored of
          Some r \<Rightarrow> r
        | None \<Rightarrow> \<lparr>tr_SchemaVersion = RECORD_SCHEMA_VERSION_TIMER, tr_Key = Some (Proto key),
            tr_TimerKind = TIMER_KIND_POLL, tr_Duration = Some (Duration_New R interval),
            tr_Status = TIMER_STATUS_UNSPECIFIED, tr_FireAt = None,
            tr_CreatedAt = Some (Timestamp_New R now), tr_FiredAt = None, tr_RetryActivityId = []\<rparr>) in
      record\<lparr>tr_Status := TIMER_STATUS_SCHEDULED, tr_FireAt := Some (Timestamp_New R (now + interval)), tr_FiredAt := None\<rparr>)"

definition armPollTimer ::
  "('s, 'r) runtime_scheme \<Rightarrow> context \<Rightarrow> TimerKey \<Rightarrow> duration \<Rightarrow> time \<Rightarrow> TimerRecord option \<Rightarrow> ('s, 'm, time) wprog" where
  "armPollTimer R ctx key interval now stored =
     andThen (attempt (cPutTimer (rt_Store R) ctx (armedPoll R key interval now stored))) (\<lambda>put.
     case put of
       Inl writeErr \<Rightarrow> verifyPoll R key interval writeErr
     | Inr _ \<Rightarrow> andThen (attempt (acknowledgeConsumedWakeTimers R (TimerID key))) (\<lambda>_. ret (now + interval)))"

definition resumePoll ::
  "('s, 'r) runtime_scheme \<Rightarrow> context \<Rightarrow> TimerKey \<Rightarrow> duration \<Rightarrow> time \<Rightarrow> TimerRecord \<Rightarrow> ('s, 'm, time) wprog" where
  "resumePoll R ctx key interval now record =
     andThen (lift (pollTimerDetails R record key interval)) (\<lambda>(fireAt, status).
     if status = TIMER_STATUS_CANCELED then fail (timerConflict ''poll timer was canceled'' [])
     else if status = TIMER_STATUS_SCHEDULED \<and> now < fireAt
     then andThen (attempt (acknowledgeConsumedWakeTimers R (TimerID key))) (\<lambda>_. ret fireAt)
     else armPollTimer R ctx key interval now (Some record))"

definition ArmPoll :: "('s, 'r) runtime_scheme \<Rightarrow> context \<Rightarrow> 'f Workflow_scheme option \<Rightarrow> PollOptions option \<Rightarrow> ('s, 'm, time) wprog" where
  "ArmPoll R ctx workflow poll =
     andThen (lift (Current workflow)) (\<lambda>flow.
     case poll of None \<Rightarrow> fail (Plain ''poll options are required'')
     | Some options \<Rightarrow>
     andThen (lift (pollInterval R poll)) (\<lambda>interval.
     let key = timerKey flow (po_TimerId options) in
     andThen (lift (TimerKey_Validate key)) (\<lambda>_.
     andThen (time_now R) (\<lambda>now.
     andThen (attempt (cGetTimer (rt_Store R) ctx key)) (\<lambda>got.
     case got of
       Inl err \<Rightarrow> fail (workflowInfrastructureError ''read poll timer'' err)
     | Inr None \<Rightarrow> armPollTimer R ctx key interval now None
     | Inr (Some record) \<Rightarrow> resumePoll R ctx key interval now record)))))"

definition ResolvePoll :: "('s, 'r) runtime_scheme \<Rightarrow> context \<Rightarrow> 'f Workflow_scheme option \<Rightarrow> PollOptions option \<Rightarrow> ('s, 'm, unit) wprog" where
  "ResolvePoll R ctx workflow poll =
     andThen (lift (Current workflow)) (\<lambda>flow.
     case poll of None \<Rightarrow> ret ()
     | Some options \<Rightarrow>
     andThen (lift (pollInterval R poll)) (\<lambda>interval.
     let key = timerKey flow (po_TimerId options) in
     andThen (attempt (cGetTimer (rt_Store R) ctx key)) (\<lambda>got.
     case got of
       Inl err \<Rightarrow> fail (workflowInfrastructureError ''read resolved poll timer'' err)
     | Inr None \<Rightarrow> ret ()
     | Inr (Some record) \<Rightarrow>
         andThen (lift (pollTimerDetails R record key interval)) (\<lambda>(_, status).
         if status = TIMER_STATUS_SCHEDULED then registerConsumedWakeTimer key else ret ()))))"

section \<open>Waiting for an event\<close>

text \<open>
  Messages of the application. Their descriptors and codecs are not in the repository: the
  functions of \<open>google.golang.org/protobuf\<close> the runtime calls are the fields of a record.
\<close>

record 'v messages =
  msg_FullName :: "'v \<Rightarrow> string"
  any_New :: "'v \<Rightarrow> Any result"
  any_MessageIs :: "Any \<Rightarrow> 'v \<Rightarrow> bool"
  any_UnmarshalTo :: "Any \<Rightarrow> 'v \<Rightarrow> 'v result"

text \<open>The part of \<open>WaitEvent\<close> after the record was found: its payload as a message.\<close>

definition eventPayload :: "('v, 'n) messages_scheme \<Rightarrow> EventRecord \<Rightarrow> 'v \<Rightarrow> 'v result" where
  "eventPayload M record payload =
     (case er_Payload record of
        None \<Rightarrow> Inl (Plain ''stored event has no payload'')
      | Some any \<Rightarrow>
      if \<not> any_MessageIs M any payload
      then Inl (Wrapped ''stored event payload type does not match requested type'' [Sentinel ErrWorkflowConflict])
      else case any_UnmarshalTo M any payload of
        Inl err \<Rightarrow> Inl (Wrapped ''decode stored event payload'' [Sentinel ErrCorruptRecord, err])
      | Inr v \<Rightarrow> Inr v)"

definition WaitEvent ::
  "('s, 'r) runtime_scheme \<Rightarrow> ('v, 'n) messages_scheme \<Rightarrow> context \<Rightarrow> 'f Workflow_scheme option \<Rightarrow> string \<Rightarrow> 'v option option \<Rightarrow>
   PollOptions option \<Rightarrow> ('s, 'm, 'v) wprog" where
  "WaitEvent R M ctx workflow eventID newPayload pollOptions =
     andThen (lift (Current workflow)) (\<lambda>flow.
     let key = \<lparr>Namespace = DefaultNamespace, WorkflowID = wf_workflowID flow, RunID = wf_runID flow, EventID = eventID\<rparr> in
     andThen (lift (EventKey_Validate key)) (\<lambda>_.
     andThen (lift (ValidatePollOptions R pollOptions)) (\<lambda>_.
     case newPayload of
       None \<Rightarrow> fail (Plain ''event payload constructor is required'')
     | Some None \<Rightarrow> fail (Plain ''event payload constructor returned nil'')
     | Some (Some payload) \<Rightarrow>
     andThen (attempt (cGetEvent (rt_Store R) ctx key)) (\<lambda>got.
     case got of
       Inl err \<Rightarrow> fail (workflowInfrastructureError ''read workflow event'' err)
     | Inr None \<Rightarrow>
         (if pollOptions \<noteq> None
          then andThen (ArmPoll R ctx workflow pollOptions) (\<lambda>wakeAt. fail (EventPendingError eventID wakeAt))
          else fail (EventPendingError eventID zero_time))
     | Inr (Some record) \<Rightarrow>
         andThen (lift (ValidateEventDeliveryRecord R (Some record) key)) (\<lambda>_.
         andThen (if pollOptions \<noteq> None then ResolvePoll R ctx workflow pollOptions else ret ()) (\<lambda>_.
         lift (eventPayload M record payload)))))))"

section \<open>What a wait may do to the database\<close>

text \<open>
  \<open>acked I d d1\<close>: some wake timers with an identifier in \<open>I\<close> were marked fired, and nothing
  else happened. \<open>waited key d d1\<close>: the timer \<open>key\<close> may have been written as scheduled, and
  other timers were acknowledged only while \<open>key\<close> was scheduled.
\<close>

definition fired_copy :: "TimerRecord \<Rightarrow> TimerRecord \<Rightarrow> bool" where
  "fired_copy t t1 \<longleftrightarrow> (\<exists>x. t1 = t\<lparr>tr_Status := TIMER_STATUS_FIRED, tr_FiredAt := x\<rparr>) \<and>
     tr_Status t \<noteq> TIMER_STATUS_FIRED \<and> tr_Status t \<noteq> TIMER_STATUS_CANCELED"

definition acked :: "string set \<Rightarrow> database \<Rightarrow> database \<Rightarrow> bool" where
  "acked I d d1 \<longleftrightarrow> db_workflow d1 = db_workflow d \<and> db_activity d1 = db_activity d \<and> db_event d1 = db_event d \<and>
     (\<forall>k. db_timer d1 k = db_timer d k \<or>
        TimerID k \<in> I \<and> (\<exists>t t1. db_timer d k = Some t \<and> db_timer d1 k = Some t1 \<and> fired_copy t t1))"

definition scheduled :: "database \<Rightarrow> TimerKey \<Rightarrow> bool" where
  "scheduled d key \<longleftrightarrow> (\<exists>t. db_timer d key = Some t \<and> tr_Status t = TIMER_STATUS_SCHEDULED)"

definition waited :: "TimerKey \<Rightarrow> database \<Rightarrow> database \<Rightarrow> bool" where
  "waited key d d1 \<longleftrightarrow> (\<exists>d'. (d' = d \<or> (\<exists>r. d' = put_timer r d \<and> tr_Status r = TIMER_STATUS_SCHEDULED \<and>
        withDefaults (TimerKeyFromProto (tr_Key r)) = withDefaults key)) \<and>
     (d1 = d' \<or> scheduled d' key \<and> acked (- {TimerID key}) d' d1))"

text \<open>The timer is scheduled in the database, to fire at the given time.\<close>

definition pending_at :: "'w wkt_scheme \<Rightarrow> database \<Rightarrow> TimerKey \<Rightarrow> time \<Rightarrow> bool" where
  "pending_at W d key t \<longleftrightarrow> (\<exists>r ts. db_timer d key = Some r \<and> tr_Status r = TIMER_STATUS_SCHEDULED \<and>
     tr_FireAt r = Some ts \<and> Timestamp_AsTime W ts = t)"

text \<open>The timer has fired, or is scheduled and in the registry of consumed timers.\<close>

definition passed :: "('s \<Rightarrow> database) \<Rightarrow> TimerKey \<Rightarrow> ('s, 'm) world_scheme \<Rightarrow> bool" where
  "passed db key w \<longleftrightarrow> (\<exists>r. db_timer (db (inner w)) key = Some r \<and> (tr_Status r = TIMER_STATUS_FIRED \<or>
     tr_Status r = TIMER_STATUS_SCHEDULED \<and> (TimerID key, key) \<in> set (consumedWakeTimers w)))"

lemma acked_refl [simp]: "acked I d d"
  by (simp add: acked_def)

lemma acked_trans:
  assumes "acked I d d1" and "acked J d1 d2"
  shows "acked (I \<union> J) d d2"
proof -
  have "db_timer d2 k = db_timer d k \<or>
      TimerID k \<in> I \<union> J \<and> (\<exists>t t1. db_timer d k = Some t \<and> db_timer d2 k = Some t1 \<and> fired_copy t t1)" for k
    using assms unfolding acked_def by (fastforce simp: fired_copy_def dest: spec [of _ k])
  then show ?thesis using assms by (auto simp: acked_def)
qed

lemma acked_mono: "acked I d d1 \<Longrightarrow> I \<subseteq> J \<Longrightarrow> acked J d d1"
  unfolding acked_def by blast

lemma acked_scheduled: "acked I d d1 \<Longrightarrow> TimerID key \<notin> I \<Longrightarrow> scheduled d1 key \<longleftrightarrow> scheduled d key"
  unfolding acked_def scheduled_def by metis

lemma waited_refl [simp]: "waited key d d"
  by (auto simp: waited_def)

lemma waited_put:
  "tr_Status r = TIMER_STATUS_SCHEDULED \<Longrightarrow> withDefaults (TimerKeyFromProto (tr_Key r)) = withDefaults key \<Longrightarrow>
   waited key d (put_timer r d)"
  by (auto simp: waited_def)

lemma scheduled_put:
  "withDefaults (TimerKeyFromProto (tr_Key r)) = withDefaults key \<Longrightarrow> tr_Status r = TIMER_STATUS_SCHEDULED \<Longrightarrow>
   scheduled (put_timer r d) key"
  by (auto simp: scheduled_def put_timer_def set_key_def shown_def)

text \<open>No wait takes the last wake of a run.\<close>

lemma waited_keeps_wake:
  assumes "waited key d d1" and "scheduled d k"
  shows "\<exists>k1. scheduled d1 k1 \<and> (k1 = k \<or> k1 = key)"
proof -
  obtain d' where d': "d' = d \<or> (\<exists>r. d' = put_timer r d \<and> tr_Status r = TIMER_STATUS_SCHEDULED \<and>
        withDefaults (TimerKeyFromProto (tr_Key r)) = withDefaults key)"
    and d1: "d1 = d' \<or> scheduled d' key \<and> acked (- {TimerID key}) d' d1"
    using assms(1) by (auto simp: waited_def)
  have "scheduled d' k \<or> scheduled d' key" using d' assms(2) scheduled_put by blast
  with d1 acked_scheduled [of "- {TimerID key}" d' d1 key] show ?thesis by auto
qed

section \<open>Proofs\<close>

definition registry_ok :: "('s, 'm) world_scheme \<Rightarrow> bool" where
  "registry_ok w \<longleftrightarrow> distinct (map fst (consumedWakeTimers w)) \<and> (\<forall>(i, k) \<in> set (consumedWakeTimers w). TimerID k = i)"

lemma after_registry:
  assumes "after db D f w w1"
  shows "consumedWakeTimers w1 = consumedWakeTimers w" "world.more w1 = world.more w"
  using assms by (cases w; cases w1; simp add: after_def)+

lemma set_AList_update:
  "(i, v) \<in> set (AList.update k x al) \<Longrightarrow> i = k \<and> v = x \<or> (i, v) \<in> set al"
  "(k, x) \<in> set (AList.update k x al)"
  by (induction al) (auto split: if_splits)

lemma after_coherent: "after db D f w w1 \<Longrightarrow> coherent D (db (inner w1)) (cache w1)"
  unfolding after_def by blast

lemma after_db: "after db D f w w1 \<Longrightarrow> db (inner w1) = f (db (inner w))"
  by (simp add: after_def)

lemma slot_ok_doubtful: "slot_ok D slots b t \<Longrightarrow> D i \<Longrightarrow> slot_ok D (AList.update i v slots) b t"
  by (auto simp: slot_ok_def distinct_update update_conv' split: option.splits if_splits)

text \<open>
  The environment keeps the store's contract and reading the clock changes no record.
\<close>

locale runtime_laws = store_laws R "rt_Store R" db
  for R :: "('s, 'r) runtime_scheme" and db :: "'s \<Rightarrow> database" +
  assumes clock_law: "db (snd (rt_Now R s)) = db s"
begin

lemma wp_time_now:
  assumes "coherent D (db (inner w)) (cache w)" and "\<And>t w1. after db D id w w1 \<Longrightarrow> Q t w1"
  shows "wpre (time_now R) Q E w"
  unfolding time_now_def wpre_onInner
  using assms clock_law [of "inner w"] by (auto simp: wpre_def after_def split: prod.splits)

lemma wp_put_doubtful:
  assumes c: "coherent D (db (inner w)) (cache w)"
    and Q: "\<And>w1. after db (insert (EntryTimer (TimerID (TimerKeyFromProto (tr_Key record)))) D) (put_timer record) w w1 \<Longrightarrow> Q () w1"
    and E: "\<And>e w1 f. f = id \<or> f = put_timer record \<Longrightarrow>
        after db (insert (EntryTimer (TimerID (TimerKeyFromProto (tr_Key record)))) D) f w w1 \<Longrightarrow> E e w1"
  shows "wpre (cPutTimer (rt_Store R) ctx record) Q E w"
proof -
  define D' where "D' = insert (EntryTimer (TimerID (TimerKeyFromProto (tr_Key record)))) D"
  have "Namespace (scope (cache w)) \<noteq> []" using c by (simp add: coherent_def)
  from coherent_touch [OF c touches_put(3) [OF this]]
  have t: "coherent D' (put_timer record (db (inner w))) (cache w)" by (simp add: D'_def)
  then have u: "coherent D' (put_timer record (db (inner w)))
      (setTimer (TimerID (TimerKeyFromProto (tr_Key record))) (Some record) (cache w))"
    by (auto simp: coherent_def setTimer_def D'_def intro: slot_ok_doubtful)
  have n: "coherent D' (db (inner w)) (cache w)" using c by (auto simp: D'_def intro: coherent_weaken)
  have E': "E e w1" if "after db D' id w w1 \<or> after db D' (put_timer record) w w1" for e w1
    using that E [of id w1 e] E [of "put_timer record" w1 e] by (auto simp: D'_def)
  show ?thesis
    unfolding cPutTimer_def Let_def wpre_andThen wpre_onInner wpre_modify
    by (rule wp_writes [OF PutTimer_law])
      (use t u n in \<open>auto simp: after_def setTimer_def simp flip: D'_def intro!: Q E'\<close>)
qed

text \<open>An acknowledgement fires at most the timer it names.\<close>

definition ack_step :: "entry set \<Rightarrow> string set \<Rightarrow> ('s, 'm) world_scheme \<Rightarrow> ('s, 'm) world_scheme \<Rightarrow> bool" where
  "ack_step D I w w1 \<longleftrightarrow> acked I (db (inner w)) (db (inner w1)) \<and> coherent (D \<union> EntryTimer ` I) (db (inner w1)) (cache w1) \<and>
     scope (cache w1) = scope (cache w) \<and> world.more w1 = world.more w \<and>
     set (consumedWakeTimers w1) \<subseteq> set (consumedWakeTimers w) \<and> (registry_ok w \<longrightarrow> registry_ok w1)"

lemma ack_step_read: "after db D id w w1 \<Longrightarrow> ack_step D I w w1"
  using after_registry [of db D id w w1]
  by (auto simp: ack_step_def after_def registry_ok_def intro: coherent_weaken)

lemma ack_step_forget:
  assumes "ack_step D I w w1"
  shows "ack_step D I w (w1\<lparr>consumedWakeTimers := AList.delete i (consumedWakeTimers w1)\<rparr>)"
proof -
  have "set (AList.delete i xs) \<subseteq> set xs" "distinct (map fst xs) \<Longrightarrow> distinct (map fst (AList.delete i xs))"
    for xs :: "(string \<times> TimerKey) list"
    by (auto simp: AList.delete_eq distinct_map_filter)
  with assms show ?thesis unfolding ack_step_def registry_ok_def by simp blast
qed

lemma fired_key:
  assumes t: "db_timer (db s) key = Some t" and r: "fired_copy t r"
  shows "withDefaults (TimerKeyFromProto (tr_Key r)) = withDefaults key" "TimerID (TimerKeyFromProto (tr_Key r)) = TimerID key"
proof -
  have "withDefaults (TimerKeyFromProto (tr_Key t)) = withDefaults key"
    using ValidateTimerRecord_ok [THEN iffD1, OF timer_valid [OF t]] by auto
  with r show key: "withDefaults (TimerKeyFromProto (tr_Key r)) = withDefaults key" by (auto simp: fired_copy_def)
  show "TimerID (TimerKeyFromProto (tr_Key r)) = TimerID key" using arg_cong [OF key, of TimerID] by simp
qed

lemma acked_put:
  assumes t: "db_timer (db s) key = Some t" and r: "fired_copy t r" and d: "db s1 = put_timer r (db s)"
  shows "acked {TimerID key} (db s) (db s1)"
proof -
  have "shown r = Some r" using r by (auto simp: fired_copy_def shown_def)
  then have new: "db_timer (db s1) k = (if withDefaults k = withDefaults key then Some r else db_timer (db s) k)" for k
    using d fired_key(1) [OF t r] by (simp add: put_timer_def set_key_def)
  have old: "db_timer (db s) k = Some t" "TimerID k = TimerID key" if same: "withDefaults k = withDefaults key" for k
  proof -
    show "db_timer (db s) k = Some t"
      by (metis t timer_default same)
    have "TimerID (withDefaults k) = TimerID (withDefaults key)" by (simp only: same)
    then show "TimerID k = TimerID key" by (simp only: withDefaults_sel)
  qed
  have "db_workflow (db s1) = db_workflow (db s)" "db_activity (db s1) = db_activity (db s)" "db_event (db s1) = db_event (db s)"
    using d by (simp_all add: put_timer_def)
  moreover have "db_timer (db s1) k = db_timer (db s) k \<or> TimerID k \<in> {TimerID key} \<and>
      (\<exists>t t1. db_timer (db s) k = Some t \<and> db_timer (db s1) k = Some t1 \<and> fired_copy t t1)" for k
    unfolding new [of k] using old [of k] r by simp
  ultimately show ?thesis unfolding acked_def by blast
qed

lemma wp_acknowledgeTimer:
  assumes c: "coherent D (db (inner w)) (cache w)" and D: "EntryTimer i \<notin> D" and k: "TimerID key = i"
    and Q: "\<And>x w1. ack_step D {i} w w1 \<Longrightarrow> Q x w1"
  shows "wpre (acknowledgeTimer R (i, key)) Q E w"
  unfolding acknowledgeTimer_def Let_def prod.case wpre_andThen wpre_attempt
proof (rule wp_cGetTimer [OF c], goal_cases)
  case 1
  show ?case using D k by simp
next
  case (3 e w1)
  then show ?case by (auto simp: wp intro!: Q ack_step_read)
next
  case (2 w1)
  note c1 = after_coherent [OF 2]
  have r1: "ack_step D {i} w w1" by (rule ack_step_read [OF 2])
  have forget: "wpre (andThen (forgetConsumedWakeTimer i) (\<lambda>_. ret y)) Q E w2" if "ack_step D {i} w w2" for w2 y
    using that by (auto simp: forgetConsumedWakeTimer_def wp intro!: Q ack_step_forget)
  have put: "ack_step D {i} w w3"
    if t: "db_timer (db (inner w)) key = Some t" "fired_copy t r" and w2: "after db D id w1 w2"
      and w3: "after db (insert (EntryTimer (TimerID (TimerKeyFromProto (tr_Key r)))) D) f w2 w3" "f = id \<or> f = put_timer r"
    for t r f w2 w3
  proof -
    have "acked {i} (db (inner w)) (db (inner w3))"
      using w3 acked_put [OF t, of "inner w3"] after_db [OF 2] after_db [OF w2] k by (auto simp: after_def)
    then show ?thesis
      using 2 w2 w3(1) after_registry [OF 2] after_registry [OF w2] after_registry [OF w3(1)] fired_key(2) [OF t] k
      unfolding ack_step_def after_def registry_ok_def by auto
  qed
  have fire: "wpre (andThen (time_now R) (\<lambda>now. andThen (attempt (cPutTimer (rt_Store R) Detached
        (t\<lparr>tr_Status := TIMER_STATUS_FIRED, tr_FiredAt := Some (Timestamp_New R now)\<rparr>))) (\<lambda>put.
        case put of Inl err \<Rightarrow> ret (Some (Wrapped ''acknowledge consumed wake timer'' [err]))
        | Inr _ \<Rightarrow> andThen (forgetConsumedWakeTimer i) (\<lambda>_. ret None)))) Q E w1"
    if t: "db_timer (db (inner w)) key = Some t" "tr_Status t \<noteq> TIMER_STATUS_FIRED" "tr_Status t \<noteq> TIMER_STATUS_CANCELED" for t
    unfolding wpre_andThen wpre_attempt
  proof (rule wp_time_now [OF c1], rule wp_put_doubtful, erule after_coherent, goal_cases)
    case (1 now w2 w3)
    have "fired_copy t (t\<lparr>tr_Status := TIMER_STATUS_FIRED, tr_FiredAt := Some (Timestamp_New R now)\<rparr>)"
      using t by (auto simp: fired_copy_def)
    from put [OF t(1) this 1] forget show ?case by (simp add: wpre_andThen)
  next
    case (2 now w2 e w3 f)
    have "fired_copy t (t\<lparr>tr_Status := TIMER_STATUS_FIRED, tr_FiredAt := Some (Timestamp_New R now)\<rparr>)"
      using t by (auto simp: fired_copy_def)
    from put [OF t(1) this 2(1,3) 2(2)] show ?case by (simp add: wpre_ret Q)
  qed
  show ?case
  proof (cases "db_timer (db (inner w)) key")
    case None
    with r1 forget show ?thesis by simp
  next
    case (Some t)
    with r1 forget fire Q show ?thesis by (simp add: wpre_ret)
  qed
qed

lemma ack_step_trans:
  assumes "ack_step D I w w1" and "ack_step (D \<union> EntryTimer ` I) J w1 w2"
  shows "ack_step D (I \<union> J) w w2"
  using assms acked_trans [of I "db (inner w)" "db (inner w1)" J] unfolding ack_step_def
  by (auto simp: image_Un Un_assoc)

lemma ack_step_mono:
  assumes "ack_step D I w w1" and "I \<subseteq> J"
  shows "ack_step D J w w1"
proof -
  have "D \<union> EntryTimer ` I \<subseteq> D \<union> EntryTimer ` J" using assms(2) by blast
  with assms acked_mono [of I _ _ J] coherent_weaken [of "D \<union> EntryTimer ` I"] show ?thesis
    unfolding ack_step_def by blast
qed

lemma wp_acknowledge_loop:
  assumes "coherent D (db (inner w)) (cache w)" and "distinct (map fst es)"
    and "\<And>i k. (i, k) \<in> set es \<Longrightarrow> EntryTimer i \<notin> D \<and> TimerID k = i"
    and "\<And>x w1. ack_step D (fst ` set es) w w1 \<Longrightarrow> Q x w1"
  shows "wpre (acknowledge_loop R es errs) Q E w"
  using assms
proof (induction es arbitrary: w errs D)
  case Nil
  have "ack_step D {} w w" using Nil(1) by (simp add: ack_step_def)
  with Nil(4) show ?case by (simp add: wp)
next
  case (Cons e es)
  obtain i k where e: "e = (i, k)" by (cases e)
  show ?case
    unfolding acknowledge_loop.simps wpre_andThen e
  proof (rule wp_acknowledgeTimer [OF Cons.prems(1)])
    show "EntryTimer i \<notin> D" "TimerID k = i" using Cons.prems(3) [of i k] e by auto
    fix x w1 assume s: "ack_step D {i} w w1"
    show "wpre (acknowledge_loop R es (case x of None \<Rightarrow> errs | Some x \<Rightarrow> errs @ [x])) Q E w1"
    proof (rule Cons.IH)
      show "coherent (D \<union> EntryTimer ` {i}) (db (inner w1)) (cache w1)" using s by (simp add: ack_step_def)
      show "distinct (map fst es)" using Cons.prems(2) by simp
      show "EntryTimer j \<notin> D \<union> EntryTimer ` {i} \<and> TimerID k' = j" if "(j, k') \<in> set es" for j k'
        using that Cons.prems(2) Cons.prems(3) [of j k'] e by (force simp: image_iff)
      show "Q y w2" if "ack_step (D \<union> EntryTimer ` {i}) (fst ` set es) w1 w2" for y w2
        using Cons.prems(4) ack_step_trans [OF s that] e by simp
    qed
  qed
qed

text \<open>No timer other than \<open>i\<close> is in doubt.\<close>

definition clean_but :: "string \<Rightarrow> entry set \<Rightarrow> bool" where
  "clean_but i D \<longleftrightarrow> (\<forall>j. j \<noteq> i \<longrightarrow> EntryTimer j \<notin> D)"

abbreviation clean :: "entry set \<Rightarrow> bool" where
  "clean D \<equiv> \<forall>i. EntryTimer i \<notin> D"

lemma wp_acknowledge:
  assumes c: "coherent D (db (inner w)) (cache w)" and D: "clean_but i D" and reg: "registry_ok w"
    and Q: "\<And>x w1. ack_step D (- {i}) w w1 \<Longrightarrow> Q x w1" and E: "\<And>x w1. ack_step D (- {i}) w w1 \<Longrightarrow> E x w1"
  shows "wpre (acknowledgeConsumedWakeTimers R i) Q E w"
proof -
  define es where "es = sort_key fst (filter (\<lambda>(timerID, _). timerID \<noteq> i) (consumedWakeTimers w))"
  have set: "set es = {(j, k) \<in> set (consumedWakeTimers w). j \<noteq> i}" by (auto simp: es_def)
  have dist: "distinct (map fst es)"
    using reg by (simp add: es_def registry_ok_def distinct_map_filter distinct_map inj_on_def)
  have sub: "ack_step D (- {i}) w w1" if "ack_step D (fst ` set es) w w1" for w1
    by (rule ack_step_mono [OF that]) (auto simp: set)
  show ?thesis
    unfolding acknowledgeConsumedWakeTimers_def wpre_andThen wpre_gets es_def [symmetric]
    by (rule wp_acknowledge_loop [OF c dist])
      (use D reg sub in \<open>auto simp: set clean_but_def registry_ok_def wp split: sum.splits intro!: Q E\<close>)
qed

subsection \<open>Sleep\<close>

definition wait_post :: "TimerKey \<Rightarrow> ('s, 'm) world_scheme \<Rightarrow> ('s, 'm) world_scheme \<Rightarrow> bool" where
  "wait_post key w w1 \<longleftrightarrow> waited key (db (inner w)) (db (inner w1)) \<and>
     scope (cache w1) = scope (cache w) \<and> world.more w1 = world.more w \<and> registry_ok w1"

lemma pending_scheduled: "pending_at R d key t \<Longrightarrow> scheduled d key"
  by (auto simp: pending_at_def scheduled_def)

lemma pending_acked:
  assumes "acked (- {TimerID key}) d d1" and "pending_at R d key t"
  shows "pending_at R d1 key t"
proof -
  have "db_timer d1 key = db_timer d key" using assms(1) unfolding acked_def by blast
  with assms(2) show ?thesis by (simp add: pending_at_def)
qed

text \<open>Before any acknowledgement: the timer was left alone or written as scheduled.\<close>

definition armed :: "TimerKey \<Rightarrow> database \<Rightarrow> database \<Rightarrow> bool" where
  "armed key d d' \<longleftrightarrow> d' = d \<or> (\<exists>r. d' = put_timer r d \<and> tr_Status r = TIMER_STATUS_SCHEDULED \<and>
     withDefaults (TimerKeyFromProto (tr_Key r)) = withDefaults key)"

lemma waited_armed: "armed key d d' \<Longrightarrow> waited key d d'"
  by (auto simp: armed_def waited_def)

lemma waited_acked: "armed key d d' \<Longrightarrow> scheduled d' key \<Longrightarrow> acked (- {TimerID key}) d' d1 \<Longrightarrow> waited key d d1"
  unfolding armed_def waited_def by blast

lemma wait_post_after:
  assumes "after db D f w w1" and "armed key d (f (db (inner w)))" and "registry_ok w"
    and "scope (cache w) = scope (cache w0)" and "world.more w = world.more w0" and "d = db (inner w0)"
  shows "wait_post key w0 w1"
  using assms after_registry [OF assms(1)] by (simp add: wait_post_def after_def registry_ok_def waited_armed)

lemma wait_post_ack:
  assumes "ack_step D (- {TimerID key}) w w1" and "armed key (db (inner w0)) (db (inner w))" and "scheduled (db (inner w)) key"
    and "registry_ok w" and "scope (cache w) = scope (cache w0)" and "world.more w = world.more w0"
  shows "wait_post key w0 w1"
  using assms by (simp add: wait_post_def ack_step_def waited_acked)

lemma wait_post_register:
  assumes "wait_post key w0 w1"
  shows "wait_post key w0 (w1\<lparr>consumedWakeTimers := AList.update (TimerID key) key (consumedWakeTimers w1)\<rparr>)"
proof -
  have "registry_ok (w1\<lparr>consumedWakeTimers := AList.update (TimerID key) key (consumedWakeTimers w1)\<rparr>)"
    using assms by (auto simp: wait_post_def registry_ok_def distinct_update dest!: set_AList_update(1))
  with assms show ?thesis by (simp add: wait_post_def)
qed

lemma infrastructure_not_pending [simp]:
  "workflowInfrastructureError op e \<noteq> TimerPendingError i t" "workflowInfrastructureError op e \<noteq> EventPendingError i t"
  by (auto simp: workflowInfrastructureError_def errors_As_def)

text \<open>Acknowledging the other timers while \<open>key\<close> is scheduled.\<close>

lemma wp_ack_others:
  assumes c: "coherent D (db (inner w)) (cache w)" "clean_but (TimerID key) D" "registry_ok w"
    and p: "pending_at R (db (inner w)) key fireAt"
    and w0: "armed key (db (inner w0)) (db (inner w))" "scope (cache w) = scope (cache w0)" "world.more w = world.more w0"
    and k: "\<And>x w1. wait_post key w0 w1 \<Longrightarrow> pending_at R (db (inner w1)) key fireAt \<Longrightarrow> wpre (f x) Q E w1"
  shows "wpre (andThen (attempt (acknowledgeConsumedWakeTimers R (TimerID key))) f) Q E w"
proof -
  have "wait_post key w0 w1" "pending_at R (db (inner w1)) key fireAt" if a: "ack_step D (- {TimerID key}) w w1" for w1
    using wait_post_ack [OF a w0(1) pending_scheduled [OF p] c(3) w0(2,3)] a pending_acked [OF _ p] by (simp_all add: ack_step_def)
  then show ?thesis
    unfolding wpre_andThen wpre_attempt by (intro wp_acknowledge [OF c] k)
qed

lemma wp_ack_finish:
  assumes c: "coherent D (db (inner w)) (cache w)" "clean D" "registry_ok w" and p: "pending_at R (db (inner w)) key fireAt"
    and w0: "armed key (db (inner w0)) (db (inner w))" "scope (cache w) = scope (cache w0)" "world.more w = world.more w0"
  shows "wpre (andThen (attempt (acknowledgeConsumedWakeTimers R (TimerID key))) (\<lambda>_. finishSleep key now fireAt))
    (\<lambda>_ w1. wait_post key w0 w1 \<and> passed db key w1)
    (\<lambda>e w1. wait_post key w0 w1 \<and> (\<forall>i t. e = TimerPendingError i t \<longrightarrow> i = TimerID key \<and> pending_at R (db (inner w1)) key t)) w"
proof (rule wp_ack_others [OF c(1) _ c(3) p w0])
  show "clean_but (TimerID key) D" using c(2) by (simp add: clean_but_def)
  fix w1 assume "wait_post key w0 w1" "pending_at R (db (inner w1)) key fireAt"
  with wait_post_register [of key w0 w1] show "wpre (finishSleep key now fireAt) (\<lambda>_ w1. wait_post key w0 w1 \<and> passed db key w1)
    (\<lambda>e w1. wait_post key w0 w1 \<and> (\<forall>i t. e = TimerPendingError i t \<longrightarrow> i = TimerID key \<and> pending_at R (db (inner w1)) key t)) w1"
    by (auto simp: finishSleep_def registerConsumedWakeTimer_def wp passed_def pending_at_def set_AList_update(2))
qed

lemma timerConflict_not_pending [simp]:
  "timerConflict x es \<noteq> TimerPendingError i t" "timerConflict x es \<noteq> EventPendingError i t"
  by (simp_all add: timerConflict_def)

lemma checkTimerTimes_cases:
  "checkTimerTimes R r = Inr fireAt \<Longrightarrow> \<exists>ts. tr_FireAt r = Some ts \<and> Timestamp_AsTime R ts = fireAt"
  "checkTimerTimes R r \<noteq> Inl (TimerPendingError i t)"
  "checkTimerTimes R r \<noteq> Inl (EventPendingError i t)"
  unfolding checkTimerTimes_def by (auto split: option.splits if_splits)

lemma checkTimerStatus_cases:
  "checkTimerStatus R r = Inr u \<Longrightarrow>
     tr_Status r = TIMER_STATUS_SCHEDULED \<or> tr_Status r = TIMER_STATUS_FIRED \<or> tr_Status r = TIMER_STATUS_CANCELED"
  "checkTimerStatus R r \<noteq> Inl (TimerPendingError i t)"
  "checkTimerStatus R r \<noteq> Inl (EventPendingError i t)"
  unfolding checkTimerStatus_def by (auto split: option.splits if_splits TimerStatus.splits)

lemma sleepTimerDetails_ok:
  assumes "sleepTimerDetails R r key dur = Inr (fireAt, status)"
  shows "status = tr_Status r" "\<exists>ts. tr_FireAt r = Some ts \<and> Timestamp_AsTime R ts = fireAt"
    "status = TIMER_STATUS_SCHEDULED \<or> status = TIMER_STATUS_FIRED \<or> status = TIMER_STATUS_CANCELED"
proof -
  have "checkTimerTimes R r = Inr fireAt \<and> checkTimerStatus R r = Inr () \<and> status = tr_Status r"
    using assms unfolding sleepTimerDetails_def Let_def by (simp split: sum.splits option.splits if_splits)
  then show "status = tr_Status r" "\<exists>ts. tr_FireAt r = Some ts \<and> Timestamp_AsTime R ts = fireAt"
    "status = TIMER_STATUS_SCHEDULED \<or> status = TIMER_STATUS_FIRED \<or> status = TIMER_STATUS_CANCELED"
    using checkTimerTimes_cases(1) checkTimerStatus_cases(1) by blast+
qed

lemma sleepTimerDetails_error [simp]: "sleepTimerDetails R r key dur \<noteq> Inl (TimerPendingError i t)"
  unfolding sleepTimerDetails_def Let_def
  by (simp split: sum.split option.split) (metis checkTimerTimes_cases(2) checkTimerStatus_cases(2))

lemma wp_verifySleep:
  assumes c: "coherent D (db (inner w)) (cache w)" "registry_ok w"
    and w0: "armed key (db (inner w0)) (db (inner w))" "scope (cache w) = scope (cache w0)" "world.more w = world.more w0"
  shows "wpre (verifySleep R key dur err) (\<lambda>_ w1. wait_post key w0 w1 \<and> passed db key w1)
    (\<lambda>e w1. wait_post key w0 w1 \<and> (\<forall>i t. e = TimerPendingError i t \<longrightarrow> i = TimerID key \<and> pending_at R (db (inner w1)) key t)) w"
proof -
  have post: "wait_post key w0 w1" if "after db D' id w w1" for D' w1
    by (rule wait_post_after [OF that _ c(2) w0(2,3) refl]) (use w0(1) in simp)
  have pas: "passed db key w1" if "after db D' id w w1" "db_timer (db (inner w)) key = Some r"
      "sleepTimerDetails R r key dur = Inr (a, TIMER_STATUS_FIRED)" for D' w1 r a
    using that(1,2) sleepTimerDetails_ok [OF that(3)] by (simp add: passed_def after_def)
  show ?thesis
    unfolding verifySleep_def getTimerAuthoritative_def Let_def wpre_andThen wpre_attempt
    by (rule wp_refreshTimer [OF c(1)])
      (auto simp: wp post split: option.splits sum.splits intro: pas)
qed

lemma timerKey_sel [simp]:
  "TimerID (timerKey flow i) = i" "withDefaults (timerKey flow i) = timerKey flow i" "Namespace (timerKey flow i) = DefaultNamespace"
  by (simp_all add: timerKey_def DefaultNamespace_def)

lemma TimerKey_Validate_error [simp]:
  "TimerKey_Validate key \<noteq> Inl (TimerPendingError i t)" "TimerKey_Validate key \<noteq> Inl (EventPendingError i t)"
  by (simp_all add: TimerKey_Validate_def protovalidate_def)

abbreviation sleep_done :: "TimerKey \<Rightarrow> ('s, 'm) world_scheme \<Rightarrow> unit \<Rightarrow> ('s, 'm) world_scheme \<Rightarrow> bool" where
  "sleep_done key w \<equiv> \<lambda>_ w1. wait_post key w w1 \<and> passed db key w1"

abbreviation sleep_stopped :: "TimerKey \<Rightarrow> ('s, 'm) world_scheme \<Rightarrow> go_error \<Rightarrow> ('s, 'm) world_scheme \<Rightarrow> bool" where
  "sleep_stopped key w \<equiv> \<lambda>e w1. wait_post key w w1 \<and>
     (\<forall>j t. e = TimerPendingError j t \<longrightarrow> j = TimerID key \<and> pending_at R (db (inner w1)) key t)"

lemma wp_resumeSleep:
  assumes c: "clean D" "registry_ok w" and w1: "after db D id w w1" and r: "db_timer (db (inner w)) key = Some r"
  shows "wpre (resumeSleep R key dur now r) (sleep_done key w) (sleep_stopped key w) w1"
proof -
  have post: "wait_post key w w1"
    by (rule wait_post_after [OF w1 _ c(2) refl refl refl]) (simp add: armed_def)
  show ?thesis
  proof (cases "sleepTimerDetails R r key dur")
    case (Inl e)
    with post show ?thesis by (auto simp: resumeSleep_def wp)
  next
    case (Inr p)
    obtain fireAt status where p: "p = (fireAt, status)" by (cases p)
    note ok = sleepTimerDetails_ok [OF Inr [unfolded p]]
    have reg: "registry_ok w1" using after_registry [OF w1] c(2) by (simp add: registry_ok_def)
    have pend: "pending_at R (db (inner w1)) key fireAt" if "status = TIMER_STATUS_SCHEDULED"
      using ok r that after_db [OF w1] by (auto simp: pending_at_def)
    have fin: "wpre (andThen (attempt (acknowledgeConsumedWakeTimers R (TimerID key))) (\<lambda>_. finishSleep key now fireAt))
        (sleep_done key w) (sleep_stopped key w) w1" if "status = TIMER_STATUS_SCHEDULED"
      by (rule wp_ack_finish [OF after_coherent [OF w1] c(1) reg pend [OF that]])
        (use w1 after_registry [OF w1] in \<open>auto simp: after_def armed_def\<close>)
    have "passed db key w1" if "status = TIMER_STATUS_FIRED" using ok r that after_db [OF w1] by (simp add: passed_def)
    with fin ok(3) post Inr p show ?thesis
      by (auto simp: resumeSleep_def wpre_ret wpre_fail wpre_lift wpre_andThen [of "lift _"])
  qed
qed

lemma wp_startSleep:
  assumes c: "clean D" "registry_ok w" and w1: "after db D id w w1" and key: "Namespace key \<noteq> []"
  shows "wpre (startSleep R ctx key dur now) (sleep_done key w) (sleep_stopped key w) w1"
proof -
  define r where "r = newSleep R key dur now"
  have r: "tr_Key r = Some key" "tr_Status r = TIMER_STATUS_SCHEDULED" "tr_FireAt r = Some (Timestamp_New R (now + dur))"
    using key by (simp_all add: r_def newSleep_def Proto_def)
  show ?thesis
    unfolding startSleep_def wpre_andThen [of "attempt (cPutTimer _ _ _)"] wpre_attempt r_def [symmetric]
  proof (rule wp_cPutTimer [OF after_coherent [OF w1]], goal_cases)
    case (3 w2)
    have "armed key (db (inner w)) (db (inner w2))" using after_db [OF w1] after_db [OF 3] r by (auto simp: armed_def)
    moreover have "pending_at R (db (inner w2)) key (now + dur)"
      using after_db [OF 3] r by (simp add: pending_at_def put_timer_def shown_def)
    moreover have "registry_ok w2" using after_registry [OF w1] after_registry [OF 3] c(2) by (simp add: registry_ok_def)
    ultimately have "wpre (andThen (attempt (acknowledgeConsumedWakeTimers R (TimerID key))) (\<lambda>_. finishSleep key now (now + dur)))
        (sleep_done key w) (sleep_stopped key w) w2"
      using w1 3 after_registry [OF w1] after_registry [OF 3]
      by (intro wp_ack_finish [OF after_coherent [OF 3] c(1)]) (auto simp: after_def)
    then show ?case by simp
  next
    case (4 e w2 f)
    have "armed key (db (inner w)) (db (inner w2))"
      using after_db [OF w1] after_db [OF 4(2)] 4(1) r by (auto simp: armed_def)
    moreover have "registry_ok w2" using after_registry [OF w1] after_registry [OF 4(2)] c(2) by (simp add: registry_ok_def)
    ultimately have "wpre (verifySleep R key dur e) (sleep_done key w) (sleep_stopped key w) w2"
      using w1 4(2) after_registry [OF w1] after_registry [OF 4(2)]
      by (intro wp_verifySleep [OF after_coherent [OF 4(2)]]) (auto simp: after_def)
    then show ?case by simp
  qed (use r key in simp_all)
qed

lemma wp_Sleep:
  assumes c: "coherent D (db (inner w)) (cache w)" "clean D" "registry_ok w" and key_def: "key = timerKey flow i"
  shows "wpre (Sleep R ctx (Some flow) i dur) (sleep_done key w) (sleep_stopped key w) w"
proof -
  have post: "wait_post key w w1" if "after db D id w w1" for w1
    by (rule wait_post_after [OF that _ c(3) refl refl refl]) (simp add: armed_def)
  have same: "wait_post key w w" using c(3) by (simp add: wait_post_def)
  have ns: "Namespace key \<noteq> []" by (simp add: key_def DefaultNamespace_def)
  have tail: "wpre (andThen (attempt (cGetTimer (rt_Store R) ctx key)) (\<lambda>got.
     case got of
       Inl err \<Rightarrow> fail (workflowInfrastructureError ''read sleep timer'' err)
     | Inr (Some record) \<Rightarrow> resumeSleep R key dur now record
     | Inr None \<Rightarrow> startSleep R ctx key dur now)) (sleep_done key w) (sleep_stopped key w) w1"
    if w1: "after db D id w w1" for w1 now
    unfolding wpre_andThen [of "attempt (cGetTimer _ _ _)"] wpre_attempt [of "cGetTimer _ _ _"]
  proof (rule wp_cGetTimer [OF after_coherent [OF w1]], goal_cases)
    case (2 w2)
    have w2: "after db D id w w2" and d: "db (inner w1) = db (inner w)" using w1 2 by (auto simp: after_def)
    show ?case using wp_resumeSleep [OF c(2,3) w2] wp_startSleep [OF c(2,3) w2 ns]
      by (cases "db_timer (db (inner w)) key") (simp_all add: d)
  next
    case (3 e w2)
    have "after db D id w w2" using w1 3 by (auto simp: after_def)
    from post [OF this] show ?case by (simp add: wpre_fail)
  qed (use c(2) in simp)
  have val: "TimerKey_Validate key = Inl e \<Longrightarrow> sleep_stopped key w e w" for e using same TimerKey_Validate_error [of key] by auto
  show ?thesis
    unfolding Sleep_def Current_def option.case andThen_lift_Inr wpre_if wpre_let Let_def key_def [symmetric]
      wpre_andThen [of "lift _"] wpre_lift wpre_andThen [of "time_now R"]
    using same val tail
    by (auto simp: wpre_fail split: sum.split intro!: wp_time_now [OF c(1)])
qed

subsection \<open>Polls\<close>

lemma pollTimerDetails_ok:
  assumes "pollTimerDetails R r key dur = Inr (fireAt, status)"
  shows "status = tr_Status r" "\<exists>ts. tr_FireAt r = Some ts \<and> Timestamp_AsTime R ts = fireAt"
    "withDefaults (TimerKeyFromProto (tr_Key r)) = withDefaults key"
proof -
  have "checkTimerTimes R r = Inr fireAt \<and> ValidateTimerRecord (Some r) key = Inr () \<and> status = tr_Status r"
    using assms unfolding pollTimerDetails_def Let_def by (simp split: sum.splits option.splits if_splits)
  then show "status = tr_Status r" "\<exists>ts. tr_FireAt r = Some ts \<and> Timestamp_AsTime R ts = fireAt"
    "withDefaults (TimerKeyFromProto (tr_Key r)) = withDefaults key"
    using checkTimerTimes_cases(1) by (auto simp: ValidateTimerRecord_ok)
qed

lemma wp_verifyPoll:
  assumes c: "coherent D (db (inner w)) (cache w)" "registry_ok w"
    and w0: "armed key (db (inner w0)) (db (inner w))" "scope (cache w) = scope (cache w0)" "world.more w = world.more w0"
  shows "wpre (verifyPoll R key dur err) Q (\<lambda>e w1. wait_post key w0 w1 \<and> (\<forall>i t. e \<noteq> EventPendingError i t)) w"
proof -
  have post: "wait_post key w0 w1" if "after db D' id w w1" for D' w1
    by (rule wait_post_after [OF that _ c(2) w0(2,3) refl]) (use w0(1) in simp)
  show ?thesis
    unfolding verifyPoll_def getTimerAuthoritative_def Let_def wpre_andThen wpre_attempt
    by (rule wp_refreshTimer [OF c(1)]) (auto simp: wp post split: option.splits sum.splits)
qed

abbreviation poll_armed :: "TimerKey \<Rightarrow> ('s, 'm) world_scheme \<Rightarrow> time \<Rightarrow> ('s, 'm) world_scheme \<Rightarrow> bool" where
  "poll_armed key w \<equiv> \<lambda>t w1. wait_post key w w1 \<and> pending_at R (db (inner w1)) key t"

abbreviation poll_stopped :: "TimerKey \<Rightarrow> ('s, 'm) world_scheme \<Rightarrow> go_error \<Rightarrow> ('s, 'm) world_scheme \<Rightarrow> bool" where
  "poll_stopped key w \<equiv> \<lambda>e w1. wait_post key w w1 \<and> (\<forall>i t. e \<noteq> EventPendingError i t)"

lemma wp_armPollTimer:
  assumes c: "clean D" "registry_ok w" and w1: "after db D id w w1"
    and key: "Namespace key \<noteq> []" "\<And>r. stored = Some r \<Longrightarrow> withDefaults (TimerKeyFromProto (tr_Key r)) = withDefaults key"
  shows "wpre (armPollTimer R ctx key dur now stored)
    (poll_armed key w) (poll_stopped key w) w1"
proof -
  define r where "r = armedPoll R key dur now stored"
  have r: "withDefaults (TimerKeyFromProto (tr_Key r)) = withDefaults key"
    "tr_Status r = TIMER_STATUS_SCHEDULED" "tr_FireAt r = Some (Timestamp_New R (now + dur))"
    using key by (auto simp: r_def armedPoll_def Proto_def Let_def split: option.splits)
  have rid: "TimerID (TimerKeyFromProto (tr_Key r)) = TimerID key" using arg_cong [OF r(1), of TimerID] by simp
  show ?thesis
    unfolding armPollTimer_def wpre_andThen [of "attempt (cPutTimer _ _ _)"] wpre_attempt r_def [symmetric]
  proof (rule wp_put_doubtful [OF after_coherent [OF w1]], goal_cases)
    case (1 w2)
    have "armed key (db (inner w)) (db (inner w2))" using after_db [OF w1] after_db [OF 1] r by (auto simp: armed_def)
    moreover have "pending_at R (db (inner w2)) key (now + dur)"
      using after_db [OF 1] r by (simp add: pending_at_def put_timer_def set_key_def shown_def)
    moreover have "registry_ok w2" using after_registry [OF w1] after_registry [OF 1] c(2) by (simp add: registry_ok_def)
    moreover have "clean_but (TimerID key) (insert (EntryTimer (TimerID (TimerKeyFromProto (tr_Key r)))) D)"
      using c(1) rid by (simp add: clean_but_def)
    ultimately have "wpre (andThen (attempt (acknowledgeConsumedWakeTimers R (TimerID key))) (\<lambda>_. ret (now + dur)))
        (poll_armed key w) (poll_stopped key w) w2"
      using w1 1 after_registry [OF w1] after_registry [OF 1]
      by (intro wp_ack_others [OF after_coherent [OF 1]]) (auto simp: after_def wp)
    then show ?case by simp
  next
    case (2 e w2 f)
    have "armed key (db (inner w)) (db (inner w2))"
      using after_db [OF w1] after_db [OF 2(2)] 2(1) r by (auto simp: armed_def)
    moreover have "registry_ok w2" using after_registry [OF w1] after_registry [OF 2(2)] c(2) by (simp add: registry_ok_def)
    ultimately have "wpre (verifyPoll R key dur e) (poll_armed key w) (poll_stopped key w) w2"
      using w1 2(2) after_registry [OF w1] after_registry [OF 2(2)]
      by (intro wp_verifyPoll [OF after_coherent [OF 2(2)]]) (auto simp: after_def)
    then show ?case by simp
  qed
qed

lemma pollTimerDetails_error [simp]: "pollTimerDetails R r key dur \<noteq> Inl (EventPendingError i t)"
  unfolding pollTimerDetails_def Let_def
  by (simp split: sum.split option.split) (metis checkTimerTimes_cases(3) checkTimerStatus_cases(3))

lemma pollInterval_error [simp]: "pollInterval R poll \<noteq> Inl (EventPendingError i t)"
  by (simp add: pollInterval_def protovalidate_def Let_def split: option.split sum.split)

lemma wp_resumePoll:
  assumes c: "clean D" "registry_ok w" and w1: "after db D id w w1" and r: "db_timer (db (inner w)) key = Some r"
    and key: "Namespace key \<noteq> []"
  shows "wpre (resumePoll R ctx key dur now r) (poll_armed key w) (poll_stopped key w) w1"
proof -
  have post: "wait_post key w w1"
    by (rule wait_post_after [OF w1 _ c(2) refl refl refl]) (simp add: armed_def)
  show ?thesis
  proof (cases "pollTimerDetails R r key dur")
    case (Inl e)
    with post show ?thesis by (auto simp: resumePoll_def wp)
  next
    case (Inr p)
    obtain fireAt status where p: "p = (fireAt, status)" by (cases p)
    note ok = pollTimerDetails_ok [OF Inr [unfolded p]]
    have reg: "registry_ok w1" using after_registry [OF w1] c(2) by (simp add: registry_ok_def)
    have pend: "pending_at R (db (inner w1)) key fireAt" if "status = TIMER_STATUS_SCHEDULED"
      using ok r that after_db [OF w1] by (auto simp: pending_at_def)
    have "wpre (andThen (attempt (acknowledgeConsumedWakeTimers R (TimerID key))) (\<lambda>_. ret fireAt))
        (poll_armed key w) (poll_stopped key w) w1" if "status = TIMER_STATUS_SCHEDULED"
      by (rule wp_ack_others [OF after_coherent [OF w1] _ reg pend [OF that]])
        (use c w1 after_registry [OF w1] in \<open>auto simp: after_def armed_def clean_but_def wpre_ret\<close>)
    moreover have "wpre (armPollTimer R ctx key dur now (Some r)) (poll_armed key w) (poll_stopped key w) w1"
      by (rule wp_armPollTimer [OF c w1 key]) (use ok in simp)
    ultimately show ?thesis using post Inr p
      by (auto simp: resumePoll_def wpre_fail wpre_lift wpre_andThen [of "lift _"])
  qed
qed

lemma wp_ArmPoll:
  assumes c: "coherent D (db (inner w)) (cache w)" "clean D" "registry_ok w" and key_def: "key = timerKey flow (po_TimerId options)"
  shows "wpre (ArmPoll R ctx (Some flow) (Some options)) (poll_armed key w) (poll_stopped key w) w"
proof -
  have post: "wait_post key w w1" if "after db D id w w1" for w1
    by (rule wait_post_after [OF that _ c(3) refl refl refl]) (simp add: armed_def)
  have same: "wait_post key w w" using c(3) by (simp add: wait_post_def)
  have ns: "Namespace key \<noteq> []" by (simp add: key_def DefaultNamespace_def)
  have tail: "wpre (andThen (attempt (cGetTimer (rt_Store R) ctx key)) (\<lambda>got.
     case got of
       Inl err \<Rightarrow> fail (workflowInfrastructureError ''read poll timer'' err)
     | Inr None \<Rightarrow> armPollTimer R ctx key dur now None
     | Inr (Some record) \<Rightarrow> resumePoll R ctx key dur now record)) (poll_armed key w) (poll_stopped key w) w1"
    if w1: "after db D id w w1" for w1 now dur
    unfolding wpre_andThen [of "attempt (cGetTimer _ _ _)"] wpre_attempt [of "cGetTimer _ _ _"]
  proof (rule wp_cGetTimer [OF after_coherent [OF w1]], goal_cases)
    case (2 w2)
    have w2: "after db D id w w2" and d: "db (inner w1) = db (inner w)" using w1 2 by (auto simp: after_def)
    show ?case using wp_resumePoll [OF c(2,3) w2 _ ns] wp_armPollTimer [OF c(2,3) w2 ns, of None]
      by (cases "db_timer (db (inner w)) key") (simp_all add: d)
  next
    case (3 e w2)
    have "after db D id w w2" using w1 3 by (auto simp: after_def)
    from post [OF this] show ?case by (simp add: wpre_fail)
  qed (use c(2) in simp)
  show ?thesis
    unfolding ArmPoll_def Current_def option.case andThen_lift_Inr Let_def key_def [symmetric]
      wpre_andThen [of "lift _"] wpre_lift wpre_andThen [of "time_now R"]
    using same tail by (auto split: sum.split intro!: wp_time_now [OF c(1)])
qed

lemma wait_post_same: "after db D id w w1 \<Longrightarrow> registry_ok w \<Longrightarrow> wait_post key w w1"
  by (rule wait_post_after [of D id _ _ _ "db (inner w)"]) (simp_all add: armed_def)

lemma wp_ResolvePoll:
  assumes c: "coherent D (db (inner w)) (cache w)" "clean D" "registry_ok w" and key_def: "key = timerKey flow (po_TimerId options)"
  shows "wpre (ResolvePoll R ctx (Some flow) (Some options)) (\<lambda>_ w1. wait_post key w w1) (poll_stopped key w) w"
proof -
  have same: "wait_post key w w" using c(3) by (simp add: wait_post_def)
  have tail: "wpre (andThen (attempt (cGetTimer (rt_Store R) ctx key)) (\<lambda>got.
     case got of
       Inl err \<Rightarrow> fail (workflowInfrastructureError ''read resolved poll timer'' err)
     | Inr None \<Rightarrow> ret ()
     | Inr (Some record) \<Rightarrow>
         andThen (lift (pollTimerDetails R record key dur)) (\<lambda>(_, status).
         if status = TIMER_STATUS_SCHEDULED then registerConsumedWakeTimer key else ret ())))
     (\<lambda>_ w1. wait_post key w w1) (poll_stopped key w) w" for dur
    unfolding wpre_andThen [of "attempt (cGetTimer _ _ _)"] wpre_attempt [of "cGetTimer _ _ _"]
    by (rule wp_cGetTimer [OF c(1)])
      (use c(2,3) in \<open>auto simp: wp registerConsumedWakeTimer_def intro!: wait_post_same wait_post_register split: option.splits sum.splits\<close>)
  show ?thesis
    unfolding ResolvePoll_def Current_def option.case andThen_lift_Inr Let_def key_def [symmetric]
      wpre_andThen [of "lift _"] wpre_lift
    using same tail by (auto split: sum.split)
qed

text \<open>An event wait with a poll timer: pending with a wake behind it, or the stored payload.\<close>

lemma EventKey_Validate_error [simp]: "EventKey_Validate key \<noteq> Inl (EventPendingError i t)"
  by (simp add: EventKey_Validate_def protovalidate_def)

lemma eventPayload_error [simp]: "eventPayload M r p \<noteq> Inl (EventPendingError i t)"
  by (simp add: eventPayload_def split: option.split sum.split)

lemma ValidatePollOptions_error [simp]: "ValidatePollOptions R poll \<noteq> Inl (EventPendingError i t)"
  by (auto simp: ValidatePollOptions_def split: option.splits sum.splits)

lemma ValidateEventDeliveryRecord_error [simp]: "ValidateEventDeliveryRecord R r k \<noteq> Inl (EventPendingError i t)"
proof -
  have "ValidateEventRecord r k \<noteq> Inl (EventPendingError i t)"
    by (simp add: ValidateEventRecord_def corruptRecordf_def Let_def split: option.split)
  then show ?thesis by (auto simp: ValidateEventDeliveryRecord_def corruptRecordf_def split: sum.splits)
qed

lemma wp_WaitEvent:
  assumes c: "coherent D (db (inner w)) (cache w)" "clean D" "EntryEvent i \<notin> D" "registry_ok w"
    and key_def: "key = timerKey flow (po_TimerId options)"
    and ekey_def: "ekey = \<lparr>Namespace = DefaultNamespace, WorkflowID = wf_workflowID flow, RunID = wf_runID flow, EventID = i\<rparr>"
  shows "wpre (WaitEvent R M ctx (Some flow) i newPayload (Some options))
    (\<lambda>v w1. wait_post key w w1 \<and> (\<exists>record payload. db_event (db (inner w)) ekey = Some record \<and>
       newPayload = Some (Some payload) \<and> eventPayload M record payload = Inr v))
    (\<lambda>e w1. wait_post key w w1 \<and> (\<forall>j t. e = EventPendingError j t \<longrightarrow>
       j = i \<and> db_event (db (inner w)) ekey = None \<and> pending_at R (db (inner w1)) key t)) w"
    (is "wpre _ ?Q ?E w")
proof -
  have same: "wait_post key w w" using c(4) by (simp add: wait_post_def)
  have trans: "wait_post key w w2" if "after db D id w w1" "wait_post key w1 w2" for w1 w2
    using that after_registry(2) [OF that(1)] by (simp add: wait_post_def after_def)
  have reg: "registry_ok w1" if "after db D id w w1" for w1
    using after_registry(1) [OF that] c(4) by (simp add: registry_ok_def)
  have missing: "wpre (andThen (ArmPoll R ctx (Some flow) (Some options)) (\<lambda>wakeAt. fail (EventPendingError i wakeAt))) ?Q ?E w1"
    if w1: "after db D id w w1" and none: "db_event (db (inner w)) ekey = None" for w1
    unfolding wpre_andThen wpre_fail
    by (rule wpre_mono [OF wp_ArmPoll [OF after_coherent [OF w1] c(2) reg [OF w1] key_def]])
      (use none in \<open>auto intro: trans [OF w1]\<close>)
  have found: "wpre (andThen (lift (ValidateEventDeliveryRecord R (Some record) ekey)) (\<lambda>_.
      andThen (ResolvePoll R ctx (Some flow) (Some options)) (\<lambda>_. lift (eventPayload M record payload)))) ?Q ?E w1"
    if w1: "after db D id w w1" and "db_event (db (inner w)) ekey = Some record" "newPayload = Some (Some payload)" for w1 and "record" and payload
  proof -
    have "wpre (ResolvePoll R ctx (Some flow) (Some options)) (\<lambda>_. wpre (lift (eventPayload M record payload)) ?Q ?E) ?E w1"
      by (rule wpre_mono [OF wp_ResolvePoll [OF after_coherent [OF w1] c(2) reg [OF w1] key_def]])
        (use that in \<open>auto simp: wpre_lift split: sum.split intro: trans [OF w1]\<close>)
    with wait_post_same [OF w1 c(4)] show ?thesis by (auto simp: wpre_andThen wpre_lift split: sum.split)
  qed
  have got: "wpre (andThen (attempt (cGetEvent (rt_Store R) ctx ekey)) (\<lambda>got.
     case got of
       Inl err \<Rightarrow> fail (workflowInfrastructureError ''read workflow event'' err)
     | Inr None \<Rightarrow> andThen (ArmPoll R ctx (Some flow) (Some options)) (\<lambda>wakeAt. fail (EventPendingError i wakeAt))
     | Inr (Some record) \<Rightarrow> andThen (lift (ValidateEventDeliveryRecord R (Some record) ekey)) (\<lambda>_.
         andThen (ResolvePoll R ctx (Some flow) (Some options)) (\<lambda>_. lift (eventPayload M record payload))))) ?Q ?E w"
    if "newPayload = Some (Some payload)" for payload
    unfolding wpre_andThen [of "attempt (cGetEvent _ _ _)"] wpre_attempt [of "cGetEvent _ _ _"]
  proof (rule wp_cGetEvent [OF c(1)], goal_cases)
    case (2 w1)
    then show ?case using missing [OF 2] found [OF 2 _ that] by (cases "db_event (db (inner w)) ekey") simp_all
  next
    case (3 e w1)
    then show ?case using wait_post_same [OF 3 c(4)] by (simp add: wpre_fail)
  qed (use c(3) in \<open>simp add: ekey_def\<close>)
  show ?thesis
    unfolding WaitEvent_def Current_def option.case andThen_lift_Inr Let_def ekey_def [symmetric]
      wpre_andThen [of "lift _"] wpre_lift
    using same got by (auto simp: wpre_fail split: sum.split option.split)
qed

lemma wait_post_wake:
  "wait_post key w w1 \<Longrightarrow> scheduled (db (inner w)) k \<Longrightarrow> scheduled (db (inner w1)) k \<or> scheduled (db (inner w1)) key"
  using waited_keeps_wake by (fastforce simp: wait_post_def)

lemma Sleep_outcome:
  assumes "coherent {} (db (inner w)) (cache w)" and "registry_ok w" and "Sleep R ctx (Some flow) timerID d w = (r, w1)"
  shows "(\<forall>i t. r = Inl (TimerPendingError i t) \<longrightarrow> i = timerID \<and> pending_at R (db (inner w1)) (timerKey flow timerID) t) \<and>
    (r = Inr () \<longrightarrow> passed db (timerKey flow timerID) w1) \<and>
    (\<forall>k. scheduled (db (inner w)) k \<longrightarrow> scheduled (db (inner w1)) k \<or> scheduled (db (inner w1)) (timerKey flow timerID))"
proof -
  note wp = wp_Sleep [OF assms(1) _ assms(2) refl]
  show ?thesis
  proof (cases r)
    case (Inl e)
    with wpre_InlD [OF wp, of ctx flow timerID d e w1] assms(3) wait_post_wake show ?thesis by auto
  next
    case (Inr u)
    with wpre_InrD [OF wp, of ctx flow timerID d u w1] assms(3) wait_post_wake show ?thesis by auto
  qed
qed

lemma WaitEvent_outcome:
  assumes "coherent {} (db (inner w)) (cache w)" and "registry_ok w"
    and "WaitEvent R M ctx (Some flow) eventID newPayload (Some options) w = (r, w1)"
    and "key = timerKey flow (po_TimerId options)"
    and "ekey = \<lparr>Namespace = DefaultNamespace, WorkflowID = wf_workflowID flow, RunID = wf_runID flow, EventID = eventID\<rparr>"
  shows "(\<forall>i t. r = Inl (EventPendingError i t) \<longrightarrow>
      i = eventID \<and> db_event (db (inner w)) ekey = None \<and> pending_at R (db (inner w1)) key t) \<and>
    (\<forall>v. r = Inr v \<longrightarrow> (\<exists>stored payload. db_event (db (inner w)) ekey = Some stored \<and>
      newPayload = Some (Some payload) \<and> eventPayload M stored payload = Inr v)) \<and>
    (\<forall>k. scheduled (db (inner w)) k \<longrightarrow> scheduled (db (inner w1)) k \<or> scheduled (db (inner w1)) key)"
proof -
  note wp = wp_WaitEvent [OF assms(1) _ _ assms(2,4,5), of M ctx newPayload]
  show ?thesis
  proof (cases r)
    case (Inl e)
    with wpre_InlD [OF wp, of e w1] assms(3) wait_post_wake [of key] show ?thesis by auto
  next
    case (Inr v)
    with wpre_InrD [OF wp, of v w1] assms(3) wait_post_wake [of key] show ?thesis by auto
  qed
qed

end

section \<open>The runtime on the object store\<close>

text \<open>The environment of a runtime whose store is an \<open>OpenDALStore\<close>.\<close>

definition opendal_runtime :: "('s, 'b, 'm) env_scheme \<Rightarrow> 's runtime" where
  "opendal_runtime X = \<lparr>Timestamp_CheckValid = Timestamp_CheckValid X, Timestamp_AsTime = Timestamp_AsTime X,
     Timestamp_New = Timestamp_New X, Duration_CheckValid = Duration_CheckValid X,
     Duration_AsDuration = Duration_AsDuration X, Duration_New = Duration_New X,
     rt_Store = OpenDALStore X, rt_Now = (\<lambda>s. case time_Now X s of (r, s1) \<Rightarrow> (case r of Inr t \<Rightarrow> t | Inl _ \<Rightarrow> 0, s1))\<rparr>"

lemma opendal_runtime_wkt [simp]:
  "Timestamp_CheckValid (opendal_runtime X) = Timestamp_CheckValid X" "Timestamp_AsTime (opendal_runtime X) = Timestamp_AsTime X"
  "Timestamp_New (opendal_runtime X) = Timestamp_New X" "Duration_CheckValid (opendal_runtime X) = Duration_CheckValid X"
  "Duration_AsDuration (opendal_runtime X) = Duration_AsDuration X" "Duration_New (opendal_runtime X) = Duration_New X"
  "rt_Store (opendal_runtime X) = OpenDALStore X"
  by (simp_all add: opendal_runtime_def)

lemma validate_runtime [simp]:
  "checkValid (opendal_runtime X) = checkValid X" "asTime (opendal_runtime X) = asTime X"
  "ValidateWorkflowRecord (opendal_runtime X) = ValidateWorkflowRecord X" "ValidateDueTimer (opendal_runtime X) = ValidateDueTimer X"
proof -
  show c: "checkValid (opendal_runtime X) = checkValid X" "asTime (opendal_runtime X) = asTime X"
    by (intro ext, simp add: checkValid_def asTime_def split: option.split)+
  show w: "ValidateWorkflowRecord (opendal_runtime X) = ValidateWorkflowRecord X"
    by (intro ext) (unfold ValidateWorkflowRecord_def c, rule refl)
  show "ValidateDueTimer (opendal_runtime X) = ValidateDueTimer X"
    by (intro ext) (unfold ValidateDueTimer_def c w, rule refl)
qed

context opendal_laws
begin

lemma durable_runtime: "runtime_laws (opendal_runtime X) bucket_db"
proof -
  have "well_known_types (opendal_runtime X)"
    using well_known_types_axioms unfolding well_known_types_def by simp
  moreover have "store_laws_axioms (opendal_runtime X) (rt_Store (opendal_runtime X)) bucket_db"
    using bucket_store unfolding store_laws_def store_laws_axioms_def by simp
  moreover have "bucket_db (snd (rt_Now (opendal_runtime X) s)) = bucket_db s" for s
    using keepsD [OF now_keeps(1)] by (simp add: opendal_runtime_def split: prod.splits)
  ultimately show ?thesis by (intro runtime_laws.intro store_laws.intro runtime_laws_axioms.intro)
qed

end

sublocale opendal_laws \<subseteq> durable: runtime_laws "opendal_runtime X" "\<lambda>s. database_of X (objs s)"
  by (rule durable_runtime)

section \<open>Properties\<close>

text \<open>
  C18. A sleep never loses a wake. Whatever \<open>Sleep\<close> returns, and however its reads and writes
  failed: if it reports that its timer is pending until some time, the database has a scheduled
  record of that timer that fires then; if it returns normally, the timer has fired or is
  still scheduled and remembered as consumed; and if any timer was scheduled before the call,
  then that timer or the sleep's own is scheduled after it, so that a crash at any later point
  leaves a wake for the scanner to find.
\<close>

theorem sleep_never_loses_wake:
  assumes "runtime_laws R db" and "coherent {} (db (inner w)) (cache w)" and "registry_ok w"
    and "Sleep R ctx (Some flow) timerID d w = (r, w1)"
  shows "(\<forall>i t. r = Inl (TimerPendingError i t) \<longrightarrow> i = timerID \<and> pending_at R (db (inner w1)) (timerKey flow timerID) t) \<and>
    (r = Inr () \<longrightarrow> passed db (timerKey flow timerID) w1) \<and>
    (\<forall>k. scheduled (db (inner w)) k \<longrightarrow> scheduled (db (inner w1)) k \<or> scheduled (db (inner w1)) (timerKey flow timerID))"
  by (rule runtime_laws.Sleep_outcome [OF assms])

definition flow_example :: Workflow where
  "flow_example = \<lparr>wf_workflowID = ''orders'', wf_runID = ''r1''\<rparr>"

definition world_example :: "memory world" where
  "world_example = \<lparr>inner = scan_example, cache = newRunScopedCache (NewWorkflowKey ''orders'' ''r1''), consumedWakeTimers = []\<rparr>"

lemma world_example_ok:
  "coherent {} d (cache world_example)" "registry_ok world_example"
  by (simp_all add: world_example_def coherent_new NewWorkflowKey_def DefaultNamespace_def registry_ok_def)

theorem sleep_never_loses_wake_witness:
  "fst (Sleep (opendal_runtime mem_env) Caller (Some flow_example) ''nap'' 5 world_example) = Inl (TimerPendingError ''nap'' 5) \<and>
   pending_at (opendal_runtime mem_env) (database_of mem_env (mem_lookup (inner (snd (
     Sleep (opendal_runtime mem_env) Caller (Some flow_example) ''nap'' 5 world_example))))) (timerKey flow_example ''nap'') 5"
proof -
  have ok: "fst (Sleep (opendal_runtime mem_env) Caller (Some flow_example) ''nap'' 5 world_example) = Inl (TimerPendingError ''nap'' 5)"
    by code_simp
  have "Sleep (opendal_runtime mem_env) Caller (Some flow_example) ''nap'' 5 world_example =
      (Inl (TimerPendingError ''nap'' 5), snd (Sleep (opendal_runtime mem_env) Caller (Some flow_example) ''nap'' 5 world_example))"
    using ok by (metis prod.collapse)
  from sleep_never_loses_wake [OF opendal_laws.durable_runtime [OF mem.opendal_laws_axioms] world_example_ok this] ok
  show ?thesis by simp
qed

text \<open>
  C19. An event wait is woken or answered. When \<open>WaitEvent\<close> with poll options reports that its
  event is pending, the event is not in the store and the poll timer is scheduled there for
  the time the error names; when it returns a message, that message is the payload of the
  stored event; and as for a sleep, no outcome takes away the last scheduled wake.
\<close>

theorem wait_event_woken_or_answered:
  assumes "runtime_laws R db" and "coherent {} (db (inner w)) (cache w)" and "registry_ok w"
    and "WaitEvent R M ctx (Some flow) eventID newPayload (Some options) w = (r, w1)"
    and "key = timerKey flow (po_TimerId options)"
    and "ekey = \<lparr>Namespace = DefaultNamespace, WorkflowID = wf_workflowID flow, RunID = wf_runID flow, EventID = eventID\<rparr>"
  shows "(\<forall>i t. r = Inl (EventPendingError i t) \<longrightarrow>
      i = eventID \<and> db_event (db (inner w)) ekey = None \<and> pending_at R (db (inner w1)) key t) \<and>
    (\<forall>v. r = Inr v \<longrightarrow> (\<exists>stored payload. db_event (db (inner w)) ekey = Some stored \<and>
      newPayload = Some (Some payload) \<and> eventPayload M stored payload = Inr v)) \<and>
    (\<forall>k. scheduled (db (inner w)) k \<longrightarrow> scheduled (db (inner w1)) k \<or> scheduled (db (inner w1)) key)"
  by (rule runtime_laws.WaitEvent_outcome [OF assms])

definition text_messages :: "string messages" where
  "text_messages = \<lparr>msg_FullName = (\<lambda>_. ''text''), any_New = (\<lambda>v. Inr \<lparr>any_type_url = ''text'', any_value = v\<rparr>),
     any_MessageIs = (\<lambda>a _. any_type_url a = ''text''), any_UnmarshalTo = (\<lambda>a _. Inr (any_value a))\<rparr>"

definition poll_example :: PollOptions where
  "poll_example = \<lparr>po_TimerId = ''poll'', po_Interval = Some \<lparr>du_seconds = 1, du_nanos = 0\<rparr>\<rparr>"

theorem wait_event_woken_or_answered_witness:
  "pending_at (opendal_runtime mem_env) (database_of mem_env (mem_lookup (inner (snd (WaitEvent (opendal_runtime mem_env)
     text_messages Caller (Some flow_example) ''paid'' (Some (Some [])) (Some poll_example) world_example)))))
     (timerKey flow_example ''poll'') 1000000000"
proof -
  let ?run = "WaitEvent (opendal_runtime mem_env) text_messages Caller (Some flow_example) ''paid'' (Some (Some [])) (Some poll_example) world_example"
  have "fst ?run = Inl (EventPendingError ''paid'' 1000000000)" by code_simp
  then have "?run = (Inl (EventPendingError ''paid'' 1000000000), snd ?run)" by (metis prod.collapse)
  from wait_event_woken_or_answered [OF opendal_laws.durable_runtime [OF mem.opendal_laws_axioms] world_example_ok this refl refl]
  show ?thesis by (simp add: poll_example_def)
qed

end
