(* ===== verification/Float64.thy ===== *)
theory Float64
  imports Messages "HOL-Library.Log_Nat"
begin

text \<open>
  The \<open>float64\<close> arithmetic of Go that the retry planner uses: conversion from \<open>int64\<close>,
  multiplication and conversion back. Results are rounded to the nearest double, ties to even,
  with overflow to an infinity; the sign of zero is not kept. Rounding is proved monotone and
  the identity on doubles, which is what bounds a computed backoff interval by its cap.
\<close>

section \<open>Rounding\<close>

definition pow2 :: "int \<Rightarrow> rat" where
  "pow2 e = (if e \<ge> 0 then 2 ^ nat e else 1 / 2 ^ nat (- e))"

definition round_half_even :: "rat \<Rightarrow> int" where
  "round_half_even q =
     (let f = \<lfloor>q\<rfloor>; r = q - of_int f in
      if r < 1 / 2 then f else if r > 1 / 2 then f + 1 else if even f then f else f + 1)"

text \<open>The exponent \<open>e\<close> of a positive number, \<open>2\<^sup>e \<le> q < 2\<^sup>e\<^sup>+\<^sup>1\<close>, from the bit lengths of its fraction.\<close>

definition exponent :: "rat \<Rightarrow> int" where
  "exponent q =
     (case quotient_of q of (n, d) \<Rightarrow>
      let e = bitlen n - bitlen d in if pow2 e \<le> q then e else e - 1)"

text \<open>The spacing of doubles around a positive number: 53 significant bits, none below \<open>2\<^sup>-\<^sup>1\<^sup>0\<^sup>7\<^sup>4\<close>.\<close>

definition ulp :: "rat \<Rightarrow> rat" where
  "ulp q = pow2 (max (exponent q - 52) (-1074))"

definition round_pos :: "rat \<Rightarrow> rat" where
  "round_pos q = (if q = 0 then 0 else of_int (round_half_even (q / ulp q)) * ulp q)"

definition round64 :: "rat \<Rightarrow> float64" where
  "round64 q =
     (let m = round_pos \<bar>q\<bar> in if m \<ge> 2 ^ 1024 then Infinity (q < 0) else Finite (if q < 0 then - m else m))"

section \<open>Operations\<close>

definition float64_of_int :: "int \<Rightarrow> float64" where
  "float64_of_int n = round64 (of_int n)"

fun float64_mult :: "float64 \<Rightarrow> float64 \<Rightarrow> float64" where
  "float64_mult NaN _ = NaN"
| "float64_mult _ NaN = NaN"
| "float64_mult (Infinity s) (Infinity t) = Infinity (s \<noteq> t)"
| "float64_mult (Infinity s) (Finite q) = (if q = 0 then NaN else Infinity (s \<noteq> (q < 0)))"
| "float64_mult (Finite q) (Infinity s) = (if q = 0 then NaN else Infinity (s \<noteq> (q < 0)))"
| "float64_mult (Finite p) (Finite q) = round64 (p * q)"

text \<open>Comparisons: every one with \<open>NaN\<close> is false.\<close>

fun float64_le :: "float64 \<Rightarrow> float64 \<Rightarrow> bool" where
  "float64_le NaN _ = False"
| "float64_le _ NaN = False"
| "float64_le (Infinity s) (Infinity t) = (s \<or> \<not> t)"
| "float64_le (Infinity s) (Finite q) = s"
| "float64_le (Finite q) (Infinity t) = (\<not> t)"
| "float64_le (Finite p) (Finite q) = (p \<le> q)"

definition float64_less :: "float64 \<Rightarrow> float64 \<Rightarrow> bool" where
  "float64_less x y \<longleftrightarrow> float64_le x y \<and> \<not> float64_le y x"

fun IsNaN :: "float64 \<Rightarrow> bool" where
  "IsNaN NaN = True"
| "IsNaN _ = False"

fun IsInf :: "float64 \<Rightarrow> bool" where
  "IsInf (Infinity _) = True"
| "IsInf _ = False"

definition truncate_rat :: "rat \<Rightarrow> int" where
  "truncate_rat q = (if q < 0 then - \<lfloor>- q\<rfloor> else \<lfloor>q\<rfloor>)"

text \<open>
  \<open>int64(x)\<close>: truncation toward zero. What an unrepresentable value gives is left to the
  implementation by the language specification, so it is the argument \<open>undef\<close>.
\<close>

fun int64_of_float64 :: "(float64 \<Rightarrow> int) \<Rightarrow> float64 \<Rightarrow> int" where
  "int64_of_float64 undef (Finite q) =
     (if int64_range (truncate_rat q) then truncate_rat q else undef (Finite q))"
| "int64_of_float64 undef x = undef x"

section \<open>Rounding to nearest\<close>

lemma pow2_pos [simp]: "0 < pow2 e" "pow2 e \<noteq> 0" "0 \<le> pow2 e"
  by (simp_all add: pow2_def)

lemma pow2_Suc: "pow2 (e + 1) = 2 * pow2 e"
proof -
  consider "e \<ge> 0" | "e = -1" | "e < -1" by linarith
  then show ?thesis
  proof cases
    case 1
    then show ?thesis by (simp add: pow2_def nat_add_distrib)
  next
    case 3
    then have "nat (- e) = Suc (nat (- (e + 1)))" by linarith
    with 3 show ?thesis by (simp add: pow2_def)
  qed (simp add: pow2_def)
qed

lemma pow2_add_nat: "pow2 (e + int n) = 2 ^ n * pow2 e"
proof (induction n)
  case (Suc n)
  then show ?case using pow2_Suc [of "e + int n"] by (simp add: algebra_simps)
qed simp

lemma pow2_mono: "e \<le> f \<Longrightarrow> pow2 e \<le> pow2 f"
proof -
  assume "e \<le> f"
  then have "pow2 f = 2 ^ nat (f - e) * pow2 e" using pow2_add_nat [of e "nat (f - e)"] by simp
  moreover have "1 * pow2 e \<le> 2 ^ nat (f - e) * pow2 e" by (intro mult_right_mono) simp_all
  ultimately show ?thesis by simp
qed

lemma pow2_less: "e < f \<Longrightarrow> pow2 e < pow2 f"
  using pow2_Suc [of e] pow2_mono [of "e + 1" f] pow2_pos(1) [of e] by linarith

lemma pow2_int: "pow2 (int n) = 2 ^ n"
  by (simp add: pow2_def)

lemma pow2_diff: "pow2 (int n - int m) = 2 ^ n / 2 ^ m"
  using pow2_add_nat [of "int n - int m" m] by (simp add: pow2_int field_simps)

lemma exponent_bounds:
  assumes "q > 0"
  shows "pow2 (exponent q) \<le> q \<and> q < pow2 (exponent q + 1)"
proof -
  obtain n d where nd: "quotient_of q = (n, d)" by fastforce
  have d: "d > 0" and q: "q = of_int n / of_int d"
    using quotient_of_denom_pos [OF nd] quotient_of_div [OF nd] by auto
  with assms have n: "n > 0" by (simp add: zero_less_divide_iff)
  define a b where "a = nat (bitlen n - 1)" and "b = nat (bitlen d - 1)"
  have "bitlen n > 0" "bitlen d > 0"
    using n d bitlen_eq_zero_iff [of n] bitlen_eq_zero_iff [of d] bitlen_nonneg [of n] bitlen_nonneg [of d] by linarith+
  then have ab: "bitlen n - bitlen d = int a - int b" "nat (bitlen n) = Suc a" "nat (bitlen d) = Suc b"
    by (auto simp: a_def b_def)
  have "2 ^ a \<le> n" "n < 2 ^ Suc a" "2 ^ b \<le> d" "d < 2 ^ Suc b"
    using bitlen_bounds [OF n] bitlen_bounds [OF d] unfolding ab a_def [symmetric] b_def [symmetric] by simp_all
  then have "(of_int (2 ^ a) :: rat) \<le> of_int n" "of_int n < (of_int (2 ^ Suc a) :: rat)"
    "(of_int (2 ^ b) :: rat) \<le> of_int d" "of_int d < (of_int (2 ^ Suc b) :: rat)"
    by (simp_all only: of_int_le_iff of_int_less_iff)
  then have nb: "(2::rat) ^ a \<le> of_int n" "of_int n < (2::rat) ^ Suc a"
    "(2::rat) ^ b \<le> of_int d" "of_int d < (2::rat) ^ Suc b"
    by simp_all
  have "2 ^ a / 2 ^ Suc b \<le> q"
    unfolding q using nb n d by (intro frac_le) auto
  moreover have "q < 2 ^ Suc a / 2 ^ b"
    unfolding q using nb n d by (intro frac_less) auto
  ultimately have "pow2 (int a - int b - 1) \<le> q" "q < pow2 (int a - int b + 1)"
    using pow2_diff [of a "Suc b"] pow2_diff [of "Suc a" b] by (simp_all add: algebra_simps)
  then show ?thesis unfolding exponent_def nd by (auto simp: Let_def ab)
qed

lemma exponent_unique:
  assumes "pow2 e \<le> q" "q < pow2 (e + 1)"
  shows "exponent q = e"
proof -
  have "q > 0" using assms(1) pow2_pos(1) [of e] by linarith
  from exponent_bounds [OF this] assms have "pow2 e < pow2 (exponent q + 1)" "pow2 (exponent q) < pow2 (e + 1)"
    by linarith+
  then have "\<not> exponent q + 1 \<le> e" "\<not> e + 1 \<le> exponent q" using pow2_mono by (meson not_le)+
  then show ?thesis by linarith
qed

lemma exponent_mono: "0 < q \<Longrightarrow> q \<le> r \<Longrightarrow> exponent q \<le> exponent r"
  using exponent_bounds [of q] exponent_bounds [of r] pow2_mono [of "exponent r + 1" "exponent q"] by force

lemma round_half_even_int [simp]: "round_half_even (of_int n) = n"
  by (simp add: round_half_even_def)

lemma round_half_even_mono:
  assumes "q \<le> r"
  shows "round_half_even q \<le> round_half_even r"
proof (cases "\<lfloor>q\<rfloor> = \<lfloor>r\<rfloor>")
  case True
  then show ?thesis using assms by (auto simp: round_half_even_def Let_def)
next
  case False
  then have "\<lfloor>q\<rfloor> + 1 \<le> \<lfloor>r\<rfloor>" using floor_mono [OF assms] by linarith
  then show ?thesis by (auto simp: round_half_even_def Let_def)
qed

text \<open>The grid of doubles around a number, and rounding as rounding on it.\<close>

definition grid :: "rat \<Rightarrow> int" where
  "grid q = max (exponent q - 52) (-1074)"

definition on_grid :: "int \<Rightarrow> rat \<Rightarrow> bool" where
  "on_grid g v \<longleftrightarrow> (\<exists>m. v = of_int m * pow2 g)"

lemma ulp_grid: "ulp q = pow2 (grid q)"
  by (simp add: ulp_def grid_def)

lemma round_pos_on_grid: "on_grid (grid q) (round_pos q)"
  by (auto simp: on_grid_def round_pos_def ulp_grid intro: exI [of _ 0])

lemma on_grid_finer: "on_grid g v \<Longrightarrow> h \<le> g \<Longrightarrow> on_grid h v"
proof -
  assume "on_grid g v" "h \<le> g"
  then obtain m where "v = of_int m * pow2 g" by (auto simp: on_grid_def)
  also have "pow2 g = 2 ^ nat (g - h) * pow2 h" using pow2_add_nat [of h "nat (g - h)"] \<open>h \<le> g\<close> by simp
  finally have "v = of_int (m * 2 ^ nat (g - h)) * pow2 h" by simp
  then show ?thesis unfolding on_grid_def by blast
qed

lemma on_grid_pow2: "g \<le> e \<Longrightarrow> on_grid g (pow2 e)"
  by (rule on_grid_finer [of e]) (auto simp: on_grid_def intro: exI [of _ 1])

lemma round_pos_fixed:
  assumes "on_grid (grid v) v"
  shows "round_pos v = v"
proof -
  obtain m where m: "v = of_int m * pow2 (grid v)" using assms by (auto simp: on_grid_def)
  then have "v / ulp v = of_int m" by (simp add: ulp_grid divide_eq_eq)
  with m show ?thesis by (simp add: round_pos_def ulp_grid)
qed

lemma round_pos_le:
  assumes "0 < q" "q \<le> b" "on_grid (grid q) b"
  shows "round_pos q \<le> b"
proof -
  obtain m where m: "b = of_int m * pow2 (grid q)" using assms(3) by (auto simp: on_grid_def)
  then have "q / ulp q \<le> of_int m" using assms(2) by (simp add: ulp_grid divide_le_eq)
  from round_half_even_mono [OF this] assms(1) show ?thesis
    by (simp add: round_pos_def m ulp_grid)
qed

lemma round_pos_ge:
  assumes "0 < q" "b \<le> q" "on_grid (grid q) b"
  shows "b \<le> round_pos q"
proof -
  obtain m where m: "b = of_int m * pow2 (grid q)" using assms(3) by (auto simp: on_grid_def)
  then have "of_int m \<le> q / ulp q" using assms(2) by (simp add: ulp_grid le_divide_eq)
  from round_half_even_mono [OF this] assms(1) show ?thesis
    by (simp add: round_pos_def m ulp_grid)
qed

lemma round_pos_nonneg: "0 \<le> q \<Longrightarrow> 0 \<le> round_pos q"
  using round_pos_ge [of q 0] by (cases "q = 0") (auto simp: round_pos_def on_grid_def intro: exI [of _ 0])

text \<open>When one number lies on a coarser grid than another, a power of two separates them.\<close>

lemma grid_less:
  assumes "0 < q" "0 < r" "grid q < grid r"
  shows "q < pow2 (exponent r)" "on_grid (grid q) (pow2 (exponent r))" "on_grid (grid r) (pow2 (exponent r))"
proof -
  from assms(3) have e: "grid r = exponent r - 52" "exponent q + 1 \<le> exponent r" by (auto simp: grid_def max_def split: if_splits)
  show "q < pow2 (exponent r)"
    using exponent_bounds [OF assms(1)] pow2_mono [OF e(2)] by linarith
  show "on_grid (grid q) (pow2 (exponent r))" "on_grid (grid r) (pow2 (exponent r))"
    using assms(3) e(1) by (auto intro: on_grid_pow2)
qed

theorem round_pos_mono:
  assumes "0 \<le> q" "q \<le> r"
  shows "round_pos q \<le> round_pos r"
proof -
  consider "q = 0" | "0 < q" "grid q = grid r" | "0 < q" "grid q < grid r"
    using assms exponent_mono [of q r] by (fastforce simp: grid_def)
  then show ?thesis
  proof cases
    case 1
    then show ?thesis using assms round_pos_nonneg [of r] by (simp add: round_pos_def)
  next
    case 2
    then have "q / ulp q \<le> r / ulp r" using assms by (simp add: ulp_grid divide_right_mono)
    from round_half_even_mono [OF this] 2 assms show ?thesis by (auto simp: round_pos_def ulp_grid)
  next
    case 3
    with assms have r: "0 < r" by linarith
    note g = grid_less [OF 3(1) r 3(2)]
    have "round_pos q \<le> pow2 (exponent r)" using g 3(1) by (intro round_pos_le) auto
    also have "pow2 (exponent r) \<le> round_pos r" using exponent_bounds [OF r] g r by (intro round_pos_ge) auto
    finally show ?thesis .
  qed
qed

theorem round_pos_idem: 
  assumes "0 \<le> q"
  shows "round_pos (round_pos q) = round_pos q"
proof (cases "q = 0 \<or> round_pos q = 0")
  case False
  define v where "v = round_pos q"
  have q: "0 < q" and v: "0 < v" using False assms round_pos_nonneg [OF assms] by (auto simp: v_def)
  have "on_grid (grid v) v"
  proof (cases "grid v \<le> grid q")
    case True
    then show ?thesis using on_grid_finer [OF round_pos_on_grid] by (simp add: v_def)
  next
    case False
    then have "grid q < grid v" by simp
    note g = grid_less [OF q v this]
    have "v \<le> pow2 (exponent v)" unfolding v_def [symmetric] using round_pos_le [OF q _ g(2)] g(1) by (simp add: v_def)
    then have "v = pow2 (exponent v)" using exponent_bounds [OF v] by linarith
    with g(3) show ?thesis by simp
  qed
  then show ?thesis unfolding v_def by (rule round_pos_fixed)
qed (auto simp: round_pos_def)

lemma round_pos_int:
  assumes "0 \<le> n" "n \<le> 2 ^ 53"
  shows "round_pos (of_int n) = of_int n"
proof (cases "n = 0 \<or> n = 2 ^ 53")
  case True
  have "exponent (pow2 53) = 53" by (intro exponent_unique) (simp_all add: pow2_less)
  then have "on_grid (grid (pow2 53)) (pow2 53)" by (intro on_grid_pow2) (simp add: grid_def)
  then have "round_pos (pow2 53) = pow2 53" by (rule round_pos_fixed)
  moreover have "pow2 53 = of_int (2 ^ 53)" by (simp add: pow2_def)
  ultimately show ?thesis using True by (auto simp: round_pos_def)
next
  case False
  with assms have n: "0 < n" "n < 2 ^ 53" by auto
  then have "(of_int n :: rat) < of_int (2 ^ 53)" by (simp only: of_int_less_iff)
  then have lt: "(of_int n :: rat) < pow2 53" by (simp add: pow2_def)
  have "\<not> 53 \<le> exponent (of_int n)"
    using exponent_bounds [of "of_int n"] n(1) lt pow2_mono [of 53 "exponent (of_int n)"] by force
  then have "grid (of_int n) \<le> 0" by (simp add: grid_def)
  moreover have "on_grid 0 (of_int n)" by (auto simp: on_grid_def pow2_def)
  ultimately show ?thesis by (intro round_pos_fixed) (rule on_grid_finer)
qed

section \<open>Conversions\<close>

lemma round64_pos: "0 \<le> q \<Longrightarrow> round64 q = (if round_pos q \<ge> 2 ^ 1024 then Infinity False else Finite (round_pos q))"
  by (simp add: round64_def Let_def)

lemma exponent_ge: "0 < q \<Longrightarrow> e \<le> exponent q \<longleftrightarrow> pow2 e \<le> q"
  using exponent_bounds [of q] pow2_mono [of e "exponent q"] pow2_mono [of "exponent q + 1" e] by force

text \<open>Overflow is decided on exponents when a conversion is evaluated.\<close>

lemma round64_code [code]:
  "round64 q =
     (let m = round_pos \<bar>q\<bar> in
      if m \<noteq> 0 \<and> exponent m \<ge> 1024 then Infinity (q < 0) else Finite (if q < 0 then - m else m))"
proof -
  define m where "m = round_pos \<bar>q\<bar>"
  have "0 \<le> m" by (simp add: m_def round_pos_nonneg)
  then have "m \<ge> 2 ^ 1024 \<longleftrightarrow> m \<noteq> 0 \<and> exponent m \<ge> 1024"
    using exponent_ge [of m 1024] pow2_int [of 1024] by (cases "m = 0") simp_all
  then show ?thesis unfolding round64_def m_def [symmetric] Let_def by simp
qed

text \<open>A double below the double of an integer is, truncated, no larger than the integer.\<close>

lemma below_float64_of_int:
  assumes "0 \<le> x" "round64 x = Finite v" "0 \<le> n" "\<not> float64_le (float64_of_int n) (Finite v)"
  shows "truncate_rat v \<le> n"
proof (rule ccontr)
  assume "\<not> truncate_rat v \<le> n"
  moreover have v: "v = round_pos x" "round_pos x < 2 ^ 1024" using assms(1,2) by (auto simp: round64_pos split: if_splits)
  then have "0 \<le> v" using round_pos_nonneg [OF assms(1)] by simp
  ultimately have "n < \<lfloor>v\<rfloor>" by (simp add: truncate_rat_def)
  then have "of_int n \<le> v" by linarith
  then have "round_pos (of_int n) \<le> round_pos v" using assms(3) by (intro round_pos_mono) simp_all
  also have "round_pos v = v" unfolding v(1) by (rule round_pos_idem [OF assms(1)])
  finally have "round_pos (of_int n) \<le> v" .
  then show False using assms(3,4) v by (simp add: float64_of_int_def round64_pos split: if_splits)
qed

lemma float64_of_small_int: "0 \<le> n \<Longrightarrow> n \<le> 2 ^ 53 \<Longrightarrow> float64_of_int n = Finite (of_int n)"
proof -
  assume n: "0 \<le> n" "n \<le> 2 ^ 53"
  then have "(of_int n :: rat) \<le> of_int (2 ^ 53)" by (simp only: of_int_le_iff)
  also have "\<dots> < 2 ^ 1024" by simp
  finally show ?thesis using n by (simp add: float64_of_int_def round64_pos round_pos_int)
qed

end
