(* ===== verification/Retry.thy ===== *)
theory Retry
  imports Float64 Validate
begin

text \<open>
  Retry planning of \<open>core/go/workflow/workflow.go\<close>: a retry policy is checked once, before the
  first attempt, and turned into a plan; the interval after a failed attempt is a function of
  its ordinal and the plan alone. The argument \<open>conv\<close> is what the platform gives for a
  conversion of an unrepresentable double to \<open>int64\<close>.

  Shown here: an accepted plan has an interval for every attempt it can retry, positive and
  within its cap; intervals do not shrink under a coefficient of at least one; and the
  normalised policy stored in records stands for the plan exactly.
\<close>

section \<open>Definitions\<close>

definition asDuration :: "'m wkt_scheme \<Rightarrow> Duration option \<Rightarrow> duration" where
  "asDuration W d = (case d of None \<Rightarrow> 0 | Some x \<Rightarrow> Duration_AsDuration W x)"

definition MaximumRetryAttempts :: nat where
  "MaximumRetryAttempts = 100"

definition UserPanicErrorCode :: string where
  "UserPanicErrorCode = ''temporaless.user_panic''"

record retryPlan =
  maxAttempts :: nat
  initialInterval :: duration
  backoffCoefficient :: float64
  maximumInterval :: duration
  durableThreshold :: duration
  nonRetryable :: "string \<rightharpoonup> bool"

definition nextInterval :: "(float64 \<Rightarrow> int) \<Rightarrow> duration \<Rightarrow> retryPlan \<Rightarrow> duration result" where
  "nextInterval conv prev plan =
     (let nextNanos = float64_mult (float64_of_int prev) (backoffCoefficient plan) in
      if maximumInterval plan > 0 \<and> float64_le (float64_of_int (maximumInterval plan)) nextNanos
      then Inr (maximumInterval plan)
      else if IsNaN nextNanos \<or> IsInf nextNanos \<or> float64_less (float64_of_int (2 ^ 63 - 1)) nextNanos
      then Inl (Plain ''retry policy produced an out-of-range backoff interval'')
      else let next = int64_of_float64 conv nextNanos in
      if prev > 0 \<and> next \<le> 0
      then Inl (Plain ''retry policy produced a non-positive backoff interval'')
      else Inr next)"

text \<open>The loop of \<open>validateRetrySchedule\<close>, over the ordinals of the failed attempts.\<close>

fun validateRetrySchedule_loop ::
  "(float64 \<Rightarrow> int) \<Rightarrow> retryPlan \<Rightarrow> duration \<Rightarrow> nat list \<Rightarrow> unit result" where
  "validateRetrySchedule_loop conv plan interval [] = Inr ()"
| "validateRetrySchedule_loop conv plan interval (failedAttempt # rest) =
     (if failedAttempt + 1 \<ge> maxAttempts plan
      then validateRetrySchedule_loop conv plan interval rest
      else case nextInterval conv interval plan of
        Inl err \<Rightarrow> Inl (Wrapped ''retry policy interval after attempt is invalid'' [err])
      | Inr next \<Rightarrow> validateRetrySchedule_loop conv plan next rest)"

definition validateRetrySchedule :: "(float64 \<Rightarrow> int) \<Rightarrow> retryPlan \<Rightarrow> unit result" where
  "validateRetrySchedule conv plan =
     validateRetrySchedule_loop conv plan (initialInterval plan) [1..<maxAttempts plan]"

definition retryPolicyDuration :: "'m wkt_scheme \<Rightarrow> Duration option \<Rightarrow> duration result" where
  "retryPolicyDuration W value =
     (case value of
        None \<Rightarrow> Inr 0
      | Some d \<Rightarrow>
          if \<not> Duration_CheckValid W d then Inl (Wrapped ''retry policy is invalid'' [Plain ''invalid duration''])
          else let duration = Duration_AsDuration W d in
          if d \<noteq> Duration_New W duration
          then Inl (Plain ''retry policy is outside Go time.Duration range'')
          else Inr duration)"

text \<open>The checks of \<open>planRetries\<close> between reading the durations and the schedule.\<close>

definition checkPlan :: "retryPlan \<Rightarrow> retryPlan result" where
  "checkPlan plan0 =
     (if maxAttempts plan0 = 0 then Inl (Plain ''retry policy maximum_attempts must be > 0'')
      else if maxAttempts plan0 > MaximumRetryAttempts
      then Inl (Plain ''retry policy maximum_attempts exceeds the supported maximum'')
      else if initialInterval plan0 < 0 then Inl (Plain ''retry policy initial_interval must be >= 0'')
      else if maxAttempts plan0 > 1 \<and> initialInterval plan0 \<le> 0
      then Inl (Plain ''retry policy initial_interval must be > 0 when maximum_attempts > 1'')
      else let plan = (if backoffCoefficient plan0 = Finite 0
                       then plan0\<lparr>backoffCoefficient := Finite 1\<rparr> else plan0) in
      if IsNaN (backoffCoefficient plan) \<or> IsInf (backoffCoefficient plan) \<or>
         float64_le (backoffCoefficient plan) (Finite 0)
      then Inl (Plain ''retry policy backoff_coefficient must be finite and > 0'')
      else if maximumInterval plan < 0 then Inl (Plain ''retry policy maximum_interval must be >= 0'')
      else if maximumInterval plan > 0 \<and> initialInterval plan > maximumInterval plan
      then Inl (Plain ''retry policy maximum_interval must be >= initial_interval'')
      else if durableThreshold plan < 0
      then Inl (Plain ''retry policy durable_backoff_threshold must be >= 0'')
      else Inr plan)"

definition planRetries ::
  "'m wkt_scheme \<Rightarrow> (float64 \<Rightarrow> int) \<Rightarrow> RetryPolicy option \<Rightarrow> retryPlan result" where
  "planRetries W conv policy =
     (case policy of
        None \<Rightarrow> Inr \<lparr>maxAttempts = 1, initialInterval = 0, backoffCoefficient = Finite 1,
                  maximumInterval = 0, durableThreshold = 0, nonRetryable = Map.empty\<rparr>
      | Some p \<Rightarrow>
     (case retryPolicyDuration W (rp_InitialInterval p) of Inl err \<Rightarrow> Inl err | Inr initial \<Rightarrow>
     (case retryPolicyDuration W (rp_MaximumInterval p) of Inl err \<Rightarrow> Inl err | Inr maximum \<Rightarrow>
     (case retryPolicyDuration W (rp_DurableBackoffThreshold p) of Inl err \<Rightarrow> Inl err | Inr threshold \<Rightarrow>
     (case checkPlan \<lparr>maxAttempts = rp_MaximumAttempts p, initialInterval = initial,
             backoffCoefficient = rp_BackoffCoefficient p, maximumInterval = maximum,
             durableThreshold = threshold, nonRetryable = Map.empty\<rparr> of
        Inl err \<Rightarrow> Inl err
      | Inr plan \<Rightarrow>
     (case validateRetrySchedule conv plan of Inl err \<Rightarrow> Inl err | Inr _ \<Rightarrow>
        Inr (plan\<lparr>nonRetryable :=
          foldl (\<lambda>codes code. codes(code \<mapsto> True)) Map.empty (rp_NonRetryableErrorCodes p)\<rparr>)))))))"

definition uniqueCodes :: "string list \<Rightarrow> string list" where
  "uniqueCodes codes =
     foldl (\<lambda>unique code. if unique = [] \<or> code \<noteq> last unique then unique @ [code] else unique) [] (sort codes)"

definition normalizeRetryPolicy ::
  "'m wkt_scheme \<Rightarrow> RetryPolicy option \<Rightarrow> retryPlan \<Rightarrow> RetryPolicy option" where
  "normalizeRetryPolicy W policy plan =
     map_option (\<lambda>p. \<lparr>
       rp_InitialInterval =
         (if initialInterval plan \<noteq> 0 then Some (Duration_New W (initialInterval plan)) else None),
       rp_BackoffCoefficient = backoffCoefficient plan,
       rp_MaximumInterval =
         (if maximumInterval plan \<noteq> 0 then Some (Duration_New W (maximumInterval plan)) else None),
       rp_MaximumAttempts = maxAttempts plan,
       rp_NonRetryableErrorCodes = uniqueCodes (rp_NonRetryableErrorCodes p),
       rp_DurableBackoffThreshold =
         (if durableThreshold plan \<noteq> 0 then Some (Duration_New W (durableThreshold plan)) else None)\<rparr>) policy"

fun retryInterval_loop ::
  "(float64 \<Rightarrow> int) \<Rightarrow> retryPlan \<Rightarrow> duration \<Rightarrow> nat \<Rightarrow> duration result" where
  "retryInterval_loop conv plan interval 0 = Inr interval"
| "retryInterval_loop conv plan interval (Suc n) =
     (case nextInterval conv interval plan of
        Inl err \<Rightarrow> Inl err
      | Inr next \<Rightarrow> retryInterval_loop conv plan next n)"

definition retryIntervalAfterAttempt ::
  "(float64 \<Rightarrow> int) \<Rightarrow> nat \<Rightarrow> retryPlan \<Rightarrow> duration result" where
  "retryIntervalAfterAttempt conv ordinal plan =
     (if ordinal = 0 then Inl (Plain ''retry attempt ordinal must be > 0'')
      else retryInterval_loop conv plan (initialInterval plan) (ordinal - 1))"

definition isNonRetryable :: "retryPlan \<Rightarrow> string \<Rightarrow> bool" where
  "isNonRetryable plan code = (nonRetryable plan code = Some True)"

definition activityConflict :: "string \<Rightarrow> go_error" where
  "activityConflict t = Wrapped t [Sentinel ErrActivityConflict]"

text \<open>The loop of \<open>assertRetryingActivity\<close> over the recorded attempts, from index \<open>i\<close>.\<close>

fun assertAttempts :: "'m wkt_scheme \<Rightarrow> nat \<Rightarrow> ActivityAttempt list \<Rightarrow> unit result" where
  "assertAttempts W i [] = Inr ()"
| "assertAttempts W i (a # rest) =
     (if aa_Attempt a \<noteq> i + 1
      then Inl (activityConflict ''RETRYING activity attempt is missing or out of sequence'')
      else case aa_Failure a of
        None \<Rightarrow> Inl (activityConflict ''RETRYING activity attempt has no failure'')
      | Some failure \<Rightarrow>
     (case retryPolicyDuration W (af_RetryAfter failure) of
        Inl err \<Rightarrow> Inl (Wrapped [] [Sentinel ErrActivityConflict, err])
      | Inr retryAfter \<Rightarrow>
          if retryAfter < 0 then Inl (activityConflict ''RETRYING activity attempt has negative retry_after'')
          else assertAttempts W (i + 1) rest))"

definition assertRetryingActivity ::
  "'m wkt_scheme \<Rightarrow> (float64 \<Rightarrow> int) \<Rightarrow> ActivityRecord \<Rightarrow> RetryPolicy option \<Rightarrow> string \<Rightarrow> retryPlan \<Rightarrow>
   unit result" where
  "assertRetryingActivity W conv record normalizedPolicy retryTimerID plan =
     (let attempts = ar_Attempts record in
      if ar_RetryPolicy record \<noteq> normalizedPolicy
      then Inl (activityConflict ''retry policy changed while activity is RETRYING'')
      else if attempts = [] then Inl (activityConflict ''RETRYING activity has no attempts'')
      else if length attempts \<ge> maxAttempts plan
      then Inl (activityConflict ''RETRYING activity has too many attempts under its policy'')
      else
     (case assertAttempts W 0 attempts of Inl err \<Rightarrow> Inl err | Inr _ \<Rightarrow>
      let lastAttempt = last attempts; lastFailure = aa_Failure lastAttempt in
      if ar_Failure record = None \<or> ar_Failure record \<noteq> lastFailure
      then Inl (activityConflict ''RETRYING activity failure does not match its last attempt'')
      else if map_option af_Code lastFailure = Some UserPanicErrorCode
      then Inl (activityConflict ''RETRYING activity ends with the reserved user-panic failure code'')
      else if isNonRetryable plan (case lastFailure of None \<Rightarrow> [] | Some f \<Rightarrow> af_Code f)
      then Inl (activityConflict ''RETRYING activity last failure code is non-retryable'')
      else
     (case retryIntervalAfterAttempt conv (aa_Attempt lastAttempt) plan of
        Inl intervalErr \<Rightarrow> Inl (Wrapped ''reconstruct RETRYING activity interval'' [Sentinel ErrActivityConflict, intervalErr])
      | Inr policyInterval \<Rightarrow>
          let effectiveInterval =
                max policyInterval (asDuration W (Option.bind lastFailure af_RetryAfter));
              durableExpected = (durableThreshold plan > 0 \<and> effectiveInterval \<ge> durableThreshold plan) in
          if durableExpected \<and> ar_NextAttemptAt record = None
          then Inl (activityConflict ''RETRYING activity interval requires next_attempt_at and a durable retry timer'')
          else if \<not> durableExpected \<and> ar_NextAttemptAt record \<noteq> None
          then Inl (activityConflict ''RETRYING activity has next_attempt_at for non-durable interval'')
          else if ar_RetryTimerId record \<noteq> retryTimerID
          then Inl (activityConflict ''retry timer ID changed while activity is RETRYING'')
          else if ar_NextAttemptAt record \<noteq> None \<and> \<not> checkValid W (ar_NextAttemptAt record)
          then Inl (Wrapped ''RETRYING activity next_attempt_at is invalid'' [Sentinel ErrActivityConflict, Plain ''invalid timestamp''])
          else Inr ())))"

section \<open>Bounds of the schedule\<close>

text \<open>What \<open>planRetries\<close> checks of a plan, apart from the schedule itself.\<close>

definition plan_ok :: "retryPlan \<Rightarrow> bool" where
  "plan_ok plan \<longleftrightarrow> 0 < maxAttempts plan \<and> maxAttempts plan \<le> MaximumRetryAttempts \<and>
     0 \<le> initialInterval plan \<and> (maxAttempts plan > 1 \<longrightarrow> 0 < initialInterval plan) \<and>
     (\<exists>c > 0. backoffCoefficient plan = Finite c) \<and> 0 \<le> maximumInterval plan \<and>
     (0 < maximumInterval plan \<longrightarrow> initialInterval plan \<le> maximumInterval plan) \<and>
     0 \<le> durableThreshold plan \<and>
     int64_range (initialInterval plan) \<and> int64_range (maximumInterval plan) \<and> int64_range (durableThreshold plan)"

definition within_cap :: "retryPlan \<Rightarrow> duration \<Rightarrow> bool" where
  "within_cap plan d \<longleftrightarrow> 0 < d \<and> d < 2 ^ 63 \<and> (0 < maximumInterval plan \<longrightarrow> d \<le> maximumInterval plan)"

lemma nextInterval_within_cap:
  assumes "plan_ok plan" and "\<And>x. int64_range (conv x)" and "0 < prev"
    and "nextInterval conv prev plan = Inr d"
  shows "within_cap plan d"
proof -
  obtain c where c: "c > 0" "backoffCoefficient plan = Finite c" and max: "int64_range (maximumInterval plan)"
    using assms(1) by (auto simp: plan_ok_def)
  define nextNanos where "nextNanos = float64_mult (float64_of_int prev) (Finite c)"
  consider (cap) "0 < maximumInterval plan" "d = maximumInterval plan"
    | (step) v where "nextNanos = Finite v" "0 < maximumInterval plan \<Longrightarrow> \<not> float64_le (float64_of_int (maximumInterval plan)) (Finite v)"
        "d = int64_of_float64 conv (Finite v)" "0 < d"
    using assms(3,4) unfolding nextInterval_def c(2) nextNanos_def [symmetric]
    by (cases nextNanos) (auto simp: Let_def simp del: int64_of_float64.simps split: if_splits)
  then show ?thesis
  proof cases
    case cap
    then show ?thesis using max by (simp add: within_cap_def int64_range_def)
  next
    case step
    obtain p where p: "float64_of_int prev = Finite p" and x: "round64 (p * c) = Finite v"
      using step(1) c(1) by (cases "float64_of_int prev") (auto simp: nextNanos_def)
    have "0 \<le> p" using p assms(3) round_pos_nonneg [of "of_int prev"]
      by (auto simp: float64_of_int_def round64_pos split: if_splits)
    then have pos: "0 \<le> p * c" using c(1) by simp
    have d: "int64_range d" using step(3) assms(2) by (auto split: if_splits)
    moreover have "d \<le> maximumInterval plan" if m: "0 < maximumInterval plan"
    proof -
      from below_float64_of_int [OF pos x _ step(2) [OF m]] m have "truncate_rat v \<le> maximumInterval plan" by simp
      moreover have "0 \<le> truncate_rat v"
        using x pos round_pos_nonneg [OF pos] by (auto simp: round64_pos truncate_rat_def split: if_splits)
      ultimately have "int64_range (truncate_rat v)" using max by (auto simp: int64_range_def)
      then show ?thesis using step(3) \<open>truncate_rat v \<le> maximumInterval plan\<close> by simp
    qed
    ultimately show ?thesis using step(4) by (simp add: within_cap_def int64_range_def)
  qed
qed

lemma checkPlan_ok:
  assumes "checkPlan p = Inr plan" and "int64_range (initialInterval p)" "int64_range (maximumInterval p)"
    "int64_range (durableThreshold p)"
  shows "plan_ok plan"
proof -
  have "\<exists>c > 0. backoffCoefficient plan = Finite c"
    using assms(1) by (cases "backoffCoefficient plan") (auto simp: checkPlan_def Let_def split: if_splits)
  with assms show ?thesis by (auto simp: checkPlan_def plan_ok_def Let_def split: if_splits)
qed

lemma retryInterval_loop_within_cap:
  assumes "plan_ok plan" and "\<And>x. int64_range (conv x)"
  shows "within_cap plan prev \<Longrightarrow> retryInterval_loop conv plan prev n = Inr d \<Longrightarrow> within_cap plan d"
proof (induction n arbitrary: prev)
  case (Suc n)
  then obtain next' where n: "nextInterval conv prev plan = Inr next'" "retryInterval_loop conv plan next' n = Inr d"
    by (auto split: sum.splits)
  have "within_cap plan next'"
    using nextInterval_within_cap [OF assms _ n(1)] Suc.prems(1) by (simp add: within_cap_def)
  then show ?case using Suc.IH n(2) by blast
qed simp

text \<open>The schedule check runs the very computation that the intervals of an execution use.\<close>

lemma validateRetrySchedule_loop_ok:
  assumes "validateRetrySchedule_loop conv plan prev [a..<maxAttempts plan] = Inr ()"
  shows "a + n < maxAttempts plan \<Longrightarrow> \<exists>d. retryInterval_loop conv plan prev n = Inr d"
  using assms
proof (induction n arbitrary: a prev)
  case (Suc n)
  then have "a < maxAttempts plan" by simp
  with Suc.prems obtain next' where n: "nextInterval conv prev plan = Inr next'"
    "validateRetrySchedule_loop conv plan next' [Suc a..<maxAttempts plan] = Inr ()"
    by (auto simp: upt_conv_Cons split: sum.splits)
  show ?case using Suc.IH [OF _ n(2)] Suc.prems(1) n(1) by simp
qed simp

lemma int64_range_0: "int64_range 0"
  by (simp add: int64_range_def)

lemma nextInterval_codes [simp]: "nextInterval conv prev (p\<lparr>nonRetryable := m\<rparr>) = nextInterval conv prev p"
  by (simp add: nextInterval_def cong: if_cong)

lemma validateRetrySchedule_codes [simp]:
  "validateRetrySchedule conv (p\<lparr>nonRetryable := m\<rparr>) = validateRetrySchedule conv p"
proof -
  have "validateRetrySchedule_loop conv (p\<lparr>nonRetryable := m\<rparr>) i xs = validateRetrySchedule_loop conv p i xs" for i xs
    by (induction xs arbitrary: i) (simp_all split: sum.splits)
  then show ?thesis by (simp add: validateRetrySchedule_def)
qed

lemma checkPlan_fixed: "plan_ok plan \<Longrightarrow> checkPlan plan = Inr plan"
  by (auto simp: checkPlan_def plan_ok_def Let_def)

lemma checkPlan_codes: "checkPlan p = Inr plan \<Longrightarrow> nonRetryable plan = nonRetryable p"
  by (auto simp: checkPlan_def Let_def split: if_splits)

lemma plan_ok_codes [simp]: "plan_ok (plan\<lparr>nonRetryable := m\<rparr>) = plan_ok plan"
  by (simp add: plan_ok_def)

lemma codes_map:
  "foldl (\<lambda>codes code. codes(code \<mapsto> True)) m cs = (\<lambda>c. if c \<in> set cs then Some True else m c)"
  by (induction cs arbitrary: m) auto

lemma uniqueCodes_sorted: "uniqueCodes cs = sorted_list_of_set (set cs)"
proof -
  have "sorted (us @ xs) \<and> sorted_wrt (<) us \<Longrightarrow>
      sorted_wrt (<) (foldl (\<lambda>unique code. if unique = [] \<or> code \<noteq> last unique then unique @ [code] else unique) us xs) \<and>
      set (foldl (\<lambda>unique code. if unique = [] \<or> code \<noteq> last unique then unique @ [code] else unique) us xs) = set us \<union> set xs"
    for us xs :: "string list"
  proof (induction xs arbitrary: us)
    case (Cons x xs)
    show ?case
    proof (cases "us = [] \<or> x \<noteq> last us")
      case True
      have "u < x" if u: "u \<in> set us" for u
      proof -
        obtain vs l where us: "us = vs @ [l]" using u by (cases us rule: rev_cases) auto
        then have "l \<le> x" "x \<noteq> l" "u = l \<or> u < l"
          using Cons.prems True u by (auto simp: sorted_append sorted_wrt_append)
        then show ?thesis by force
      qed
      then have "sorted_wrt (<) (us @ [x])" using Cons.prems by (simp add: sorted_wrt_append)
      then show ?thesis using Cons.IH [of "us @ [x]"] Cons.prems True by simp
    next
      case False
      then have "x \<in> set us" "sorted (us @ xs)" using Cons.prems by (auto simp: sorted_append)
      then show ?thesis using Cons.IH [of us] Cons.prems False by auto
    qed
  qed simp
  from this [of "[]" "sort cs"] have "sorted_wrt (<) (uniqueCodes cs)" "set (uniqueCodes cs) = set cs"
    by (simp_all add: uniqueCodes_def)
  then show ?thesis
    by (metis sorted_list_of_set.idem_if_sorted_distinct strict_sorted_iff)
qed

context well_known_types
begin

lemma retryPolicyDuration_ok:
  assumes "retryPolicyDuration W v = Inr d"
  shows "int64_range d"
proof (cases v)
  case (Some x)
  then have "d = Duration_AsDuration W x" using assms by (simp add: retryPolicyDuration_def Let_def split: if_splits)
  then show ?thesis by (simp only: duration_AsDuration_range)
qed (use assms in \<open>simp add: retryPolicyDuration_def int64_range_0\<close>)

lemma retryPolicyDuration_New [simp]:
  "int64_range d \<Longrightarrow> retryPolicyDuration W (if d \<noteq> 0 then Some (Duration_New W d) else None) = Inr d"
  by (simp add: retryPolicyDuration_def)

lemma planRetries_Some:
  "planRetries W conv (Some p) = Inr plan \<longleftrightarrow>
     (\<exists>initial maximum threshold plan0.
        retryPolicyDuration W (rp_InitialInterval p) = Inr initial \<and>
        retryPolicyDuration W (rp_MaximumInterval p) = Inr maximum \<and>
        retryPolicyDuration W (rp_DurableBackoffThreshold p) = Inr threshold \<and>
        checkPlan \<lparr>maxAttempts = rp_MaximumAttempts p, initialInterval = initial,
             backoffCoefficient = rp_BackoffCoefficient p, maximumInterval = maximum,
             durableThreshold = threshold, nonRetryable = Map.empty\<rparr> = Inr plan0 \<and>
        validateRetrySchedule conv plan0 = Inr () \<and>
        plan = plan0\<lparr>nonRetryable := foldl (\<lambda>codes code. codes(code \<mapsto> True)) Map.empty (rp_NonRetryableErrorCodes p)\<rparr>)"
  by (auto simp: planRetries_def split: sum.splits)

lemma planRetries_ok:
  assumes "planRetries W conv policy = Inr plan"
  shows "plan_ok plan" "validateRetrySchedule conv plan = Inr ()"
proof -
  have "plan_ok plan \<and> validateRetrySchedule conv plan = Inr ()"
  proof (cases policy)
    case None
    then show ?thesis using assms
      by (auto simp: planRetries_def plan_ok_def validateRetrySchedule_def MaximumRetryAttempts_def int64_range_0)
  next
    case (Some p)
    with assms obtain initial maximum threshold plan0 where
      d: "retryPolicyDuration W (rp_InitialInterval p) = Inr initial"
        "retryPolicyDuration W (rp_MaximumInterval p) = Inr maximum"
        "retryPolicyDuration W (rp_DurableBackoffThreshold p) = Inr threshold"
      and c: "checkPlan \<lparr>maxAttempts = rp_MaximumAttempts p, initialInterval = initial,
             backoffCoefficient = rp_BackoffCoefficient p, maximumInterval = maximum,
             durableThreshold = threshold, nonRetryable = Map.empty\<rparr> = Inr plan0"
      and p: "validateRetrySchedule conv plan0 = Inr ()"
        "plan = plan0\<lparr>nonRetryable := foldl (\<lambda>codes code. codes(code \<mapsto> True)) Map.empty (rp_NonRetryableErrorCodes p)\<rparr>"
      by (auto simp: planRetries_Some)
    have "plan_ok plan0" by (rule checkPlan_ok [OF c]) (simp_all add: retryPolicyDuration_ok [OF d(1)]
        retryPolicyDuration_ok [OF d(2)] retryPolicyDuration_ok [OF d(3)])
    with p show ?thesis by simp
  qed
  then show "plan_ok plan" "validateRetrySchedule conv plan = Inr ()" by simp_all
qed

lemma normalize_plan:
  assumes "planRetries W conv (Some p) = Inr plan"
  shows "planRetries W conv (normalizeRetryPolicy W (Some p) plan) = Inr plan"
    and "nonRetryable plan = (\<lambda>c. if c \<in> set (rp_NonRetryableErrorCodes p) then Some True else None)"
proof -
  note ok = planRetries_ok [OF assms]
  obtain plan0 where p0: "nonRetryable plan0 = Map.empty"
    "plan = plan0\<lparr>nonRetryable := foldl (\<lambda>codes code. codes(code \<mapsto> True)) Map.empty (rp_NonRetryableErrorCodes p)\<rparr>"
    using assms by (auto simp: planRetries_Some dest: checkPlan_codes)
  then show codes: "nonRetryable plan = (\<lambda>c. if c \<in> set (rp_NonRetryableErrorCodes p) then Some True else None)"
    by (simp add: codes_map)
  define plan1 where "plan1 = plan\<lparr>nonRetryable := Map.empty\<rparr>"
  have "checkPlan plan1 = Inr plan1" "validateRetrySchedule conv plan1 = Inr ()"
    using ok by (simp_all add: plan1_def checkPlan_fixed)
  moreover have "int64_range (initialInterval plan)" "int64_range (maximumInterval plan)" "int64_range (durableThreshold plan)"
    using ok(1) by (simp_all add: plan_ok_def)
  moreover have "plan1 = \<lparr>maxAttempts = maxAttempts plan, initialInterval = initialInterval plan,
      backoffCoefficient = backoffCoefficient plan, maximumInterval = maximumInterval plan,
      durableThreshold = durableThreshold plan, nonRetryable = Map.empty\<rparr>" by (simp add: plan1_def)
  ultimately show "planRetries W conv (normalizeRetryPolicy W (Some p) plan) = Inr plan"
    by (simp add: normalizeRetryPolicy_def planRetries_def uniqueCodes_sorted codes_map codes)
qed

lemma normalize_eq:
  assumes "planRetries W conv (Some p) = Inr plan" "planRetries W conv (Some q) = Inr plan'"
    and "normalizeRetryPolicy W (Some p) plan = normalizeRetryPolicy W (Some q) plan'"
  shows "plan = plan'"
  using normalize_plan(1) [OF assms(1)] normalize_plan(1) [OF assms(2)] assms(3) by simp

lemma normalize_cong:
  assumes "planRetries W conv (Some p) = Inr plan" "planRetries W conv (Some q) = Inr plan"
  shows "normalizeRetryPolicy W (Some p) plan = normalizeRetryPolicy W (Some q) plan"
proof -
  have "(\<lambda>c. if c \<in> set (rp_NonRetryableErrorCodes p) then Some True else None) =
      (\<lambda>c. if c \<in> set (rp_NonRetryableErrorCodes q) then Some True else None)"
    using normalize_plan(2) [OF assms(1)] normalize_plan(2) [OF assms(2)] by simp
  then have "set (rp_NonRetryableErrorCodes p) = set (rp_NonRetryableErrorCodes q)"
    by (auto simp: fun_eq_iff split: if_splits)
  then show ?thesis by (simp add: normalizeRetryPolicy_def uniqueCodes_sorted)
qed

lemma normalize_idem:
  "normalizeRetryPolicy W (normalizeRetryPolicy W p plan) plan = normalizeRetryPolicy W p plan"
  by (cases p) (simp_all add: normalizeRetryPolicy_def uniqueCodes_sorted)

end

section \<open>Growth of the schedule\<close>

lemma nextInterval_grows:
  assumes "backoffCoefficient plan = Finite c" "1 \<le> c" and "0 < maximumInterval plan" "maximumInterval plan \<le> 2 ^ 53"
    and "0 < prev" "prev \<le> maximumInterval plan" and "nextInterval conv prev plan = Inr d"
  shows "prev \<le> d"
proof -
  have fl: "float64_of_int prev = Finite (of_int prev)"
    "float64_of_int (maximumInterval plan) = Finite (of_int (maximumInterval plan))"
    using assms by (auto intro!: float64_of_small_int)
  define v where "v = round_pos (of_int prev * c)"
  have "round_pos (of_int prev) \<le> v"
    unfolding v_def using assms by (intro round_pos_mono) simp_all
  then have v: "of_int prev \<le> v" using assms by (simp add: round_pos_int)
  consider (cap) "d = maximumInterval plan"
    | (step) "v < of_int (maximumInterval plan)" "d = int64_of_float64 conv (Finite v)"
    using assms(1-3,5,7)
    by (auto simp: nextInterval_def Let_def fl round64_pos v_def [symmetric] simp del: int64_of_float64.simps split: if_splits)
  then show ?thesis
  proof cases
    case step
    have fl: "prev \<le> \<lfloor>v\<rfloor>" "\<lfloor>v\<rfloor> \<le> maximumInterval plan" using v step(1) by linarith+
    have "(2::int) ^ 53 < 2 ^ 63" by simp
    then have "0 \<le> \<lfloor>v\<rfloor>" "\<lfloor>v\<rfloor> < 2 ^ 63" using fl assms(4,5) by linarith+
    then have "truncate_rat v = \<lfloor>v\<rfloor>" "int64_range \<lfloor>v\<rfloor>"
      unfolding truncate_rat_def int64_range_def by (simp_all add: zero_le_floor linorder_not_less [symmetric])
    then show ?thesis using step(2) fl(1) by simp
  qed (use assms in simp)
qed

lemma retryInterval_loop_grows:
  assumes "plan_ok plan" and "\<And>x. int64_range (conv x)"
    and "backoffCoefficient plan = Finite c" "1 \<le> c" and "0 < maximumInterval plan" "maximumInterval plan \<le> 2 ^ 53"
  shows "within_cap plan prev \<Longrightarrow> retryInterval_loop conv plan prev n = Inr d \<Longrightarrow> prev \<le> d"
proof (induction n arbitrary: prev)
  case (Suc n)
  then obtain next' where n: "nextInterval conv prev plan = Inr next'" "retryInterval_loop conv plan next' n = Inr d"
    by (auto split: sum.splits)
  have "within_cap plan next'"
    using nextInterval_within_cap [OF assms(1,2) _ n(1)] Suc.prems(1) by (simp add: within_cap_def)
  from Suc.IH [OF this n(2)] nextInterval_grows [OF assms(3-6) _ _ n(1)] Suc.prems(1) assms(5)
  show ?case by (simp add: within_cap_def)
qed simp

lemma retryInterval_loop_add:
  "retryInterval_loop conv plan prev (m + n) =
     (case retryInterval_loop conv plan prev m of Inl e \<Rightarrow> Inl e | Inr d \<Rightarrow> retryInterval_loop conv plan d n)"
  by (induction m arbitrary: prev) (auto split: sum.splits)

section \<open>Properties\<close>

context well_known_types
begin

lemma schedule_defined:
  assumes "\<And>x. int64_range (conv x)" and "planRetries W conv policy = Inr plan" and "0 < i" "i < maxAttempts plan"
  shows "\<exists>d. retryIntervalAfterAttempt conv i plan = Inr d \<and> within_cap plan d"
proof -
  note ok = planRetries_ok [OF assms(2)]
  have cap: "within_cap plan (initialInterval plan)"
    using ok(1) assms(3,4) by (auto simp: plan_ok_def within_cap_def int64_range_def)
  obtain d where d: "retryInterval_loop conv plan (initialInterval plan) (i - 1) = Inr d"
    using validateRetrySchedule_loop_ok [OF ok(2) [unfolded validateRetrySchedule_def], of "i - 1"] assms(3,4) by auto
  from retryInterval_loop_within_cap [OF ok(1) assms(1) cap d] d assms(3) show ?thesis
    by (simp add: retryIntervalAfterAttempt_def)
qed

lemma schedule_grows:
  assumes conv: "\<And>x. int64_range (conv x)" and p: "planRetries W conv policy = Inr plan"
    and "0 < i" "i \<le> j" "j < maxAttempts plan"
    and c: "backoffCoefficient plan = Finite c" "1 \<le> c" "0 < maximumInterval plan" "maximumInterval plan \<le> 2 ^ 53"
  shows "projr (retryIntervalAfterAttempt conv i plan) \<le> projr (retryIntervalAfterAttempt conv j plan)"
proof -
  obtain d e where d: "retryIntervalAfterAttempt conv i plan = Inr d" "within_cap plan d"
    and e: "retryIntervalAfterAttempt conv j plan = Inr e"
    using schedule_defined [OF conv p, of i] schedule_defined [OF conv p, of j] assms(3-5) by auto
  have "retryInterval_loop conv plan d (j - i) = Inr e"
    using d(1) e assms(3,4) retryInterval_loop_add [of conv plan "initialInterval plan" "i - 1" "j - i"]
    by (simp add: retryIntervalAfterAttempt_def split: if_splits)
  from retryInterval_loop_grows [OF planRetries_ok(1) [OF p] conv c d(2) this] d(1) e show ?thesis by simp
qed

end

text \<open>
  C13. An accepted retry policy has a complete schedule. When \<open>planRetries\<close> accepts a policy,
  then for every attempt that may be retried \<open>retryIntervalAfterAttempt\<close> succeeds, and the
  interval is positive, fits \<open>time.Duration\<close> and does not exceed the policy's maximum
  interval, although it is computed in floating point; whatever the platform makes of a
  conversion out of range.
\<close>

theorem retry_schedule_bounds:
  assumes "well_known_types W" and "\<forall>x. int64_range (conv x)"
    and "planRetries W conv policy = Inr plan" and "0 < i" and "i < maxAttempts plan"
  shows "\<exists>d. retryIntervalAfterAttempt conv i plan = Inr d \<and> 0 < d \<and> d < 2 ^ 63 \<and>
    (0 < maximumInterval plan \<longrightarrow> d \<le> maximumInterval plan)"
  using well_known_types.schedule_defined [OF assms(1) _ assms(3-5)] assms(2) by (simp add: within_cap_def)

text \<open>A policy with a second's backoff that grows by half, up to ten seconds, in six attempts.\<close>

definition policy_example :: RetryPolicy where
  "policy_example = \<lparr>rp_InitialInterval = Some \<lparr>du_seconds = 1, du_nanos = 0\<rparr>, rp_BackoffCoefficient = Finite (3 / 2),
     rp_MaximumInterval = Some \<lparr>du_seconds = 3, du_nanos = 0\<rparr>, rp_MaximumAttempts = 5,
     rp_NonRetryableErrorCodes = [''b'', ''a'', ''b''], rp_DurableBackoffThreshold = None\<rparr>"

definition plan_example :: retryPlan where
  "plan_example = projr (planRetries protobuf_wkt (\<lambda>_. 0) (Some policy_example))"

lemma plan_example_ok: "planRetries protobuf_wkt (\<lambda>_. 0) (Some policy_example) = Inr plan_example"
proof -
  have "\<not> isl (planRetries protobuf_wkt (\<lambda>_. 0) (Some policy_example))" by code_simp
  then show ?thesis by (auto simp: plan_example_def isl_def)
qed

theorem retry_schedule_bounds_witness:
  "retryIntervalAfterAttempt (\<lambda>_. 0) 3 plan_example = Inr 2250000000 \<and>
   retryIntervalAfterAttempt (\<lambda>_. 0) 4 plan_example = Inr 3000000000 \<and>
   (\<exists>d. retryIntervalAfterAttempt (\<lambda>_. 0) 4 plan_example = Inr d \<and> 0 < d)"
proof -
  have n: "(4::nat) < maxAttempts plan_example" and i: "retryIntervalAfterAttempt (\<lambda>_. 0) 3 plan_example = Inr 2250000000"
    "retryIntervalAfterAttempt (\<lambda>_. 0) 4 plan_example = Inr 3000000000"
    by code_simp+
  have "\<forall>x :: float64. int64_range 0" by (simp add: int64_range_0)
  from retry_schedule_bounds [OF pb.well_known_types_axioms this plan_example_ok _ n] i show ?thesis by auto
qed

text \<open>
  C14. Backoff does not shrink. Under an accepted policy with a coefficient of at least one and
  a maximum interval of at most \<open>2\<^sup>53\<close> nanoseconds (104 days), a later attempt is never
  retried sooner than an earlier one.
\<close>

theorem retry_backoff_monotone:
  assumes "well_known_types W" and "\<forall>x. int64_range (conv x)"
    and "planRetries W conv policy = Inr plan" and "0 < i" "i \<le> j" "j < maxAttempts plan"
    and "backoffCoefficient plan = Finite c" "1 \<le> c" "0 < maximumInterval plan" "maximumInterval plan \<le> 2 ^ 53"
  shows "projr (retryIntervalAfterAttempt conv i plan) \<le> projr (retryIntervalAfterAttempt conv j plan)"
  using well_known_types.schedule_grows [OF assms(1) _ assms(3-10)] assms(2) by blast

theorem retry_backoff_monotone_witness:
  "projr (retryIntervalAfterAttempt (\<lambda>_. 0) 2 plan_example) \<le> projr (retryIntervalAfterAttempt (\<lambda>_. 0) 4 plan_example)"
proof -
  have p: "(4::nat) < maxAttempts plan_example" "backoffCoefficient plan_example = Finite (3 / 2)"
    "0 < maximumInterval plan_example" "maximumInterval plan_example \<le> 2 ^ 53"
    by code_simp+
  have "\<forall>x :: float64. int64_range 0" by (simp add: int64_range_0)
  from retry_backoff_monotone [OF pb.well_known_types_axioms this plan_example_ok _ _ p(1,2) _ p(3,4), of 2]
  show ?thesis by simp
qed



end
