(* ===== verification/RetryTimer.thy ===== *)
theory RetryTimer
  imports Waits Retry
begin

text \<open>
  The durable timer between two attempts of an activity, of \<open>core/go/workflow/workflow.go\<close>.
  A retry whose interval reaches the policy's threshold is a pair of independent records: a
  timer that wakes the workflow and the activity record in state RETRYING. The timer is
  written first, and every invocation repairs it from the activity record.

  Shown here: when the repair returns a time, a scheduled timer that wakes the workflow at that
  time is stored, linked to the activity; the wake never moves before the activity's next
  attempt nor before a valid wake that was already stored; nothing else is written.
\<close>

section \<open>Definitions\<close>

text \<open>The runtime of an activity: with the platform's conversion of doubles, the wait of an
  in-process backoff, and the text of an error (Go's \<open>Error\<close> method).\<close>

record 's engine = "'s runtime" +
  en_Conv :: "float64 \<Rightarrow> int"
  en_Wait :: "context \<Rightarrow> duration \<Rightarrow> ('s, unit) prog"
  en_CtxErr :: "context \<Rightarrow> ('s, unit) prog"
  en_ErrorText :: "go_error \<Rightarrow> string"

definition newRetryTimer ::
  "('s, 'r) runtime_scheme \<Rightarrow> TimerKey \<Rightarrow> string \<Rightarrow> duration \<Rightarrow> time \<Rightarrow> time \<Rightarrow> TimerRecord" where
  "newRetryTimer R key activityID duration fireAt now =
     \<lparr>tr_SchemaVersion = RECORD_SCHEMA_VERSION_TIMER, tr_Key = Some (Proto key),
      tr_TimerKind = TIMER_KIND_ACTIVITY_RETRY, tr_Duration = Some (Duration_New R duration),
      tr_Status = TIMER_STATUS_SCHEDULED, tr_FireAt = Some (Timestamp_New R fireAt),
      tr_CreatedAt = Some (Timestamp_New R now), tr_FiredAt = None, tr_RetryActivityId = activityID\<rparr>"

definition putActivityRetryTimer ::
  "('s, 'r) runtime_scheme \<Rightarrow> context \<Rightarrow> 'f Workflow_scheme \<Rightarrow> string \<Rightarrow> string \<Rightarrow> duration \<Rightarrow> time \<Rightarrow>
   ('s, 'm, unit) wprog" where
  "putActivityRetryTimer R ctx flow activityID retryTimerID duration fireAt =
     andThen (time_now R) (\<lambda>now.
     cPutTimer (rt_Store R) ctx (newRetryTimer R (timerKey flow retryTimerID) activityID duration fireAt now))"

definition activityRetryTimerDuration :: "'w wkt_scheme \<Rightarrow> Duration option \<Rightarrow> duration result" where
  "activityRetryTimerDuration W value =
     (case value of
        None \<Rightarrow> Inl (Plain ''has no duration'')
      | Some d \<Rightarrow>
      if \<not> Duration_CheckValid W d then Inl (Wrapped ''has invalid duration'' [Plain ''invalid duration''])
      else let duration = Duration_AsDuration W d in
      if duration \<le> 0 \<or> d \<noteq> Duration_New W duration then Inl (Plain ''has invalid duration'')
      else Inr duration)"

text \<open>The part of \<open>activityRetryTimerDetails\<close> on the timestamps, after kind, link and status.\<close>

definition retryTimerTimes :: "'w wkt_scheme \<Rightarrow> TimerRecord \<Rightarrow> (time \<times> duration \<times> TimerStatus) result" where
  "retryTimerTimes W record =
     (case tr_FireAt record of
        None \<Rightarrow> Inl (timerConflict ''activity retry timer has no fire_at'' [])
      | Some fireAt \<Rightarrow>
      if \<not> Timestamp_CheckValid W fireAt
      then Inl (timerConflict ''activity retry timer has invalid fire_at'' [Plain ''invalid timestamp''])
      else case activityRetryTimerDuration W (tr_Duration record) of
        Inl err \<Rightarrow> Inl (timerConflict ''activity retry timer'' [err])
      | Inr storedDuration \<Rightarrow>
      if tr_Status record = TIMER_STATUS_SCHEDULED \<and> tr_FiredAt record \<noteq> None
      then Inl (timerConflict ''scheduled activity retry timer has fired_at'' [])
      else if tr_Status record = TIMER_STATUS_FIRED \<and> tr_FiredAt record = None
      then Inl (timerConflict ''fired activity retry timer has no fired_at'' [])
      else if tr_Status record = TIMER_STATUS_FIRED \<and> \<not> checkValid W (tr_FiredAt record)
      then Inl (timerConflict ''activity retry timer has invalid fired_at'' [Plain ''invalid timestamp''])
      else Inr (Timestamp_AsTime W fireAt, storedDuration, tr_Status record))"

definition activityRetryTimerDetails ::
  "'w wkt_scheme \<Rightarrow> TimerRecord \<Rightarrow> TimerKey \<Rightarrow> string \<Rightarrow> (time \<times> duration \<times> TimerStatus) result" where
  "activityRetryTimerDetails W record key activityID =
     (if tr_SchemaVersion record \<noteq> RECORD_SCHEMA_VERSION_TIMER
      then Inl (timerConflict ''activity retry timer has schema version'' [])
      else if tr_Key record = None \<or> TimerKeyFromProto (tr_Key record) \<noteq> key
      then Inl (timerConflict ''activity retry timer has a conflicting embedded key'' [])
      else if tr_TimerKind record \<noteq> TIMER_KIND_ACTIVITY_RETRY
      then Inl (timerConflict ''reserved activity retry timer has kind'' [])
      else if tr_RetryActivityId record \<noteq> activityID
      then Inl (timerConflict ''activity retry timer belongs to another activity'' [])
      else if tr_Status record = TIMER_STATUS_CANCELED
      then Inl (timerConflict ''activity retry timer was canceled'' [])
      else if tr_Status record \<noteq> TIMER_STATUS_SCHEDULED \<and> tr_Status record \<noteq> TIMER_STATUS_FIRED
      then Inl (timerConflict ''activity retry timer has invalid status'' [])
      else retryTimerTimes W record)"

definition inspectActivityRetryTimer ::
  "'w wkt_scheme \<Rightarrow> TimerRecord \<Rightarrow> TimerKey \<Rightarrow> string \<Rightarrow> duration \<Rightarrow> time \<Rightarrow> bool result" where
  "inspectActivityRetryTimer W record key activityID duration wakeAt =
     (case activityRetryTimerDetails W record key activityID of
        Inl err \<Rightarrow> Inl err
      | Inr (storedWakeAt, storedDuration, status) \<Rightarrow>
          Inr (status = TIMER_STATUS_SCHEDULED \<and> storedWakeAt = wakeAt \<and> storedDuration = duration))"

definition validateNewerPreparedActivityRetryTimer ::
  "(float64 \<Rightarrow> int) \<Rightarrow> ActivityRecord \<Rightarrow> retryPlan \<Rightarrow> duration \<Rightarrow> unit result" where
  "validateNewerPreparedActivityRetryTimer conv retrying plan duration =
     (if ar_Attempts retrying = []
      then Inl (timerConflict ''cannot validate a newer retry timer without authoritative attempts'' [])
      else let preparedAfterAttempt = (aa_Attempt (last (ar_Attempts retrying)) + 1) mod 2 ^ 32 in
      if preparedAfterAttempt \<ge> maxAttempts plan
      then Inl (timerConflict ''newer retry timer would follow terminal attempt'' [])
      else case retryIntervalAfterAttempt conv preparedAfterAttempt plan of
        Inl err \<Rightarrow> Inl (timerConflict ''validate newer prepared retry interval'' [err])
      | Inr minimum \<Rightarrow>
      if duration < minimum \<or> duration < durableThreshold plan
      then Inl (timerConflict ''newer prepared retry timer duration is below required interval'' [])
      else Inr ())"

definition activityRetryTimerRepairPending :: "string \<Rightarrow> time \<Rightarrow> string \<Rightarrow> go_error \<Rightarrow> go_error" where
  "activityRetryTimerRepairPending timerID wakeAt operation cause =
     (let infrastructureErr = workflowInfrastructureError operation cause in
      if \<not> errors_Is infrastructureErr ErrWorkflowInfrastructure then infrastructureErr
      else Joined [TimerPendingError timerID wakeAt, infrastructureErr])"

text \<open>After a failed write: an exact re-read is proof that it landed.\<close>

definition verifyActivityRetryTimer ::
  "('s, 'r) runtime_scheme \<Rightarrow> TimerKey \<Rightarrow> string \<Rightarrow> duration \<Rightarrow> time \<Rightarrow> string \<Rightarrow> go_error \<Rightarrow>
   ('s, 'm, unit) wprog" where
  "verifyActivityRetryTimer R key activityID duration wakeAt operation writeErr =
     (let pending = activityRetryTimerRepairPending (TimerID key) wakeAt operation in
     andThen (attempt (getTimerAuthoritative R Detached key)) (\<lambda>got.
     case got of
       Inl readErr \<Rightarrow> fail (pending (Joined [writeErr, Wrapped ''verify ambiguous timer write'' [readErr]]))
     | Inr None \<Rightarrow> fail (pending writeErr)
     | Inr (Some record) \<Rightarrow>
       (case inspectActivityRetryTimer R record key activityID duration wakeAt of
          Inl inspectErr \<Rightarrow> fail (Joined [inspectErr, Wrapped operation [writeErr]])
        | Inr exact \<Rightarrow> if exact then ret () else fail (pending writeErr))))"

definition putActivityRetryTimerVerified ::
  "('s, 'r) runtime_scheme \<Rightarrow> context \<Rightarrow> 'f Workflow_scheme \<Rightarrow> string \<Rightarrow> string \<Rightarrow> duration \<Rightarrow> time \<Rightarrow> string \<Rightarrow>
   ('s, 'm, unit) wprog" where
  "putActivityRetryTimerVerified R ctx flow activityID retryTimerID duration wakeAt operation =
     andThen (attempt (putActivityRetryTimer R ctx flow activityID retryTimerID duration wakeAt)) (\<lambda>put.
     case put of
       Inr _ \<Rightarrow> ret ()
     | Inl writeErr \<Rightarrow>
         verifyActivityRetryTimer R (timerKey flow retryTimerID) activityID duration wakeAt operation writeErr)"

definition activityRetryTimerExpectation ::
  "'w wkt_scheme \<Rightarrow> (float64 \<Rightarrow> int) \<Rightarrow> ActivityRecord \<Rightarrow> retryPlan \<Rightarrow> (time \<times> duration) result" where
  "activityRetryTimerExpectation W conv retrying plan =
     (if ar_Status retrying \<noteq> ACTIVITY_STATUS_RETRYING
      then Inl (activityConflict ''retry timer requires a RETRYING activity record'')
      else case ar_NextAttemptAt retrying of
        None \<Rightarrow> Inl (activityConflict ''durable RETRYING activity has no next_attempt_at'')
      | Some nextAttemptAt \<Rightarrow>
      if durableThreshold plan \<le> 0
      then Inl (activityConflict ''activity has next_attempt_at under a non-durable retry policy'')
      else if ar_Attempts retrying = [] \<or> aa_Failure (last (ar_Attempts retrying)) = None
      then Inl (activityConflict ''durable RETRYING activity has no failed attempt'')
      else let lastAttempt = last (ar_Attempts retrying) in
      if ar_Failure retrying = None \<or> ar_Failure retrying \<noteq> aa_Failure lastAttempt
      then Inl (activityConflict ''RETRYING activity failure does not match its last attempt'')
      else case retryIntervalAfterAttempt conv (aa_Attempt lastAttempt) plan of
        Inl err \<Rightarrow> Inl (Wrapped ''reconstruct activity retry interval'' [Sentinel ErrActivityConflict, err])
      | Inr interval \<Rightarrow>
      let retryAfter = asDuration W (Option.bind (aa_Failure lastAttempt) af_RetryAfter);
          duration = (if retryAfter > interval then retryAfter else interval) in
      if duration < durableThreshold plan
      then Inl (activityConflict ''activity next_attempt_at interval is below durable threshold'')
      else Inr (Timestamp_AsTime W nextAttemptAt, duration))"

text \<open>The branches of \<open>ensureActivityRetryTimer\<close> for a stored timer.\<close>

definition repairActivityRetryTimer ::
  "('s, 'r) engine_scheme \<Rightarrow> context \<Rightarrow> 'f Workflow_scheme \<Rightarrow> string \<Rightarrow> string \<Rightarrow> ActivityRecord \<Rightarrow> retryPlan \<Rightarrow>
   time \<Rightarrow> duration \<Rightarrow> TimerRecord \<Rightarrow> ('s, 'm, time) wprog" where
  "repairActivityRetryTimer R ctx flow activityID retryTimerID retrying plan wakeAt duration record =
     andThen (lift (activityRetryTimerDetails R record (timerKey flow retryTimerID) activityID))
       (\<lambda>(storedWakeAt, storedDuration, status).
     if storedWakeAt > wakeAt
     then andThen (lift (validateNewerPreparedActivityRetryTimer (en_Conv R) retrying plan storedDuration)) (\<lambda>_.
       if status = TIMER_STATUS_FIRED
       then andThen (putActivityRetryTimerVerified R ctx flow activityID retryTimerID storedDuration storedWakeAt
              ''re-arm newer prepared retry timer'') (\<lambda>_. ret storedWakeAt)
       else ret storedWakeAt)
     else if storedWakeAt = wakeAt \<and> storedDuration \<noteq> duration
     then fail (timerConflict ''activity retry timer duration does not match retry policy duration'' [])
     else if storedWakeAt = wakeAt \<and> status = TIMER_STATUS_SCHEDULED then ret wakeAt
     else andThen (putActivityRetryTimerVerified R ctx flow activityID retryTimerID duration wakeAt
            ''repair stale paired retry timer'') (\<lambda>_. ret wakeAt))"

definition ensureActivityRetryTimer ::
  "('s, 'r) engine_scheme \<Rightarrow> context \<Rightarrow> 'f Workflow_scheme \<Rightarrow> string \<Rightarrow> string \<Rightarrow> ActivityRecord option \<Rightarrow>
   retryPlan \<Rightarrow> ('s, 'm, time) wprog" where
  "ensureActivityRetryTimer R ctx flow activityID retryTimerID retrying plan =
     (case retrying of
        None \<Rightarrow> fail (activityConflict ''RETRYING activity retry_timer_id does not match requested timer'')
      | Some retryingRecord \<Rightarrow>
      if ar_RetryTimerId retryingRecord \<noteq> retryTimerID
      then fail (activityConflict ''RETRYING activity retry_timer_id does not match requested timer'')
      else andThen (lift (activityRetryTimerExpectation R (en_Conv R) retryingRecord plan)) (\<lambda>(wakeAt, duration).
      andThen (attempt (getTimerAuthoritative R ctx (timerKey flow retryTimerID))) (\<lambda>got.
      case got of
        Inl err \<Rightarrow> fail (activityRetryTimerRepairPending retryTimerID wakeAt ''read paired retry timer'' err)
      | Inr None \<Rightarrow> andThen (putActivityRetryTimerVerified R ctx flow activityID retryTimerID duration wakeAt
            ''create missing paired retry timer'') (\<lambda>_. ret wakeAt)
      | Inr (Some record) \<Rightarrow>
          repairActivityRetryTimer R ctx flow activityID retryTimerID retryingRecord plan wakeAt duration record)))"

text \<open>
  The two readers of a timer that was prepared before its activity record: \<open>Some wakeAt\<close> if
  there is one. They share the re-arming of a fired timer.
\<close>

definition rearmPrepared ::
  "('s, 'r) runtime_scheme \<Rightarrow> context \<Rightarrow> 'f Workflow_scheme \<Rightarrow> string \<Rightarrow> string \<Rightarrow> string \<Rightarrow>
   time \<Rightarrow> duration \<Rightarrow> TimerStatus \<Rightarrow> ('s, 'm, time option) wprog" where
  "rearmPrepared R ctx flow activityID retryTimerID operation wakeAt duration status =
     (if status = TIMER_STATUS_FIRED
      then andThen (putActivityRetryTimerVerified R ctx flow activityID retryTimerID duration wakeAt operation)
             (\<lambda>_. ret (Some wakeAt))
      else ret (Some wakeAt))"

definition validatePreparedActivityRetryTimer ::
  "(float64 \<Rightarrow> int) \<Rightarrow> retryPlan \<Rightarrow> duration \<Rightarrow> unit result" where
  "validatePreparedActivityRetryTimer conv plan duration =
     (case retryIntervalAfterAttempt conv 1 plan of
        Inl err \<Rightarrow> Inl (timerConflict ''validate prepared retry interval'' [err])
      | Inr minimum \<Rightarrow>
      if duration < minimum \<or> duration < durableThreshold plan
      then Inl (timerConflict ''prepared retry timer duration is below required interval'' [])
      else Inr ())"

definition preparedActivityRetryTimer ::
  "('s, 'r) engine_scheme \<Rightarrow> context \<Rightarrow> 'f Workflow_scheme \<Rightarrow> string \<Rightarrow> string \<Rightarrow> retryPlan \<Rightarrow>
   ('s, 'm, time option) wprog" where
  "preparedActivityRetryTimer R ctx flow activityID retryTimerID plan =
     andThen (attempt (getTimerAuthoritative R ctx (timerKey flow retryTimerID))) (\<lambda>got.
     case got of
       Inl err \<Rightarrow> andThen (time_now R) (\<lambda>wakeAt.
         fail (activityRetryTimerRepairPending retryTimerID wakeAt ''read prepared retry timer'' err))
     | Inr None \<Rightarrow> ret None
     | Inr (Some record) \<Rightarrow>
         andThen (lift (activityRetryTimerDetails R record (timerKey flow retryTimerID) activityID))
           (\<lambda>(wakeAt, duration, status).
         andThen (lift (validatePreparedActivityRetryTimer (en_Conv R) plan duration)) (\<lambda>_.
         rearmPrepared R ctx flow activityID retryTimerID ''re-arm prepared retry timer'' wakeAt duration status)))"

definition newerPreparedActivityRetryTimer ::
  "('s, 'r) engine_scheme \<Rightarrow> context \<Rightarrow> 'f Workflow_scheme \<Rightarrow> string \<Rightarrow> string \<Rightarrow> ActivityRecord \<Rightarrow> retryPlan \<Rightarrow>
   ('s, 'm, time option) wprog" where
  "newerPreparedActivityRetryTimer R ctx flow activityID retryTimerID retrying plan =
     andThen (attempt (getTimerAuthoritative R ctx (timerKey flow retryTimerID))) (\<lambda>got.
     case got of
       Inl err \<Rightarrow> andThen (time_now R) (\<lambda>wakeAt.
         fail (activityRetryTimerRepairPending retryTimerID wakeAt ''read newer prepared retry timer'' err))
     | Inr None \<Rightarrow> ret None
     | Inr (Some record) \<Rightarrow>
         andThen (lift (activityRetryTimerDetails R record (timerKey flow retryTimerID) activityID))
           (\<lambda>(wakeAt, duration, status).
         andThen (lift (validateNewerPreparedActivityRetryTimer (en_Conv R) retrying plan duration)) (\<lambda>_.
         rearmPrepared R ctx flow activityID retryTimerID ''re-arm newer prepared retry timer'' wakeAt duration status)))"

definition activityRecordMayHaveRetryTimer :: "'w wkt_scheme \<Rightarrow> (float64 \<Rightarrow> int) \<Rightarrow> ActivityRecord \<Rightarrow> bool" where
  "activityRecordMayHaveRetryTimer W conv record =
     (if ar_RetryPolicy record = None then False
      else case planRetries W conv (ar_RetryPolicy record) of
        Inl _ \<Rightarrow> True
      | Inr plan \<Rightarrow> maxAttempts plan > 1 \<and> durableThreshold plan > 0)"

definition markActivityRetryTimerFired ::
  "('s, 'r) runtime_scheme \<Rightarrow> context \<Rightarrow> 'f Workflow_scheme \<Rightarrow> string \<Rightarrow> string \<Rightarrow> ('s, 'm, unit) wprog" where
  "markActivityRetryTimerFired R ctx flow activityID retryTimerID =
     (if retryTimerID = [] then ret ()
      else let key = timerKey flow retryTimerID in
      andThen (attempt (getTimerAuthoritative R ctx key)) (\<lambda>got.
      case got of
        Inl err \<Rightarrow> fail (Wrapped ''get activity retry timer for terminal cleanup'' [err])
      | Inr None \<Rightarrow> ret ()
      | Inr (Some record) \<Rightarrow>
        (case activityRetryTimerDetails R record key activityID of
           Inl err \<Rightarrow> fail (Wrapped ''validate activity retry timer for terminal cleanup'' [err])
         | Inr (_, _, status) \<Rightarrow>
             if status = TIMER_STATUS_FIRED then ret ()
             else andThen (time_now R) (\<lambda>now.
               andThen (attempt (cPutTimer (rt_Store R) ctx
                 (record\<lparr>tr_Status := TIMER_STATUS_FIRED, tr_FiredAt := Some (Timestamp_New R now)\<rparr>))) (\<lambda>put.
               case put of
                 Inl err \<Rightarrow> fail (Wrapped ''finalize activity retry timer'' [err])
               | Inr _ \<Rightarrow> ret ())))))"

section \<open>What the repair leaves behind\<close>

text \<open>
  The wake of an activity retry: a scheduled timer of the retry kind that is linked to the
  activity and fires at the given time.
\<close>

definition retry_wake :: "'w wkt_scheme \<Rightarrow> database \<Rightarrow> TimerKey \<Rightarrow> string \<Rightarrow> time \<Rightarrow> bool" where
  "retry_wake W d key activityID t \<longleftrightarrow> (\<exists>r ts. db_timer d key = Some r \<and> tr_TimerKind r = TIMER_KIND_ACTIVITY_RETRY \<and>
     tr_RetryActivityId r = activityID \<and> tr_Status r = TIMER_STATUS_SCHEDULED \<and>
     tr_FireAt r = Some ts \<and> Timestamp_AsTime W ts = t)"

lemma after_trans: "after db D f w w1 \<Longrightarrow> after db D' g w1 w2 \<Longrightarrow> after db D' (g \<circ> f) w w2"
  by (auto simp: after_def)

lemma retryTimerTimes_ok:
  "retryTimerTimes W r = Inr (t, d, st) \<Longrightarrow> st = tr_Status r \<and> (\<exists>ts. tr_FireAt r = Some ts \<and> Timestamp_AsTime W ts = t)"
  unfolding retryTimerTimes_def by (auto split: option.splits if_splits sum.splits)

lemma activityRetryTimerDetails_ok:
  assumes "activityRetryTimerDetails W r key activityID = Inr (t, d, st)"
  shows "tr_TimerKind r = TIMER_KIND_ACTIVITY_RETRY" "tr_RetryActivityId r = activityID" "st = tr_Status r"
    "st = TIMER_STATUS_SCHEDULED \<or> st = TIMER_STATUS_FIRED" "\<exists>ts. tr_FireAt r = Some ts \<and> Timestamp_AsTime W ts = t"
    "TimerKeyFromProto (tr_Key r) = key"
  using assms retryTimerTimes_ok [of W r t d st] unfolding activityRetryTimerDetails_def by (auto split: if_splits)

lemma details_wake:
  assumes "activityRetryTimerDetails W r key activityID = Inr (t, d, TIMER_STATUS_SCHEDULED)" and "db_timer x key = Some r"
  shows "retry_wake W x key activityID t"
  using activityRetryTimerDetails_ok [OF assms(1)] assms(2) by (auto simp: retry_wake_def)

context runtime_laws
begin

text \<open>
  One step of the repair: the timer \<open>key\<close> was left alone or written as scheduled, and only its
  cache entry may be in doubt.
\<close>

definition arm_step :: "TimerKey \<Rightarrow> entry set \<Rightarrow> ('s, 'm) world_scheme \<Rightarrow> ('s, 'm) world_scheme \<Rightarrow> bool" where
  "arm_step key D w w1 \<longleftrightarrow> armed key (db (inner w)) (db (inner w1)) \<and>
     coherent (insert (EntryTimer (TimerID key)) D) (db (inner w1)) (cache w1) \<and>
     scope (cache w1) = scope (cache w) \<and> cworld.more w1 = cworld.more w"

lemma arm_step_after:
  assumes "arm_step key D w0 w" and "after db D' id w w1" and "D' \<subseteq> insert (EntryTimer (TimerID key)) D"
  shows "arm_step key D w0 w1"
  using assms(1,2) coherent_weaken [OF after_coherent [OF assms(2)] assms(3)] by (simp add: arm_step_def after_def)

lemma arm_step_refl:
  assumes "coherent D' (db (inner w)) (cache w)" and "D' \<subseteq> insert (EntryTimer (TimerID key)) D"
  shows "arm_step key D w w"
  using coherent_weaken [OF assms] by (simp add: arm_step_def armed_def)

lemma arm_step_read:
  assumes "after db D' id w w1" and "D' \<subseteq> insert (EntryTimer (TimerID key)) D"
  shows "arm_step key D w w1"
  using coherent_weaken [OF after_coherent [OF assms(1)] assms(2)] assms(1) by (simp add: arm_step_def armed_def after_def)

lemma arm_step_put:
  assumes w1: "after db D' id w w1" and w2: "after db D'' f w1 w2" "f = id \<or> f = put_timer r"
    and D: "D'' \<subseteq> insert (EntryTimer (TimerID key)) D"
    and r: "tr_Key r = Some key" "tr_Status r = TIMER_STATUS_SCHEDULED"
  shows "arm_step key D w w2"
proof -
  have "armed key (db (inner w)) (db (inner w2))"
    using after_db [OF w1] after_db [OF w2(1)] w2(2) r by (auto simp: armed_def)
  then show ?thesis
    using w1 w2(1) coherent_weaken [OF after_coherent [OF w2(1)] D] by (simp add: arm_step_def after_def)
qed

lemma newRetryTimer_key: "tr_Key (newRetryTimer R (timerKey flow i) a d t n) = Some (timerKey flow i)"
  by (simp add: newRetryTimer_def Proto_def)

lemma newRetryTimer_wake: "retry_wake R (put_timer (newRetryTimer R (timerKey flow i) a d t n) x) (timerKey flow i) a t"
  unfolding retry_wake_def put_timer_def newRetryTimer_key by (simp add: set_key_def shown_def newRetryTimer_def)

lemma wp_verifyActivityRetryTimer:
  assumes w: "arm_step key D w0 w"
  shows "wpre (verifyActivityRetryTimer R key a d t op err)
    (\<lambda>_ w1. arm_step key D w0 w1 \<and> retry_wake R (db (inner w1)) key a t) (\<lambda>_ w1. arm_step key D w0 w1) w"
proof -
  let ?D = "insert (EntryTimer (TimerID key)) D"
  have c: "coherent ?D (db (inner w)) (cache w)" using w by (simp add: arm_step_def)
  have exact: "retry_wake R (db (inner w1)) key a t"
    if "after db X id w w1" "db_timer (db (inner w)) key = Some r" "inspectActivityRetryTimer R r key a d t = Inr True" for X w1 r
    using that details_wake [of R r key a t d] after_db [OF that(1)]
    by (auto simp: inspectActivityRetryTimer_def split: sum.splits)
  show ?thesis
    unfolding verifyActivityRetryTimer_def getTimerAuthoritative_def Let_def wpre_andThen wpre_attempt
  proof (rule wp_refreshTimer [OF c], goal_cases)
    case (1 w1)
    have "arm_step key D w0 w1" by (rule arm_step_after [OF w 1]) auto
    with exact [OF 1] show ?case by (auto simp: wp split: option.splits sum.splits)
  next
    case (2 e w1)
    have "arm_step key D w0 w1" by (rule arm_step_after [OF w 2]) auto
    then show ?case by (simp add: wp)
  qed
qed

lemma wp_putActivityRetryTimerVerified:
  assumes w: "arm_step key D w0 w" "db (inner w) = db (inner w0)" and key: "key = timerKey flow i"
  shows "wpre (putActivityRetryTimerVerified R ctx flow a i d t op)
    (\<lambda>_ w1. arm_step key D w0 w1 \<and> retry_wake R (db (inner w1)) key a t) (\<lambda>_ w1. arm_step key D w0 w1) w"
  unfolding putActivityRetryTimerVerified_def putActivityRetryTimer_def wpre_andThen [of "attempt _"] wpre_attempt
    wpre_andThen [of "time_now R"]
proof (rule wp_time_now [OF w(1) [unfolded arm_step_def, THEN conjunct2, THEN conjunct1]], goal_cases)
  case (1 now w1)
  note w1 = 1
  let ?r = "newRetryTimer R (timerKey flow i) a d t now" and ?D = "insert (EntryTimer i) D"
  have step: "arm_step key D w0 w2" if "after db X f w1 w2" "f = id \<or> f = put_timer ?r" "X \<subseteq> ?D" for X f w2
  proof -
    have "arm_step key D w w2"
      by (rule arm_step_put [OF w1 that(1,2)])
        (use that(3) in \<open>simp_all add: key newRetryTimer_key, simp add: newRetryTimer_def\<close>)
    with w show ?thesis by (simp add: arm_step_def)
  qed
  show ?case
  proof (rule wp_cPutTimer [OF after_coherent [OF w1]], goal_cases)
    case (3 w2)
    with step [OF 3] newRetryTimer_wake after_db [OF 3] show ?case by (simp add: wpre_ret key)
  next
    case (4 e w2 f)
    have "arm_step key D w0 w2" using step [OF 4(2,1)] by (simp add: newRetryTimer_key key)
    from wp_verifyActivityRetryTimer [OF this] show ?case by (simp add: key)
  qed (simp_all add: newRetryTimer_key, simp_all add: newRetryTimer_def DefaultNamespace_def)
qed

end

text \<open>Waiting and looking at the context change no record.\<close>

locale engine_laws = runtime_laws R db for R :: "('s, 'r) engine_scheme" and db :: "'s \<Rightarrow> database" +
  assumes wait_law: "keeps db (en_Wait R ctx d)"
    and ctx_err_law: "keeps db (en_CtxErr R ctx)"
begin

text \<open>The wake returned by the repair, and how it relates to what was stored.\<close>

definition ensured :: "TimerKey \<Rightarrow> entry set \<Rightarrow> string \<Rightarrow> time \<Rightarrow> ('s, 'm) world_scheme \<Rightarrow> time \<Rightarrow> ('s, 'm) world_scheme \<Rightarrow> bool" where
  "ensured key D activityID nextAt w t w1 \<longleftrightarrow> arm_step key D w w1 \<and> retry_wake R (db (inner w1)) key activityID t \<and>
     nextAt \<le> t \<and> (\<forall>t0. retry_wake R (db (inner w)) key activityID t0 \<longrightarrow> t0 \<le> t)"

lemma details_wake_time:
  assumes "activityRetryTimerDetails R r key a = Inr (t, d, st)" and "db_timer x key = Some r" and "retry_wake R x key a t0"
  shows "t0 = t"
  using activityRetryTimerDetails_ok(5) [OF assms(1)] assms(2,3) by (auto simp: retry_wake_def)

lemma wp_repairActivityRetryTimer:
  assumes w: "arm_step key D w0 w" "db (inner w) = db (inner w0)" and key: "key = timerKey flow i"
    and r: "db_timer (db (inner w0)) key = Some r"
  shows "wpre (repairActivityRetryTimer R ctx flow a i retrying plan wakeAt d r)
    (ensured key D a wakeAt w0) (\<lambda>_ w1. arm_step key D w0 w1) w"
proof (cases "activityRetryTimerDetails R r (timerKey flow i) a")
  case (Inl e)
  with w show ?thesis by (simp add: repairActivityRetryTimer_def wp)
next
  case (Inr p)
  obtain t0 d0 st where p: "p = (t0, d0, st)" by (cases p)
  note det = Inr [unfolded p, folded key]
  have old: "t \<le> t0" if "retry_wake R (db (inner w0)) key a t" for t
    using details_wake_time [OF det r that] by simp
  have put: "wpre (andThen (putActivityRetryTimerVerified R ctx flow a i d' t op) (\<lambda>_. ret t))
      (ensured key D a wakeAt w0) (\<lambda>_ w1. arm_step key D w0 w1) w" if "wakeAt \<le> t" "t0 \<le> t" for t d' op
    unfolding wpre_andThen wpre_ret
    by (rule wpre_mono [OF wp_putActivityRetryTimerVerified [OF w key]]) (use that old in \<open>auto simp: ensured_def dest!: old\<close>)
  have stay: "ensured key D a wakeAt w0 t0 w" if "st = TIMER_STATUS_SCHEDULED" "wakeAt \<le> t0"
    using details_wake [OF det [unfolded that(1)], of "db (inner w)"] r w that(2) old by (auto simp: ensured_def)
  have st: "st = TIMER_STATUS_SCHEDULED \<or> st = TIMER_STATUS_FIRED" using activityRetryTimerDetails_ok(4) [OF det] .
  show ?thesis
    unfolding repairActivityRetryTimer_def key [symmetric] det andThen_lift_Inr prod.case wpre_if wpre_andThen [of "lift _"]
      wpre_lift
    using put stay st w(1) by (auto simp: wpre_ret wpre_fail split: sum.split)
qed

lemma activityRetryTimerExpectation_ok:
  assumes "activityRetryTimerExpectation W conv r plan = Inr (t, d)"
  shows "\<exists>ts. ar_NextAttemptAt r = Some ts \<and> Timestamp_AsTime W ts = t"
  using assms unfolding activityRetryTimerExpectation_def
  by (auto simp: Let_def split: if_splits option.splits sum.splits)

lemma wp_ensureActivityRetryTimer:
  assumes c: "coherent D (db (inner w)) (cache w)" and key: "key = timerKey flow i"
  shows "wpre (ensureActivityRetryTimer R ctx flow a i (Some retrying) plan)
    (\<lambda>t. ensured key D a (asTime R (ar_NextAttemptAt retrying)) w t) (\<lambda>_ w1. arm_step key D w w1) w"
proof (cases "activityRetryTimerExpectation R (en_Conv R) retrying plan")
  case (Inl e)
  with arm_step_refl [OF c] show ?thesis by (auto simp: ensureActivityRetryTimer_def wp)
next
  case (Inr p)
  obtain t d where p: "p = (t, d)" by (cases p)
  have t: "asTime R (ar_NextAttemptAt retrying) = t"
    using activityRetryTimerExpectation_ok [OF Inr [unfolded p]] by auto
  have refl: "arm_step key D w w" by (rule arm_step_refl [OF c]) auto
  have create: "wpre (andThen (putActivityRetryTimerVerified R ctx flow a i d t op) (\<lambda>_. ret t))
      (\<lambda>t'. ensured key D a t w t') (\<lambda>_ w1. arm_step key D w w1) w1"
    if "arm_step key D w w1" "db (inner w1) = db (inner w)" "db_timer (db (inner w)) key = None" for w1 op
    unfolding wpre_andThen wpre_ret
    by (rule wpre_mono [OF wp_putActivityRetryTimerVerified [OF that(1,2) key]])
      (use that(3) in \<open>auto simp: ensured_def retry_wake_def\<close>)
  have got: "wpre (andThen (attempt (getTimerAuthoritative R ctx key)) (\<lambda>got.
      case got of
        Inl err \<Rightarrow> fail (activityRetryTimerRepairPending i t ''read paired retry timer'' err)
      | Inr None \<Rightarrow> andThen (putActivityRetryTimerVerified R ctx flow a i d t ''create missing paired retry timer'') (\<lambda>_. ret t)
      | Inr (Some r) \<Rightarrow> repairActivityRetryTimer R ctx flow a i retrying plan t d r))
      (\<lambda>t'. ensured key D a t w t') (\<lambda>_ w1. arm_step key D w w1) w"
    unfolding getTimerAuthoritative_def wpre_andThen [of "attempt (refreshTimer _ _ _)"] wpre_attempt [of "refreshTimer _ _ _"]
  proof (rule wp_refreshTimer [OF c], goal_cases)
    case (1 w1)
    have w1: "arm_step key D w w1" by (rule arm_step_read [OF 1]) auto
    have d: "db (inner w1) = db (inner w)" using after_db [OF 1] by simp
    show ?case using create [OF w1 d] wp_repairActivityRetryTimer [OF w1 d key]
      by (cases "db_timer (db (inner w)) key") simp_all
  next
    case (2 e w1)
    have "arm_step key D w w1" by (rule arm_step_read [OF 2]) auto
    then show ?case by (simp add: wpre_fail)
  qed
  show ?thesis
    unfolding ensureActivityRetryTimer_def option.case t key [symmetric] Inr p andThen_lift_Inr prod.case wpre_if
    by (cases "ar_RetryTimerId retrying \<noteq> i") (simp_all only: wpre_fail refl got if_True if_False simp_thms)
qed

lemma ensure_outcome:
  assumes "coherent {} (db (inner w)) (cache w)" and "key = timerKey flow retryTimerID"
    and "ensureActivityRetryTimer R ctx flow activityID retryTimerID (Some retrying) plan w = (r, w1)"
  shows "(\<forall>t. r = Inr t \<longrightarrow> retry_wake R (db (inner w1)) key activityID t \<and> asTime R (ar_NextAttemptAt retrying) \<le> t \<and>
      (\<forall>t0. retry_wake R (db (inner w)) key activityID t0 \<longrightarrow> t0 \<le> t)) \<and>
    armed key (db (inner w)) (db (inner w1))"
proof (cases r)
  case (Inl e)
  with wpre_InlD [OF wp_ensureActivityRetryTimer [OF assms(1,2)], of ctx activityID retrying plan e w1] assms(3)
  show ?thesis by (simp add: arm_step_def)
next
  case (Inr t)
  with wpre_InrD [OF wp_ensureActivityRetryTimer [OF assms(1,2)], of ctx activityID retrying plan t w1] assms(3)
  show ?thesis by (simp add: ensured_def arm_step_def)
qed

end

section \<open>The engine on the object store\<close>

definition opendal_engine ::
  "('s, 'b, 'm) env_scheme \<Rightarrow> (float64 \<Rightarrow> int) \<Rightarrow> (context \<Rightarrow> duration \<Rightarrow> ('s, unit) prog) \<Rightarrow> (go_error \<Rightarrow> string) \<Rightarrow> 's engine" where
  "opendal_engine X conv wait text = runtime.extend (opendal_runtime X)
     \<lparr>en_Conv = conv, en_Wait = wait, en_CtxErr = ctx_Err X, en_ErrorText = text\<rparr>"

lemma opendal_engine_simps [simp]:
  "Timestamp_CheckValid (opendal_engine X conv wait text) = Timestamp_CheckValid X"
  "Timestamp_AsTime (opendal_engine X conv wait text) = Timestamp_AsTime X"
  "Timestamp_New (opendal_engine X conv wait text) = Timestamp_New X"
  "Duration_CheckValid (opendal_engine X conv wait text) = Duration_CheckValid X"
  "Duration_AsDuration (opendal_engine X conv wait text) = Duration_AsDuration X"
  "Duration_New (opendal_engine X conv wait text) = Duration_New X"
  "rt_Store (opendal_engine X conv wait text) = OpenDALStore X" "rt_Now (opendal_engine X conv wait text) = rt_Now (opendal_runtime X)"
  "en_Wait (opendal_engine X conv wait text) = wait" "en_CtxErr (opendal_engine X conv wait text) = ctx_Err X"
  "en_Conv (opendal_engine X conv wait text) = conv" "en_ErrorText (opendal_engine X conv wait text) = text"
  by (simp_all add: opendal_engine_def opendal_runtime_def runtime.defs)

lemma validate_engine [simp]:
  "checkValid (opendal_engine X conv wait text) = checkValid X" "asTime (opendal_engine X conv wait text) = asTime X"
  "ValidateWorkflowRecord (opendal_engine X conv wait text) = ValidateWorkflowRecord X"
  "ValidateDueTimer (opendal_engine X conv wait text) = ValidateDueTimer X"
proof -
  show c: "checkValid (opendal_engine X conv wait text) = checkValid X" "asTime (opendal_engine X conv wait text) = asTime X"
    by (intro ext, simp add: checkValid_def asTime_def split: option.split)+
  show w: "ValidateWorkflowRecord (opendal_engine X conv wait text) = ValidateWorkflowRecord X"
    by (intro ext) (unfold ValidateWorkflowRecord_def c, rule refl)
  show "ValidateDueTimer (opendal_engine X conv wait text) = ValidateDueTimer X"
    by (intro ext) (unfold ValidateDueTimer_def c w, rule refl)
qed

context opendal_laws
begin

lemma durable_engine:
  assumes "\<And>ctx d. keeps objs (wait ctx d)"
  shows "engine_laws (opendal_engine X conv wait text) bucket_db"
proof -
  have "well_known_types (opendal_engine X conv wait text)"
    using well_known_types_axioms unfolding well_known_types_def by simp
  moreover have "store_laws_axioms (opendal_engine X conv wait text) (rt_Store (opendal_engine X conv wait text)) bucket_db"
    using bucket_store unfolding store_laws_def store_laws_axioms_def by simp
  moreover have "bucket_db (snd (rt_Now (opendal_engine X conv wait text) s)) = bucket_db s" for s
    using durable.clock_law by simp
  moreover have "keeps bucket_db (wait ctx d)" "keeps bucket_db (ctx_Err X ctx)" for ctx d
    using assms [of ctx d] ctx_keeps(1) by (simp_all add: keeps_def)
  ultimately show ?thesis
    by (intro engine_laws.intro runtime_laws.intro store_laws.intro runtime_laws_axioms.intro engine_laws_axioms.intro) simp_all
qed

end

text \<open>The in-memory engine: waiting advances the clock, unless the caller has gone.\<close>

definition mem_wait :: "context \<Rightarrow> duration \<Rightarrow> (memory, unit) prog" where
  "mem_wait ctx d s = (if ctx = Caller \<and> mem_cancelled s then (Inl (Sentinel Canceled), s)
     else (Inr (), s\<lparr>mem_clock := mem_clock s + d\<rparr>))"

definition mem_engine :: "memory engine" where
  "mem_engine = opendal_engine mem_env (\<lambda>_. 0) mem_wait (\<lambda>e. case e of Plain t \<Rightarrow> t | _ \<Rightarrow> [])"

interpretation mem_engine: engine_laws mem_engine "\<lambda>s. database_of mem_env (mem_lookup s)"
  unfolding mem_engine_def
  by (rule mem.durable_engine) (simp add: keeps_def mem_wait_def mem_lookup_def fun_eq_iff)

section \<open>Property\<close>

text \<open>
  C20. A durable retry always has its wake. When the repair of the timer of a RETRYING activity
  returns a time, the database has a scheduled timer of the retry kind, linked to that
  activity, that fires at that time; the time is not before the activity's next attempt, nor
  before a wake of the same activity that was scheduled already; and whatever the outcome, the
  database is as it was, or that one timer was written as scheduled.
\<close>

theorem retry_wake_ensured:
  assumes "engine_laws R db" and "coherent {} (db (inner w)) (cache w)" and "key = timerKey flow retryTimerID"
    and "ensureActivityRetryTimer R ctx flow activityID retryTimerID (Some retrying) plan w = (r, w1)"
  shows "(\<forall>t. r = Inr t \<longrightarrow> retry_wake R (db (inner w1)) key activityID t \<and> asTime R (ar_NextAttemptAt retrying) \<le> t \<and>
      (\<forall>t0. retry_wake R (db (inner w)) key activityID t0 \<longrightarrow> t0 \<le> t)) \<and>
    (db (inner w1) = db (inner w) \<or> (\<exists>timer. db (inner w1) = put_timer timer (db (inner w)) \<and>
      tr_Status timer = TIMER_STATUS_SCHEDULED \<and> withDefaults (TimerKeyFromProto (tr_Key timer)) = withDefaults key))"
  using engine_laws.ensure_outcome [OF assms] unfolding runtime_laws.armed_def [OF engine_laws.axioms(1) [OF assms(1)]] .

definition retrying_example :: ActivityRecord where
  "retrying_example = \<lparr>ar_SchemaVersion = RECORD_SCHEMA_VERSION_ACTIVITY, ar_Key = Some (NewActivityKey ''orders'' ''r1'' ''charge''),
     ar_ActivityType = ''activity:text->text'', ar_Input = None, ar_Status = ACTIVITY_STATUS_RETRYING, ar_Result = None,
     ar_Failure = Some \<lparr>af_Code = ''busy'', af_Message = [], af_RetryAfter = None\<rparr>,
     ar_CreatedAt = None, ar_CompletedAt = None,
     ar_Attempts = [\<lparr>aa_Attempt = 1, aa_StartedAt = None, aa_CompletedAt = None,
       aa_Failure = Some \<lparr>af_Code = ''busy'', af_Message = [], af_RetryAfter = None\<rparr>\<rparr>],
     ar_Annotations = Map.empty, ar_NextAttemptAt = Some \<lparr>ts_seconds = 7, ts_nanos = 0\<rparr>,
     ar_RetryPolicy = None, ar_RetryTimerId = ''retry''\<rparr>"

theorem retry_wake_ensured_witness:
  "retry_wake mem_engine (database_of mem_env (mem_lookup (inner (snd (ensureActivityRetryTimer mem_engine Caller flow_example
     ''charge'' ''retry'' (Some retrying_example) (plan_example\<lparr>durableThreshold := 1\<rparr>) world_example)))))
     (timerKey flow_example ''retry'') ''charge'' 7000000000"
proof -
  let ?run = "ensureActivityRetryTimer mem_engine Caller flow_example ''charge'' ''retry'' (Some retrying_example)
    (plan_example\<lparr>durableThreshold := 1\<rparr>) world_example"
  have "fst ?run = Inr 7000000000" by code_simp
  then have "?run = (Inr 7000000000, snd ?run)" by (metis prod.collapse)
  from retry_wake_ensured [OF mem_engine.engine_laws_axioms world_example_ok(1) refl this]
  show ?thesis by simp
qed

end
