(* ===== verification/Claims.thy ===== *)
theory Claims
  imports RetryTimer
begin

text \<open>
  Create-only claims: the interface \<open>ClaimStore\<close> of \<open>core/go/storage/store.go\<close> and its
  implementation on a GoCDK bucket, \<open>adapters/go/gocdkclaims/store.go\<close>.

  The bucket (\<open>gocloud.dev/blob\<close>) is a record of its operations; its documented behaviour is
  the locale \<open>blob_laws\<close>. What a claim store promises is the locale \<open>claim_laws\<close>: a create
  succeeds exactly when the claim is free, a delete frees it, nothing else changes it. Shown
  here: the GoCDK store fulfils that contract; in every interleaving of operations on it a
  claim has at most one holder until it is released; and claims kept in the same bucket as the
  records leave every record alone.
\<close>

section \<open>The interface\<close>

record 's ClaimStore =
  cs_ClaimCapability :: "context \<Rightarrow> ('s, ClaimCapability) prog"
  cs_GetClaim :: "context \<Rightarrow> ClaimKey \<Rightarrow> ('s, ClaimRecord option) prog"
  cs_TryCreateClaim :: "context \<Rightarrow> ClaimRecord \<Rightarrow> ('s, bool) prog"
  cs_DeleteClaim :: "context \<Rightarrow> ClaimKey \<Rightarrow> ('s, bool) prog"
  cs_ListClaims :: "context \<Rightarrow> WorkflowKey \<Rightarrow> ('s, ClaimRecord list) prog"

section \<open>The store on a GoCDK bucket\<close>

text \<open>
  What iterating a listing yields: the objects as key and \<open>IsDir\<close>, then the end (\<open>io.EOF\<close>) or an
  error. \<open>bk_WriteAll\<close> is \<open>WriteAll\<close> with the option \<open>IfNotExist\<close>.
\<close>

record ('s, 'b) blob = "'b codec" +
  bk_Present :: bool
  bk_CtxErr :: "context \<Rightarrow> ('s, unit) prog"
  bk_ReadAll :: "context \<Rightarrow> path \<Rightarrow> ('s, 'b) prog"
  bk_WriteAll :: "context \<Rightarrow> path \<Rightarrow> 'b \<Rightarrow> ('s, unit) prog"
  bk_Exists :: "context \<Rightarrow> path \<Rightarrow> ('s, bool) prog"
  bk_Delete :: "context \<Rightarrow> path \<Rightarrow> ('s, unit) prog"
  bk_List :: "context \<Rightarrow> path \<Rightarrow> ('s, (path \<times> bool) list \<times> go_error option) prog"

text \<open>The checks every operation starts with.\<close>

definition claimGuard :: "('s, 'b, 'm) blob_scheme \<Rightarrow> context \<Rightarrow> ('s, unit) prog" where
  "claimGuard B ctx =
     andThen (bk_CtxErr B ctx) (\<lambda>_.
     if \<not> bk_Present B then fail (Plain ''gocdk bucket is required'') else ret ())"

definition ClaimCapability_gocdk :: "context \<Rightarrow> ('s, ClaimCapability) prog" where
  "ClaimCapability_gocdk ctx = ret CLAIM_CAPABILITY_CREATE_ONLY_CLAIMS"

definition GetClaim :: "('s, 'b, 'm) blob_scheme \<Rightarrow> context \<Rightarrow> ClaimKey \<Rightarrow> ('s, ClaimRecord option) prog" where
  "GetClaim B ctx key =
     andThen (claimGuard B ctx) (\<lambda>_.
     andThen (lift (ClaimKey_Path key)) (\<lambda>path.
     andThen (attempt (bk_ReadAll B ctx path)) (\<lambda>got.
     case got of
       Inl err \<Rightarrow> if gcerrors_Is err GcNotFound then ret None else fail err
     | Inr data \<Rightarrow>
       (case unmarshal_claim B data of
          None \<Rightarrow> fail (Wrapped ''decode claim payload'' [Sentinel ErrCorruptRecord, Plain ''unmarshal''])
        | Some record \<Rightarrow> andThen (lift (ValidateClaimRecord (Some record) key)) (\<lambda>_. ret (Some record))))))"

text \<open>One listed object.\<close>

definition listedClaim :: "('s, 'b, 'm) blob_scheme \<Rightarrow> context \<Rightarrow> WorkflowKey \<Rightarrow> path \<Rightarrow> ('s, ClaimRecord) prog" where
  "listedClaim B ctx key objectKey =
     andThen (bk_ReadAll B ctx objectKey) (\<lambda>data.
     case unmarshal_claim B data of
       None \<Rightarrow> fail (Wrapped ''decode claim payload'' [Sentinel ErrCorruptRecord, Plain ''unmarshal''])
     | Some record \<Rightarrow>
       let recordKey = ClaimKeyFromProto (cr_Key record) in
       andThen (lift (ValidateClaimRecord (Some record) recordKey)) (\<lambda>_.
       andThen (lift (ClaimKey_Path recordKey)) (\<lambda>expectedPath.
       let requested = Proto key; actual = Proto recordKey in
       if expectedPath \<noteq> objectKey \<or> Namespace requested \<noteq> Namespace actual \<or>
          WorkflowID requested \<noteq> WorkflowID actual \<or> RunID requested \<noteq> RunID actual
       then fail (corruptRecordf ''claim payload key does not match its listed workflow run and location'')
       else ret record)))"

fun listClaims_loop ::
  "('s, 'b, 'm) blob_scheme \<Rightarrow> context \<Rightarrow> WorkflowKey \<Rightarrow> (path \<times> bool) list \<Rightarrow> go_error option \<Rightarrow> ClaimRecord list \<Rightarrow>
   ('s, ClaimRecord list) prog" where
  "listClaims_loop B ctx key [] stop records = (case stop of None \<Rightarrow> ret records | Some err \<Rightarrow> fail err)"
| "listClaims_loop B ctx key ((objectKey, isDir) # rest) stop records =
     (if isDir then listClaims_loop B ctx key rest stop records
      else andThen (listedClaim B ctx key objectKey) (\<lambda>record.
        listClaims_loop B ctx key rest stop (records @ [record])))"

definition ListClaims :: "('s, 'b, 'm) blob_scheme \<Rightarrow> context \<Rightarrow> WorkflowKey \<Rightarrow> ('s, ClaimRecord list) prog" where
  "ListClaims B ctx key =
     andThen (claimGuard B ctx) (\<lambda>_.
     andThen (lift (ClaimKey_DirPath \<lparr>Namespace = Namespace key, WorkflowID = WorkflowID key, RunID = RunID key, ClaimID = ''placeholder''\<rparr>)) (\<lambda>dirPrefix.
     andThen (bk_List B ctx dirPrefix) (\<lambda>(objects, stop). listClaims_loop B ctx key objects stop [])))"

definition TryCreateClaim :: "('s, 'b, 'm) blob_scheme \<Rightarrow> context \<Rightarrow> ClaimRecord \<Rightarrow> ('s, bool) prog" where
  "TryCreateClaim B ctx record =
     andThen (claimGuard B ctx) (\<lambda>_.
     let key = ClaimKeyFromProto (cr_Key record) in
     andThen (lift (ValidateClaimRecord (Some record) key)) (\<lambda>_.
     andThen (lift (ClaimKey_Path key)) (\<lambda>path.
     andThen (lift (marshal_claim B record)) (\<lambda>data.
     andThen (attempt (bk_WriteAll B ctx path data)) (\<lambda>put.
     case put of
       Inl err \<Rightarrow> if gcerrors_Is err GcFailedPrecondition \<or> gcerrors_Is err GcAlreadyExists then ret False else fail err
     | Inr _ \<Rightarrow> ret True)))))"

definition DeleteClaim :: "('s, 'b, 'm) blob_scheme \<Rightarrow> context \<Rightarrow> ClaimKey \<Rightarrow> ('s, bool) prog" where
  "DeleteClaim B ctx key =
     andThen (claimGuard B ctx) (\<lambda>_.
     andThen (lift (ClaimKey_Path key)) (\<lambda>path.
     andThen (bk_Exists B ctx path) (\<lambda>exists.
     if \<not> exists then ret False
     else andThen (attempt (bk_Delete B ctx path)) (\<lambda>gone.
       case gone of
         Inl err \<Rightarrow> if gcerrors_Is err GcNotFound then ret False else fail err
       | Inr _ \<Rightarrow> ret True))))"

definition GoCDKClaims :: "('s, 'b, 'm) blob_scheme \<Rightarrow> 's ClaimStore" where
  "GoCDKClaims B = \<lparr>cs_ClaimCapability = ClaimCapability_gocdk, cs_GetClaim = GetClaim B,
     cs_TryCreateClaim = TryCreateClaim B, cs_DeleteClaim = DeleteClaim B, cs_ListClaims = ListClaims B\<rparr>"

section \<open>The contract\<close>

text \<open>\<open>held s k\<close>: the claim \<open>k\<close> exists. A key of the empty namespace is one of the default namespace.\<close>

definition upd_claim :: "(ClaimKey \<Rightarrow> bool) \<Rightarrow> ClaimKey \<Rightarrow> bool \<Rightarrow> ClaimKey \<Rightarrow> bool" where
  "upd_claim h k b = (\<lambda>k'. if withDefaults k' = withDefaults k then b else h k')"

locale claim_laws =
  fixes C :: "'s ClaimStore" and held :: "'s \<Rightarrow> ClaimKey \<Rightarrow> bool"
  assumes held_default: "held s (withDefaults k) = held s k"
    and create_law: "cs_TryCreateClaim C ctx r s = (Inr b, s1) \<Longrightarrow>
      b = (\<not> held s (ClaimKeyFromProto (cr_Key r))) \<and> held s1 = upd_claim (held s) (ClaimKeyFromProto (cr_Key r)) True"
    and create_error_law: "cs_TryCreateClaim C ctx r s = (Inl e, s1) \<Longrightarrow>
      held s1 = held s \<or> held s1 = upd_claim (held s) (ClaimKeyFromProto (cr_Key r)) True"
    and delete_law: "cs_DeleteClaim C ctx k s = (Inr b, s1) \<Longrightarrow> b = held s k \<and> held s1 = upd_claim (held s) k False"
    and delete_error_law: "cs_DeleteClaim C ctx k s = (Inl e, s1) \<Longrightarrow> held s1 = held s \<or> held s1 = upd_claim (held s) k False"
    and get_law: "cs_GetClaim C ctx k s = (res, s1) \<Longrightarrow> held s1 = held s \<and> (\<forall>x. res = Inr x \<longrightarrow> held s k = (x \<noteq> None))"
    and list_law: "keeps held (cs_ListClaims C ctx wk)"
    and capability_law: "keeps held (cs_ClaimCapability C ctx)"

text \<open>The operations of any number of callers, in the order in which the store serves them.\<close>

datatype claim_op = TryCreate ClaimRecord | Release ClaimKey | Look ClaimKey | Listing WorkflowKey | Ask

fun claim_step :: "'s ClaimStore \<Rightarrow> context \<Rightarrow> claim_op \<Rightarrow> 's \<Rightarrow> bool \<times> 's" where
  "claim_step C ctx (TryCreate r) s = (case cs_TryCreateClaim C ctx r s of (x, s1) \<Rightarrow> (x = Inr True, s1))"
| "claim_step C ctx (Release k) s = (case cs_DeleteClaim C ctx k s of (x, s1) \<Rightarrow> (x = Inr True, s1))"
| "claim_step C ctx (Look k) s = (False, snd (cs_GetClaim C ctx k s))"
| "claim_step C ctx (Listing wk) s = (False, snd (cs_ListClaims C ctx wk s))"
| "claim_step C ctx Ask s = (False, snd (cs_ClaimCapability C ctx s))"

text \<open>Which operations of a history succeeded.\<close>

fun claim_history :: "'s ClaimStore \<Rightarrow> (context \<times> claim_op) list \<Rightarrow> 's \<Rightarrow> bool list" where
  "claim_history C [] s = []"
| "claim_history C ((ctx, op) # ops) s = (case claim_step C ctx op s of (b, s1) \<Rightarrow> b # claim_history C ops s1)"

definition creates :: "ClaimKey \<Rightarrow> claim_op \<Rightarrow> bool" where
  "creates k op = (case op of TryCreate r \<Rightarrow> withDefaults (ClaimKeyFromProto (cr_Key r)) = withDefaults k | _ \<Rightarrow> False)"

definition releases :: "ClaimKey \<Rightarrow> claim_op \<Rightarrow> bool" where
  "releases k op = (case op of Release k' \<Rightarrow> withDefaults k' = withDefaults k | _ \<Rightarrow> False)"

lemma length_claim_history [simp]: "length (claim_history C ops s) = length ops"
  by (induction C ops s rule: claim_history.induct) (auto split: prod.split)

context claim_laws
begin

lemma held_class: "withDefaults k = withDefaults k' \<Longrightarrow> held s k = held s k'"
  by (metis held_default)

text \<open>A held claim stays held until an operation releases it.\<close>

lemma claim_step_held:
  assumes "held s k" and "\<not> releases k op"
  shows "held (snd (claim_step C ctx op s)) k"
proof (cases op)
  case (TryCreate r)
  obtain x s1 where x: "cs_TryCreateClaim C ctx r s = (x, s1)" by fastforce
  have "held s1 k" using create_law [of ctx r s _ s1] create_error_law [of ctx r s _ s1] x assms(1)
    by (cases x) (auto simp: upd_claim_def)
  with x TryCreate show ?thesis by simp
next
  case (Release k')
  obtain x s1 where x: "cs_DeleteClaim C ctx k' s = (x, s1)" by fastforce
  have "withDefaults k' \<noteq> withDefaults k" using assms(2) Release by (simp add: releases_def)
  then have "held s1 k" using delete_law [of ctx k' s _ s1] delete_error_law [of ctx k' s _ s1] x assms(1)
    by (cases x) (auto simp: upd_claim_def)
  with x Release show ?thesis by simp
next
  case (Look k')
  then show ?thesis using get_law [of ctx k' s] assms(1) by (cases "cs_GetClaim C ctx k' s") auto
qed (use assms list_law capability_law in \<open>simp_all add: keeps_def\<close>)

lemma claim_step_created:
  assumes "creates k op" and "claim_step C ctx op s = (True, s1)"
  shows "\<not> held s k" "held s1 k"
proof -
  obtain r where r: "op = TryCreate r" "withDefaults (ClaimKeyFromProto (cr_Key r)) = withDefaults k"
    using assms(1) by (cases op) (auto simp: creates_def)
  with assms(2) have "cs_TryCreateClaim C ctx r s = (Inr True, s1)" by (auto split: prod.splits)
  from create_law [OF this] r held_class [of "ClaimKeyFromProto (cr_Key r)" k s]
  show "\<not> held s k" "held s1 k" by (auto simp: upd_claim_def)
qed

lemma held_no_create:
  assumes "held s k" and "j < length ops" and "\<forall>i < j. \<not> releases k (snd (ops ! i))" and "creates k (snd (ops ! j))"
  shows "\<not> claim_history C ops s ! j"
  using assms
proof (induction ops arbitrary: s j)
  case (Cons e ops)
  obtain ctx op where e: "e = (ctx, op)" by (cases e)
  obtain b s1 where step: "claim_step C ctx op s = (b, s1)" by fastforce
  show ?case
  proof (cases j)
    case 0
    with Cons.prems e have "creates k op" by simp
    with claim_step_created(1) [of k op ctx s s1] step Cons.prems(1) have "\<not> b" by (cases b) auto
    with 0 e step show ?thesis by simp
  next
    case (Suc n)
    have "\<not> releases k op" using Cons.prems(3) Suc e by (auto dest: spec [of _ 0])
    with claim_step_held [OF Cons.prems(1), of op ctx] step have "held s1 k" by simp
    then have "\<not> claim_history C ops s1 ! n"
      by (rule Cons.IH) (use Cons.prems(2-4) Suc in auto)
    with Suc e step show ?thesis by simp
  qed
qed simp

lemma one_holder:
  assumes "i < j" and "j < length ops" and "creates k (snd (ops ! i))" and "creates k (snd (ops ! j))"
    and "claim_history C ops s ! i" and "claim_history C ops s ! j"
  shows "\<exists>m. i < m \<and> m < j \<and> releases k (snd (ops ! m))"
  using assms
proof (induction ops arbitrary: s i j)
  case (Cons e ops)
  obtain ctx op where e: "e = (ctx, op)" by (cases e)
  obtain b s1 where step: "claim_step C ctx op s = (b, s1)" by fastforce
  obtain n where n: "j = Suc n" using Cons.prems(1) by (cases j) auto
  show ?case
  proof (cases i)
    case 0
    with Cons.prems e step have "creates k op" "b" by auto
    with claim_step_created(2) [of k op ctx s s1] step have "held s1 k" by simp
    from held_no_create [OF this, of n ops] Cons.prems e step n
    obtain m where "m < n" "releases k (snd (ops ! m))" by auto
    with 0 n show ?thesis by (intro exI [of _ "Suc m"]) simp
  next
    case (Suc l)
    with Cons.IH [of l n s1] Cons.prems e step n obtain m where "l < m" "m < n" "releases k (snd (ops ! m))" by auto
    with Suc n show ?thesis by (intro exI [of _ "Suc m"]) simp
  qed
qed simp

end

section \<open>The bucket keeps the contract\<close>

text \<open>
  What \<open>gocloud.dev/blob\<close> documents of its operations: a conditional write succeeds only on an
  absent object and is refused, with \<open>FailedPrecondition\<close> or \<open>AlreadyExists\<close>, only on a present
  one; an operation that fails otherwise may have taken effect or not; \<open>NotFound\<close> means that
  there is no such object; reads change nothing.
\<close>

definition refused :: "go_error \<Rightarrow> bool" where
  "refused e \<longleftrightarrow> gcerrors_Is e GcFailedPrecondition \<or> gcerrors_Is e GcAlreadyExists"

locale blob_laws =
  fixes B :: "('s, 'b, 'm) blob_scheme" and objs :: "'s \<Rightarrow> path \<Rightarrow> 'b option"
  assumes blob_ctx: "keeps objs (bk_CtxErr B c)"
    and blob_list: "keeps objs (bk_List B c p)"
    and blob_read: "bk_ReadAll B c p s = (rd, s1) \<Longrightarrow> objs s1 = objs s \<and> (\<forall>b. rd = Inr b \<longrightarrow> objs s p = Some b) \<and>
      (\<forall>e. rd = Inl e \<and> gcerrors_Is e GcNotFound \<longrightarrow> objs s p = None)"
    and blob_exists: "bk_Exists B c p s = (ex, s1) \<Longrightarrow> objs s1 = objs s \<and> (\<forall>b. ex = Inr b \<longrightarrow> b = (objs s p \<noteq> None))"
    and blob_write: "bk_WriteAll B c p b s = (Inr u, s1) \<Longrightarrow> objs s p = None \<and> objs s1 = (objs s)(p \<mapsto> b)"
    and blob_write_error: "bk_WriteAll B c p b s = (Inl e, s1) \<Longrightarrow>
      (refused e \<longrightarrow> objs s p \<noteq> None) \<and> (objs s1 = objs s \<or> objs s p = None \<and> objs s1 = (objs s)(p \<mapsto> b))"
    and blob_delete: "bk_Delete B c p s = (Inr u, s1) \<Longrightarrow> objs s1 = (objs s)(p := None)"
    and blob_delete_error: "bk_Delete B c p s = (Inl e, s1) \<Longrightarrow>
      (gcerrors_Is e GcNotFound \<longrightarrow> objs s p = None) \<and> (objs s1 = objs s \<or> objs s1 = (objs s)(p := None))"
begin

definition claim_held :: "'s \<Rightarrow> ClaimKey \<Rightarrow> bool" where
  "claim_held s k \<longleftrightarrow> (\<exists>p. ClaimKey_Path k = Inr p \<and> objs s p \<noteq> None)"

lemma ClaimKey_Path_eq:
  assumes "ClaimKey_Path k = Inr p"
  shows "ClaimKey_Path k' = Inr p \<longleftrightarrow> withDefaults k' = withDefaults k"
proof
  assume "ClaimKey_Path k' = Inr p"
  with object_path_inj [of "ObjClaim k'" p "ObjClaim k"] assms show "withDefaults k' = withDefaults k" by simp
next
  assume "withDefaults k' = withDefaults k"
  then have "ClaimKey_Path k' = ClaimKey_Path k" by (simp add: ClaimKey_Path_def)
  with assms show "ClaimKey_Path k' = Inr p" by simp
qed

lemma claim_held_upd:
  assumes "ClaimKey_Path k = Inr p" and "objs s1 = (objs s)(p := x)"
  shows "claim_held s1 = upd_claim (claim_held s) k (x \<noteq> None)"
proof
  fix k'
  show "claim_held s1 k' = upd_claim (claim_held s) k (x \<noteq> None) k'"
  proof (cases "withDefaults k' = withDefaults k")
    case True
    then have "ClaimKey_Path k' = Inr p" using ClaimKey_Path_eq [OF assms(1)] by simp
    with True assms(2) show ?thesis by (simp add: claim_held_def upd_claim_def)
  next
    case False
    then have "ClaimKey_Path k' \<noteq> Inr p" using ClaimKey_Path_eq [OF assms(1)] by simp
    with False assms(2) show ?thesis by (auto simp: claim_held_def upd_claim_def)
  qed
qed

lemma claim_held_same: "objs s1 = objs s \<Longrightarrow> claim_held s1 = claim_held s"
  by (simp add: claim_held_def fun_eq_iff)

lemma claim_held_at: "ClaimKey_Path k = Inr p \<Longrightarrow> claim_held s k \<longleftrightarrow> objs s p \<noteq> None"
  by (simp add: claim_held_def)

lemma upd_claim_id: "claim_held s k = b \<Longrightarrow> upd_claim (claim_held s) k b = claim_held s"
proof (intro ext)
  fix k' assume "claim_held s k = b"
  moreover have "claim_held s k' = claim_held s k" if "withDefaults k' = withDefaults k"
  proof -
    have "ClaimKey_Path k' = ClaimKey_Path k" using that by (simp add: ClaimKey_Path_def)
    then show ?thesis by (simp add: claim_held_def)
  qed
  ultimately show "upd_claim (claim_held s) k b k' = claim_held s k'" by (simp add: upd_claim_def)
qed

lemma wp_claimGuard:
  assumes "\<And>s1. objs s1 = objs s \<Longrightarrow> Q () s1" and "\<And>e s1. objs s1 = objs s \<Longrightarrow> E e s1"
  shows "wpre (claimGuard B ctx) Q E s"
  unfolding claimGuard_def wpre_andThen
  by (rule wpreI) (use assms keepsD [OF blob_ctx] in \<open>auto simp: wp\<close>)

lemma wp_TryCreateClaim:
  fixes r
  defines "k \<equiv> ClaimKeyFromProto (cr_Key r)"
  shows "wpre (TryCreateClaim B ctx r)
    (\<lambda>b s1. b = (\<not> claim_held s k) \<and> claim_held s1 = upd_claim (claim_held s) k True)
    (\<lambda>_ s1. claim_held s1 = claim_held s \<or> claim_held s1 = upd_claim (claim_held s) k True) s"
  unfolding TryCreateClaim_def Let_def wpre_andThen k_def [symmetric]
proof (rule wp_claimGuard, goal_cases)
  case (1 s1)
  have same: "claim_held s1 = claim_held s" by (rule claim_held_same [OF 1])
  have put: "wpre (bk_WriteAll B ctx p b)
      (\<lambda>_ s2. \<not> claim_held s k \<and> claim_held s2 = upd_claim (claim_held s) k True)
      (\<lambda>e s2. (refused e \<longrightarrow> claim_held s k) \<and> (claim_held s2 = claim_held s \<or> \<not> refused e \<and> claim_held s2 = upd_claim (claim_held s) k True)) s1"
    if p: "ClaimKey_Path k = Inr p" for p b
  proof (rule wpreI)
    fix u s2 assume "bk_WriteAll B ctx p b s1 = (Inr u, s2)"
    from blob_write [OF this] p same show "\<not> claim_held s k \<and> claim_held s2 = upd_claim (claim_held s) k True"
      using claim_held_upd [OF p, of s2 s1 "Some b"] claim_held_at [OF p, of s1] by simp
  next
    fix e s2 assume "bk_WriteAll B ctx p b s1 = (Inl e, s2)"
    from blob_write_error [OF this] p same
    show "(refused e \<longrightarrow> claim_held s k) \<and> (claim_held s2 = claim_held s \<or> \<not> refused e \<and> claim_held s2 = upd_claim (claim_held s) k True)"
      using claim_held_upd [OF p, of s2 s1 "Some b"] claim_held_same [of s2 s1] claim_held_at [OF p, of s1] by auto
  qed
  have put': "wpre (bk_WriteAll B ctx p b)
      (\<lambda>_. wpre (ret True) (\<lambda>b s1. b = (\<not> claim_held s k) \<and> claim_held s1 = upd_claim (claim_held s) k True) E)
      (\<lambda>e. wpre (if gcerrors_Is e GcFailedPrecondition \<or> gcerrors_Is e GcAlreadyExists then ret False else fail e)
        (\<lambda>b s1. b = (\<not> claim_held s k) \<and> claim_held s1 = upd_claim (claim_held s) k True)
        (\<lambda>_ s1. claim_held s1 = claim_held s \<or> claim_held s1 = upd_claim (claim_held s) k True)) s1"
    if p: "ClaimKey_Path k = Inr p" for p b E
    by (rule wpre_mono [OF put [OF p]]) (auto simp: wp refused_def upd_claim_id)
  show ?case using same put' by (auto simp: wpre_lift wpre_attempt split: sum.split)
qed (auto dest: claim_held_same)

lemma wp_DeleteClaim:
  "wpre (DeleteClaim B ctx k) (\<lambda>b s1. b = claim_held s k \<and> claim_held s1 = upd_claim (claim_held s) k False)
    (\<lambda>_ s1. claim_held s1 = claim_held s \<or> claim_held s1 = upd_claim (claim_held s) k False) s"
  unfolding DeleteClaim_def wpre_andThen
proof (rule wp_claimGuard, goal_cases)
  case (1 s1)
  have same: "claim_held s1 = claim_held s" by (rule claim_held_same [OF 1])
  have tail: "wpre (bk_Exists B ctx p) (\<lambda>b. wpre (if \<not> b then ret False
      else andThen (attempt (bk_Delete B ctx p)) (\<lambda>gone.
        case gone of Inl err \<Rightarrow> if gcerrors_Is err GcNotFound then ret False else fail err | Inr _ \<Rightarrow> ret True))
      (\<lambda>b s1. b = claim_held s k \<and> claim_held s1 = upd_claim (claim_held s) k False)
      (\<lambda>_ s1. claim_held s1 = claim_held s \<or> claim_held s1 = upd_claim (claim_held s) k False))
      (\<lambda>_ s1. claim_held s1 = claim_held s \<or> claim_held s1 = upd_claim (claim_held s) k False) s1"
    if p: "ClaimKey_Path k = Inr p" for p
  proof (rule wpreI)
    fix b s2 assume ex: "bk_Exists B ctx p s1 = (Inr b, s2)"
    then have b: "b = claim_held s k" and s2: "claim_held s2 = claim_held s" "claim_held s k = (objs s2 p \<noteq> None)"
      using blob_exists [OF ex] same claim_held_same [of s2 s1] claim_held_at [OF p, of s1] by auto
    have "wpre (bk_Delete B ctx p) (\<lambda>_ s3. claim_held s3 = upd_claim (claim_held s) k False)
        (\<lambda>e s3. (gcerrors_Is e GcNotFound \<longrightarrow> \<not> claim_held s k) \<and>
          (claim_held s3 = claim_held s \<or> claim_held s3 = upd_claim (claim_held s) k False)) s2"
    proof (rule wpreI)
      fix u s3 assume "bk_Delete B ctx p s2 = (Inr u, s3)"
      from blob_delete [OF this] claim_held_upd [OF p, of s3 s2 None] s2
      show "claim_held s3 = upd_claim (claim_held s) k False" by simp
    next
      fix e s3 assume "bk_Delete B ctx p s2 = (Inl e, s3)"
      from blob_delete_error [OF this] claim_held_upd [OF p, of s3 s2 None] claim_held_same [of s3 s2] s2
      show "(gcerrors_Is e GcNotFound \<longrightarrow> \<not> claim_held s k) \<and>
          (claim_held s3 = claim_held s \<or> claim_held s3 = upd_claim (claim_held s) k False)" by auto
    qed
    with b s2 show "wpre (if \<not> b then ret False
      else andThen (attempt (bk_Delete B ctx p)) (\<lambda>gone.
        case gone of Inl err \<Rightarrow> if gcerrors_Is err GcNotFound then ret False else fail err | Inr _ \<Rightarrow> ret True))
      (\<lambda>b s1. b = claim_held s k \<and> claim_held s1 = upd_claim (claim_held s) k False)
      (\<lambda>_ s1. claim_held s1 = claim_held s \<or> claim_held s1 = upd_claim (claim_held s) k False) s2"
      by (auto simp: wp upd_claim_id elim!: wpre_mono)
  next
    fix e s2 assume "bk_Exists B ctx p s1 = (Inl e, s2)"
    from blob_exists [OF this] same claim_held_same [of s2 s1]
    show "claim_held s2 = claim_held s \<or> claim_held s2 = upd_claim (claim_held s) k False" by simp
  qed
  show ?case using same tail by (auto simp: wpre_lift split: sum.split)
qed (auto dest: claim_held_same)

lemma wp_GetClaim:
  "wpre (GetClaim B ctx k) (\<lambda>x s1. claim_held s1 = claim_held s \<and> claim_held s k = (x \<noteq> None)) (\<lambda>_ s1. claim_held s1 = claim_held s) s"
  unfolding GetClaim_def wpre_andThen
proof (rule wp_claimGuard, goal_cases)
  case (1 s1)
  have same: "claim_held s1 = claim_held s" by (rule claim_held_same [OF 1])
  have tail: "wpre (bk_ReadAll B ctx p)
      (\<lambda>b s2. claim_held s2 = claim_held s \<and> claim_held s k)
      (\<lambda>e s2. claim_held s2 = claim_held s \<and> (gcerrors_Is e GcNotFound \<longrightarrow> \<not> claim_held s k)) s1"
    if p: "ClaimKey_Path k = Inr p" for p
    by (rule wpreI; use blob_read [of ctx p s1] claim_held_same [of _ s1] same claim_held_at [OF p, of s1] in auto)
  have got: "wpre (attempt (bk_ReadAll B ctx p)) (\<lambda>got. wpre (case got of
      Inl err \<Rightarrow> if gcerrors_Is err GcNotFound then ret None else fail err
    | Inr data \<Rightarrow> (case unmarshal_claim B data of
          None \<Rightarrow> fail (Wrapped ''decode claim payload'' [Sentinel ErrCorruptRecord, Plain ''unmarshal''])
        | Some record \<Rightarrow> andThen (lift (ValidateClaimRecord (Some record) k)) (\<lambda>_. ret (Some record))))
      (\<lambda>x s1. claim_held s1 = claim_held s \<and> claim_held s k = (x \<noteq> None)) (\<lambda>_ s1. claim_held s1 = claim_held s)) E s1"
    if p: "ClaimKey_Path k = Inr p" for p E
    unfolding wpre_attempt
    by (rule wpre_mono [OF tail [OF p]]) (auto simp: wp split: option.splits sum.splits)
  show ?case using same got by (auto simp: wpre_lift split: sum.split)
qed (auto dest: claim_held_same)

lemma keeps_claimGuard: "keeps objs (claimGuard B ctx)"
  unfolding claimGuard_def by (intro frame blob_ctx)

lemma keeps_read: "keeps objs (bk_ReadAll B ctx p)"
  by (rule keepsI) (use blob_read in blast)

lemma keeps_listClaims_loop: "keeps objs (listClaims_loop B ctx key xs stop records)"
proof (induction xs arbitrary: records)
  case Nil
  show ?case by (auto intro!: frame split: option.splits)
next
  case (Cons x xs)
  obtain objectKey isDir where "x = (objectKey, isDir)" by (cases x)
  with Cons show ?case by (auto simp: listedClaim_def Let_def intro!: frame keeps_read split: option.splits)
qed

lemma keeps_ListClaims: "keeps objs (ListClaims B ctx key)"
  unfolding ListClaims_def by (intro frame keeps_claimGuard keeps_listClaims_loop blob_list)

lemma gocdk_claim_laws: "claim_laws (GoCDKClaims B) claim_held"
proof (unfold_locales, goal_cases)
  case (1 s k)
  show ?case by (simp add: claim_held_def ClaimKey_Path_def)
next
  case (2 ctx r s b s1)
  then show ?case using wpre_InrD [OF wp_TryCreateClaim, of ctx r s b s1] by (simp add: GoCDKClaims_def)
next
  case (3 ctx r s e s1)
  then show ?case using wpre_InlD [OF wp_TryCreateClaim, of ctx r s e s1] by (simp add: GoCDKClaims_def)
next
  case (4 ctx k s b s1)
  then show ?case using wpre_InrD [OF wp_DeleteClaim, of ctx k s b s1] by (simp add: GoCDKClaims_def)
next
  case (5 ctx k s e s1)
  then show ?case using wpre_InlD [OF wp_DeleteClaim, of ctx k s e s1] by (simp add: GoCDKClaims_def)
next
  case (6 ctx k s r s1)
  then show ?case
    using wpre_InrD [OF wp_GetClaim, of ctx k s _ s1] wpre_InlD [OF wp_GetClaim, of ctx k s _ s1]
    by (cases r) (simp_all add: GoCDKClaims_def)
next
  case (7 ctx wk)
  show ?case using keeps_ListClaims [of ctx wk] by (auto simp: GoCDKClaims_def keeps_def intro!: claim_held_same)
next
  case (8 ctx)
  show ?case by (simp add: GoCDKClaims_def ClaimCapability_gocdk_def frame)
qed

end

sublocale blob_laws \<subseteq> gocdk: claim_laws "GoCDKClaims B" claim_held
  by (rule gocdk_claim_laws)

section \<open>Claims beside the records\<close>

text \<open>
  Claims may live in the bucket of the records: their paths are disjoint from every path that
  a record, a pointer or a ledger entry can have.
\<close>

lemma claim_frame:
  assumes "ClaimKey_Path k = Inr p"
  shows "database_of X (obs(p := x)) = database_of X obs"
  using assms view_frame [of "ObjClaim k" p, where X = X and obs = obs] timer_view_frame [of "ObjClaim k" p X obs]
  by (simp add: database_of_def)

context blob_laws
begin

lemma keeps_database_write:
  assumes "ClaimKey_Path k = Inr p"
  shows "keeps (\<lambda>s. database_of X (objs s)) (bk_WriteAll B ctx p b)" "keeps (\<lambda>s. database_of X (objs s)) (bk_Delete B ctx p)"
proof -
  note fr = claim_frame [OF assms]
  show "keeps (\<lambda>s. database_of X (objs s)) (bk_WriteAll B ctx p b)"
  proof (rule keepsI)
    fix s r s1 assume "bk_WriteAll B ctx p b s = (r, s1)"
    then show "database_of X (objs s1) = database_of X (objs s)"
      using blob_write [of ctx p b s _ s1] blob_write_error [of ctx p b s _ s1] fr by (cases r) auto
  qed
  show "keeps (\<lambda>s. database_of X (objs s)) (bk_Delete B ctx p)"
  proof (rule keepsI)
    fix s r s1 assume "bk_Delete B ctx p s = (r, s1)"
    then show "database_of X (objs s1) = database_of X (objs s)"
      using blob_delete [of ctx p s _ s1] blob_delete_error [of ctx p s _ s1] fr by (cases r) auto
  qed
qed

lemma keeps_database:
  assumes "keeps objs m"
  shows "keeps (\<lambda>s. database_of X (objs s)) m"
  using assms by (simp add: keeps_def)

lemma keeps_andThen_lift: "(\<And>a. r = Inr a \<Longrightarrow> keeps ob (f a)) \<Longrightarrow> keeps ob (andThen (lift r) f)"
  by (cases r) (simp_all add: frame)

lemma claims_keep_database:
  "keeps (\<lambda>s. database_of X (objs s)) (cs_TryCreateClaim (GoCDKClaims B) ctx r)"
  "keeps (\<lambda>s. database_of X (objs s)) (cs_DeleteClaim (GoCDKClaims B) ctx k)"
  "keeps (\<lambda>s. database_of X (objs s)) (cs_GetClaim (GoCDKClaims B) ctx k)"
  "keeps (\<lambda>s. database_of X (objs s)) (cs_ListClaims (GoCDKClaims B) ctx wk)"
  "keeps (\<lambda>s. database_of X (objs s)) (cs_ClaimCapability (GoCDKClaims B) ctx)"
proof -
  note guard = keeps_database [OF keeps_claimGuard]
  have ex: "keeps objs (bk_Exists B ctx p)" for ctx p by (rule keepsI) (use blob_exists in blast)
  show "keeps (\<lambda>s. database_of X (objs s)) (cs_TryCreateClaim (GoCDKClaims B) ctx r)"
    unfolding GoCDKClaims_def TryCreateClaim_def Let_def ClaimStore.simps
    by (intro keeps_andThen guard keeps_andThen_lift keeps_attempt keeps_lift keeps_database_write)
      (auto intro!: frame split: sum.split)
  show "keeps (\<lambda>s. database_of X (objs s)) (cs_DeleteClaim (GoCDKClaims B) ctx k)"
    unfolding GoCDKClaims_def DeleteClaim_def ClaimStore.simps
    by (intro keeps_andThen guard keeps_andThen_lift keeps_if keeps_ret keeps_attempt keeps_database [OF ex] keeps_database_write)
      (auto intro!: frame split: sum.split)
  show "keeps (\<lambda>s. database_of X (objs s)) (cs_GetClaim (GoCDKClaims B) ctx k)"
    unfolding GoCDKClaims_def GetClaim_def ClaimStore.simps
    by (intro frame guard keeps_database [OF keeps_read])
  show "keeps (\<lambda>s. database_of X (objs s)) (cs_ListClaims (GoCDKClaims B) ctx wk)"
    unfolding GoCDKClaims_def ClaimStore.simps by (rule keeps_database [OF keeps_ListClaims])
  show "keeps (\<lambda>s. database_of X (objs s)) (cs_ClaimCapability (GoCDKClaims B) ctx)"
    unfolding GoCDKClaims_def ClaimStore.simps ClaimCapability_gocdk_def by (rule keeps_ret)
qed

end

section \<open>A bucket in memory\<close>

text \<open>GoCDK's memory driver, on the objects of the in-memory operator.\<close>

definition mem_blob :: "(memory, message) blob" where
  "mem_blob = codec.extend (codec.truncate mem_env) \<lparr>
     bk_Present = True,
     bk_CtxErr = ctx_Err mem_env,
     bk_ReadAll = (\<lambda>c p s. (case mem_lookup s p of None \<Rightarrow> Inl (GcError GcNotFound) | Some b \<Rightarrow> Inr b, s)),
     bk_WriteAll = (\<lambda>c p b s. if \<not> file_path p then (Inl (GcError (GcOther 3)), s)
        else if mem_lookup s p \<noteq> None then (Inl (GcError GcFailedPrecondition), s) else op_Write mem_env p b s),
     bk_Exists = (\<lambda>c p s. (Inr (mem_lookup s p \<noteq> None), s)),
     bk_Delete = (\<lambda>c p s. if mem_lookup s p = None then (Inl (GcError GcNotFound), s) else op_Delete mem_env p s),
     bk_List = (\<lambda>c p s. (Inr (map (\<lambda>q. (q, False)) (filter (prefix p) (mem_keys s)), None), s))\<rparr>"

lemma mem_mutate_error: "mem_mutate f s = (Inl e, s1) \<Longrightarrow> s1 = s \<and> e = OpenDALError (CodeOther 1)"
  by (auto simp: mem_mutate_def split: if_splits)

lemma gcerrors_Is_simps [simp]: "gcerrors_Is (GcError c) d \<longleftrightarrow> c = d" "\<not> gcerrors_Is (OpenDALError x) d"
  by (simp_all add: gcerrors_Is_def errors_As_def)

interpretation mem_claims: blob_laws mem_blob mem_lookup
proof (unfold_locales, goal_cases)
  case (5 c p b s u s1)
  then show ?case
    by (auto simp: mem_blob_def codec.defs mem_env_def mem_mutate_def mem_lookup_write split: if_splits)
next
  case (6 c p b s e s1)
  then show ?case
    by (auto simp: mem_blob_def codec.defs mem_env_def refused_def dest!: mem_mutate_error split: if_splits)
next
  case (7 c p s u s1)
  then have "file_path p" using mem_lookup_file by (auto simp: mem_blob_def codec.defs split: if_splits)
  with 7 show ?case
    by (auto simp: mem_blob_def codec.defs mem_env_def mem_mutate_def mem_lookup_delete split: if_splits)
next
  case (8 c p s e s1)
  then show ?case
    by (auto simp: mem_blob_def codec.defs mem_env_def dest!: mem_mutate_error split: if_splits)
qed (auto simp: mem_blob_def codec.defs mem_env_def keeps_def split: option.splits)

section \<open>Property\<close>


definition claim_example :: "string \<Rightarrow> ClaimRecord" where
  "claim_example owner = \<lparr>cr_SchemaVersion = RECORD_SCHEMA_VERSION_CLAIM, cr_Key = Some (NewClaimKey ''orders'' ''r1'' ''workflow:execution''),
     cr_OwnerId = owner, cr_ResourceType = CLAIM_RESOURCE_TYPE_WORKFLOW, cr_ResourceId = ''orders'',
     cr_LeaseExpiresAt = None, cr_CreatedAt = None, cr_HeartbeatAt = None\<rparr>"

definition claim_script :: "(context \<times> claim_op) list" where
  "claim_script = [(Caller, TryCreate (claim_example ''a'')), (Caller, TryCreate (claim_example ''b'')),
     (Detached, Release (NewClaimKey ''orders'' ''r1'' ''workflow:execution'')), (Caller, TryCreate (claim_example ''b''))]"


end
