(* ===== verification/Activity.thy ===== *)
theory Activity
  imports Claims
begin

text \<open>
  Activities of \<open>core/go/workflow\<close>: \<open>runActivity\<close> and \<open>ExecuteActivity\<close> of \<open>workflow.go\<close>, and the
  containment of user panics of \<open>panic.go\<close>.

  An activity's handler is the application's code: any change of the world, ending in a result,
  an error or a panic. The lemmas and properties of these definitions are in \<open>ActivityDurable\<close>.
\<close>

section \<open>User code\<close>

text \<open>
  A recovered panic value: the text of \<open>%T\<close> and that of \<open>Sprint\<close>, which may itself panic. A call
  of user code returns a message (a nil one is \<open>None\<close>) or an error, or panics.
\<close>

record panicValue =
  pv_Type :: string
  pv_Text :: "string option"

datatype 'v outcome = Returned "'v option result" | Panicked panicValue

definition formatPanicValue :: "panicValue \<Rightarrow> string" where
  "formatPanicValue value = (case pv_Text value of None \<Rightarrow> pv_Type value | Some t \<Rightarrow> t)"

definition invokeUser :: "string \<Rightarrow> 'v outcome \<Rightarrow> 'v option result" where
  "invokeUser boundary call =
     (case call of
        Returned r \<Rightarrow> r
      | Panicked recovered \<Rightarrow> Inl (UserPanicError boundary (formatPanicValue recovered) []))"

text \<open>A result constructor: a fresh message, perhaps nil, or a panic.\<close>

type_synonym 'v construct = "panicValue + 'v option"

definition invokeUserConstructor :: "string \<Rightarrow> 'v construct \<Rightarrow> 'v option result" where
  "invokeUserConstructor boundary newMessage =
     invokeUser boundary (case newMessage of Inl p \<Rightarrow> Panicked p | Inr v \<Rightarrow> Returned (Inr v))"

definition UserPanicError_Error :: "string \<Rightarrow> string \<Rightarrow> string \<Rightarrow> string" where
  "UserPanicError_Error boundary value message =
     (if message \<noteq> [] then message
      else (if boundary = [] then ''user'' else boundary) @ '' callback panicked: '' @ value)"

definition failureFromError :: "('s, 'r) engine_scheme \<Rightarrow> go_error \<Rightarrow> ActivityFailure" where
  "failureFromError R err =
     (case errors_As is_UserPanicError err of
        Some (UserPanicError b v m) \<Rightarrow>
          \<lparr>af_Code = UserPanicErrorCode, af_Message = UserPanicError_Error b v m, af_RetryAfter = None\<rparr>
      | _ \<Rightarrow>
     (case errors_As is_ActivityError err of
        Some (ActivityError code message retryAfter cause) \<Rightarrow>
          \<lparr>af_Code = code, af_Message = message,
           af_RetryAfter = (if retryAfter > 0 then Some (Duration_New R retryAfter) else None)\<rparr>
      | _ \<Rightarrow> \<lparr>af_Code = [], af_Message = en_ErrorText R err, af_RetryAfter = None\<rparr>))"

text \<open>The annotations of a running body, and its handler.\<close>

type_synonym annotations = "string \<rightharpoonup> string"

type_synonym ('s, 'm, 'v) handler =
  "annotations \<Rightarrow> ('s, 'm) world_scheme \<Rightarrow> ('v outcome \<times> annotations) \<times> ('s, 'm) world_scheme"

definition Annotate :: "string \<Rightarrow> string \<Rightarrow> annotations option \<Rightarrow> annotations option" where
  "Annotate key value bag = map_option (\<lambda>data. data(key \<mapsto> value)) bag"

definition callUser :: "('s, 'm, 'v) handler \<Rightarrow> annotations \<Rightarrow> ('s, 'm, 'v outcome \<times> annotations) wprog" where
  "callUser execute bag w = (case execute bag w of (result, w1) \<Rightarrow> (Inr result, w1))"

section \<open>Options\<close>

record ActivityOptions =
  ao_ActivityId :: string
  ao_RetryPolicy :: "RetryPolicy option"
  ao_RetryTimerId :: string

definition duration_nanos :: "Duration \<Rightarrow> int" where
  "duration_nanos d = du_seconds d * 1000000000 + du_nanos d"

definition optional_segment :: "string \<Rightarrow> bool" where
  "optional_segment s \<longleftrightarrow> s = [] \<or> path_segment s"

text \<open>The rules of \<open>RetryPolicy\<close> and \<open>ActivityOptions\<close> in \<open>temporaless.proto\<close>.\<close>

definition RetryPolicy_rules :: "RetryPolicy \<Rightarrow> bool" where
  "RetryPolicy_rules p \<longleftrightarrow>
     (\<forall>d \<in> set_option (rp_InitialInterval p). duration_nanos d \<ge> 0) \<and>
     (case rp_BackoffCoefficient p of Finite c \<Rightarrow> c \<ge> 0 | _ \<Rightarrow> False) \<and>
     (\<forall>d \<in> set_option (rp_MaximumInterval p). duration_nanos d \<ge> 0) \<and>
     0 < rp_MaximumAttempts p \<and> rp_MaximumAttempts p \<le> 100 \<and>
     (\<forall>d \<in> set_option (rp_DurableBackoffThreshold p). duration_nanos d \<ge> 0) \<and>
     (rp_MaximumAttempts p \<le> 1 \<or> (\<exists>d \<in> set_option (rp_InitialInterval p). duration_nanos d > 0))"

definition ActivityOptions_rules :: "ActivityOptions \<Rightarrow> bool" where
  "ActivityOptions_rules options \<longleftrightarrow> path_segment (ao_ActivityId options) \<and>
     (\<forall>p \<in> set_option (ao_RetryPolicy options). RetryPolicy_rules p) \<and>
     optional_segment (ao_RetryTimerId options) \<and>
     (case ao_RetryPolicy options of
        None \<Rightarrow> True
      | Some p \<Rightarrow> rp_MaximumAttempts p \<le> 1 \<or>
          (\<forall>d \<in> set_option (rp_DurableBackoffThreshold p). duration_nanos d \<le> 0) \<or> ao_RetryTimerId options \<noteq> [])"

section \<open>Replay\<close>

definition assertActivityIdentity :: "ActivityRecord \<Rightarrow> string \<Rightarrow> unit result" where
  "assertActivityIdentity record activityType =
     (if ar_ActivityType record \<noteq> activityType then Inl (activityConflict ''activity type changed'') else Inr ())"

definition replayRecord :: "('v, 'n) messages_scheme \<Rightarrow> ActivityRecord \<Rightarrow> string \<Rightarrow> 'v construct \<Rightarrow> 'v result" where
  "replayRecord M record activityType newResult =
     (case assertActivityIdentity record activityType of
        Inl err \<Rightarrow> Inl err
      | Inr _ \<Rightarrow>
     (case ar_Status record of
        ACTIVITY_STATUS_COMPLETED \<Rightarrow>
         (case ar_Result record of
            None \<Rightarrow> Inl (activityConflict ''stored activity has no result'')
          | Some any \<Rightarrow>
           (case invokeUserConstructor ''activity result constructor'' newResult of
              Inl err \<Rightarrow> Inl err
            | Inr None \<Rightarrow> Inl (Plain ''activity result constructor returned nil'')
            | Inr (Some result) \<Rightarrow> any_UnmarshalTo M any result))
      | ACTIVITY_STATUS_FAILED \<Rightarrow>
         (case ar_Failure record of
            None \<Rightarrow> Inl (activityConflict ''stored failed activity has no failure'')
          | Some failure \<Rightarrow>
              if af_Code failure = UserPanicErrorCode
              then Inl (ActivityError (af_Code failure) (af_Message failure) 0
                     (Some (UserPanicError [] [] (af_Message failure))))
              else Inl (ActivityError (af_Code failure) (af_Message failure) 0 None))
      | _ \<Rightarrow> Inl (activityConflict ''stored activity has unknown status'')))"

section \<open>One invocation of an activity\<close>

text \<open>The workflow with its claim store, and the arguments of one call.\<close>

record 's flow = Workflow +
  wf_claimStore :: "'s ClaimStore option"
  wf_claimCapability :: ClaimCapability
  wf_claimOwner :: string

record 's activityCall =
  ac_flow :: "'s flow"
  ac_ctx :: "context"
  ac_activityID :: string
  ac_activityType :: string
  ac_policy :: "RetryPolicy option"
  ac_retryTimerID :: string
  ac_plan :: retryPlan

definition activityKey :: "'f Workflow_scheme \<Rightarrow> string \<Rightarrow> ActivityKey" where
  "activityKey flow i = \<lparr>Namespace = DefaultNamespace, WorkflowID = wf_workflowID flow, RunID = wf_runID flow, ActivityID = i\<rparr>"

abbreviation ac_key :: "'s activityCall \<Rightarrow> ActivityKey" where
  "ac_key A \<equiv> activityKey (ac_flow A) (ac_activityID A)"

text \<open>Best-effort cleanup of the retry timer of a terminal record.\<close>

definition reconcileRetryTimer :: "('s, 'r) engine_scheme \<Rightarrow> 's activityCall \<Rightarrow> ActivityRecord \<Rightarrow> ('s, 'm, unit) wprog" where
  "reconcileRetryTimer R A record =
     (if activityRecordMayHaveRetryTimer R (en_Conv R) record
      then andThen (attempt (markActivityRetryTimerFired R (ac_ctx A) (ac_flow A) (ac_activityID A) (ar_RetryTimerId record))) (\<lambda>_. ret ())
      else ret ())"

text \<open>A verified scheduled retry timer is a successor wake; then wait for it.\<close>

definition pendingUntil :: "('s, 'r) engine_scheme \<Rightarrow> 's activityCall \<Rightarrow> time \<Rightarrow> ('s, 'm, unit) wprog" where
  "pendingUntil R A wakeAt =
     andThen (attempt (acknowledgeConsumedWakeTimers R [])) (\<lambda>_.
     andThen (time_now R) (\<lambda>now.
     if now < wakeAt then fail (TimerPendingError (ac_retryTimerID A) wakeAt) else ret ()))"

definition pendingIf :: "('s, 'r) engine_scheme \<Rightarrow> 's activityCall \<Rightarrow> time option \<Rightarrow> ('s, 'm, unit) wprog" where
  "pendingIf R A prepared = (case prepared of None \<Rightarrow> ret () | Some wakeAt \<Rightarrow> pendingUntil R A wakeAt)"

definition resumeRetrying :: "('s, 'r) engine_scheme \<Rightarrow> 's activityCall \<Rightarrow> ActivityRecord \<Rightarrow> ('s, 'm, unit) wprog" where
  "resumeRetrying R A record =
     andThen (lift (assertActivityIdentity record (ac_activityType A))) (\<lambda>_.
     andThen (lift (assertRetryingActivity R (en_Conv R) record (ac_policy A) (ac_retryTimerID A) (ac_plan A))) (\<lambda>_.
     if ar_NextAttemptAt record \<noteq> None
     then andThen (ensureActivityRetryTimer R (ac_ctx A) (ac_flow A) (ac_activityID A) (ac_retryTimerID A) (Some record) (ac_plan A))
            (pendingUntil R A)
     else if durableThreshold (ac_plan A) > 0
     then andThen (newerPreparedActivityRetryTimer R (ac_ctx A) (ac_flow A) (ac_activityID A) (ac_retryTimerID A) record (ac_plan A))
            (pendingIf R A)
     else ret ()))"

datatype 'v inspected = Replayed 'v | Proceed

text \<open>What the stored record says: a replay, a reason to stop, or to run from its attempts.\<close>

definition inspectActivity ::
  "('s, 'r) engine_scheme \<Rightarrow> ('v, 'n) messages_scheme \<Rightarrow> 's activityCall \<Rightarrow> 'v construct \<Rightarrow> ActivityRecord option \<Rightarrow>
   ('s, 'm, 'v inspected) wprog" where
  "inspectActivity R M A newResult stored =
     (case stored of
        Some record \<Rightarrow>
          if ar_Status record = ACTIVITY_STATUS_COMPLETED \<or> ar_Status record = ACTIVITY_STATUS_FAILED
          then andThen (reconcileRetryTimer R A record) (\<lambda>_.
               andThen (lift (replayRecord M record (ac_activityType A) newResult)) (\<lambda>v. ret (Replayed v)))
          else if ar_Status record = ACTIVITY_STATUS_RETRYING
          then andThen (resumeRetrying R A record) (\<lambda>_. ret Proceed)
          else fail (activityConflict ''stored activity has unknown status'')
      | None \<Rightarrow>
          if maxAttempts (ac_plan A) > 1 \<and> durableThreshold (ac_plan A) > 0
          then andThen (preparedActivityRetryTimer R (ac_ctx A) (ac_flow A) (ac_activityID A) (ac_retryTimerID A) (ac_plan A)) (\<lambda>prepared.
               andThen (pendingIf R A prepared) (\<lambda>_. ret Proceed))
          else ret Proceed)"

subsection \<open>The activity's claim\<close>

definition DefaultClaimLeaseDuration :: duration where
  "DefaultClaimLeaseDuration = 900 * 1000000000"

definition newClaim ::
  "'w wkt_scheme \<Rightarrow> ClaimKey \<Rightarrow> string \<Rightarrow> ClaimResourceType \<Rightarrow> string \<Rightarrow> duration \<Rightarrow> time \<Rightarrow> ClaimRecord" where
  "newClaim W key ownerID resourceType resourceID leaseDuration now =
     \<lparr>cr_SchemaVersion = RECORD_SCHEMA_VERSION_CLAIM, cr_Key = Some (Proto key), cr_OwnerId = ownerID,
      cr_ResourceType = resourceType, cr_ResourceId = resourceID,
      cr_LeaseExpiresAt = Some (Timestamp_New W (now + leaseDuration)),
      cr_CreatedAt = Some (Timestamp_New W now), cr_HeartbeatAt = Some (Timestamp_New W now)\<rparr>"

definition busyError :: "'w wkt_scheme \<Rightarrow> ClaimKey \<Rightarrow> ClaimCapability \<Rightarrow> ClaimRecord option \<Rightarrow> go_error" where
  "busyError W key capability existing =
     (case existing of
        None \<Rightarrow> ClaimBusyError (ClaimID key) [] zero_time capability
      | Some claim \<Rightarrow> ClaimBusyError (ClaimID key) (cr_OwnerId claim)
          (case cr_LeaseExpiresAt claim of None \<Rightarrow> zero_time | Some t \<Rightarrow> Timestamp_AsTime W t) capability)"

definition activityClaimKey :: "'s activityCall \<Rightarrow> ClaimKey" where
  "activityClaimKey A = \<lparr>Namespace = DefaultNamespace, WorkflowID = wf_workflowID (ac_flow A), RunID = wf_runID (ac_flow A),
     ClaimID = ''activity:'' @ ac_activityID A\<rparr>"

text \<open>\<open>errors.Join\<close> of an outcome and a failed release.\<close>

definition joinRelease :: "'v result \<Rightarrow> go_error \<Rightarrow> go_error" where
  "joinRelease result err = Joined (case result of Inl e \<Rightarrow> [e, err] | Inr _ \<Rightarrow> [err])"

definition releaseActivityClaim :: "'s activityCall \<Rightarrow> 's ClaimStore option \<Rightarrow> 'v result \<Rightarrow> ('s, 'm, 'v) wprog" where
  "releaseActivityClaim A claims result =
     (case claims of
        None \<Rightarrow> lift result
      | Some C \<Rightarrow> andThen (attempt (onInner (cs_DeleteClaim C Detached (activityClaimKey A)))) (\<lambda>gone.
          case gone of
            Inl releaseErr \<Rightarrow> fail (joinRelease result (Wrapped ''activity claim'' [Sentinel ErrClaimRelease, releaseErr]))
          | Inr _ \<Rightarrow> lift result))"

text \<open>
  The loop that takes the claim, with the number of rounds left. \<open>Proceed\<close>: the claim is taken;
  \<open>Replayed v\<close>: the holder of the claim committed a result.
\<close>

fun acquireActivityClaim ::
  "('s, 'r) engine_scheme \<Rightarrow> ('v, 'n) messages_scheme \<Rightarrow> 's activityCall \<Rightarrow> 'v construct \<Rightarrow> 's ClaimStore \<Rightarrow> nat \<Rightarrow>
   ('s, 'm, 'v inspected) wprog" where
  "acquireActivityClaim R M A newResult C 0 = fail (Plain ''failed to acquire activity claim'')"
| "acquireActivityClaim R M A newResult C (Suc n) =
     andThen (time_now R) (\<lambda>now.
     andThen (attempt (onInner (cs_TryCreateClaim C (ac_ctx A) (newClaim R (activityClaimKey A) (wf_claimOwner (ac_flow A))
         CLAIM_RESOURCE_TYPE_ACTIVITY (ac_activityID A) DefaultClaimLeaseDuration now)))) (\<lambda>created.
     case created of
       Inl createErr \<Rightarrow> fail (workflowInfrastructureError ''create activity claim'' createErr)
     | Inr True \<Rightarrow> ret Proceed
     | Inr False \<Rightarrow>
     andThen (attempt (getActivityAuthoritative R (ac_ctx A) (ac_key A))) (\<lambda>got.
     case got of
       Inl freshErr \<Rightarrow> fail (workflowInfrastructureError ''refresh activity after claim race'' freshErr)
     | Inr fresh \<Rightarrow>
     if (case fresh of None \<Rightarrow> False | Some record \<Rightarrow> ar_Status record \<noteq> ACTIVITY_STATUS_RETRYING)
     then andThen (reconcileRetryTimer R A (the fresh)) (\<lambda>_.
          andThen (lift (replayRecord M (the fresh) (ac_activityType A) newResult)) (\<lambda>v. ret (Replayed v)))
     else
     andThen (attempt (onInner (cs_GetClaim C (ac_ctx A) (activityClaimKey A)))) (\<lambda>existing.
     case existing of
       Inl getErr \<Rightarrow> fail (workflowInfrastructureError ''read competing activity claim'' getErr)
     | Inr claim \<Rightarrow>
         if claim \<noteq> None \<or> n = 0
         then fail (busyError R (activityClaimKey A) (wf_claimCapability (ac_flow A)) claim)
         else acquireActivityClaim R M A newResult C n))))"

text \<open>
  Holding the claim: read the record again and inspect it, releasing the claim with whatever
  that says. The result is the record the attempts continue from.
\<close>

datatype 'v holding = Settled 'v | Attempts "ActivityRecord option"

definition inspectHolding ::
  "('s, 'r) engine_scheme \<Rightarrow> ('v, 'n) messages_scheme \<Rightarrow> 's activityCall \<Rightarrow> 'v construct \<Rightarrow> 's ClaimStore \<Rightarrow>
   ('s, 'm, 'v holding) wprog" where
  "inspectHolding R M A newResult C =
     andThen (attempt (getActivityAuthoritative R (ac_ctx A) (ac_key A))) (\<lambda>got.
     case got of
       Inl freshErr \<Rightarrow> releaseActivityClaim A (Some C)
         (Inl (workflowInfrastructureError ''refresh activity after claim acquisition'' freshErr))
     | Inr fresh \<Rightarrow>
     andThen (attempt (inspectActivity R M A newResult fresh)) (\<lambda>inspected.
     case inspected of
       Inl err \<Rightarrow> releaseActivityClaim A (Some C) (Inl err)
     | Inr (Replayed v) \<Rightarrow> releaseActivityClaim A (Some C) (Inr (Settled v))
     | Inr Proceed \<Rightarrow> ret (Attempts fresh)))"

definition claimsOf :: "'s flow \<Rightarrow> 's ClaimStore option" where
  "claimsOf flow = (if wf_claimOwner flow \<noteq> [] then wf_claimStore flow else None)"

definition claimActivity ::
  "('s, 'r) engine_scheme \<Rightarrow> ('v, 'n) messages_scheme \<Rightarrow> 's activityCall \<Rightarrow> 'v construct \<Rightarrow> ActivityRecord option \<Rightarrow>
   ('s, 'm, 'v holding) wprog" where
  "claimActivity R M A newResult stored =
     (case claimsOf (ac_flow A) of
        None \<Rightarrow> ret (Attempts stored)
      | Some C \<Rightarrow> andThen (acquireActivityClaim R M A newResult C 2) (\<lambda>acquired.
          case acquired of
            Replayed v \<Rightarrow> ret (Settled v)
          | Proceed \<Rightarrow> inspectHolding R M A newResult C))"

subsection \<open>The attempts\<close>

text \<open>The fields all three records of an attempt share.\<close>

definition activityRecordOf ::
  "'w wkt_scheme \<Rightarrow> 's activityCall \<Rightarrow> Any \<Rightarrow> ActivityStatus \<Rightarrow> ActivityAttempt list \<Rightarrow> annotations \<Rightarrow> ActivityRecord" where
  "activityRecordOf W A inputAny status attempts bag =
     \<lparr>ar_SchemaVersion = RECORD_SCHEMA_VERSION_ACTIVITY, ar_Key = Some (Proto (ac_key A)),
      ar_ActivityType = ac_activityType A, ar_Input = Some inputAny, ar_Status = status, ar_Result = None,
      ar_Failure = None, ar_CreatedAt = Some (Timestamp_New W (asTime W (aa_StartedAt (hd attempts)))),
      ar_CompletedAt = None, ar_Attempts = attempts, ar_Annotations = bag, ar_NextAttemptAt = None,
      ar_RetryPolicy = ac_policy A, ar_RetryTimerId = ac_retryTimerID A\<rparr>"

definition sleepCtx :: "('s, 'r) engine_scheme \<Rightarrow> context \<Rightarrow> duration \<Rightarrow> ('s, 'm, unit) wprog" where
  "sleepCtx R ctx duration = (if duration \<le> 0 then onInner (en_CtxErr R ctx) else onInner (en_Wait R ctx duration))"

datatype 'v progress = Done 'v | Again "ActivityAttempt list" annotations

definition completeAttempt ::
  "('s, 'r) engine_scheme \<Rightarrow> ('v, 'n) messages_scheme \<Rightarrow> 's activityCall \<Rightarrow> Any \<Rightarrow> ActivityAttempt list \<Rightarrow> annotations \<Rightarrow>
   time \<Rightarrow> 'v \<Rightarrow> ('s, 'm, 'v progress) wprog" where
  "completeAttempt R M A inputAny attempts bag completedAt result =
     andThen (lift (any_New M result)) (\<lambda>resultAny.
     let completedRecord = activityRecordOf R A inputAny ACTIVITY_STATUS_COMPLETED attempts bag
           \<lparr>ar_Result := Some resultAny, ar_CompletedAt := Some (Timestamp_New R completedAt)\<rparr> in
     andThen (attempt (cPutActivity (rt_Store R) (ac_ctx A) completedRecord)) (\<lambda>put.
     case put of
       Inl err \<Rightarrow> fail (workflowInfrastructureError ''persist completed activity'' err)
     | Inr _ \<Rightarrow> andThen (reconcileRetryTimer R A completedRecord) (\<lambda>_.
         releaseActivityClaim A (claimsOf (ac_flow A)) (Inr (Done result)))))"

definition failActivity ::
  "('s, 'r) engine_scheme \<Rightarrow> 's activityCall \<Rightarrow> Any \<Rightarrow> ActivityAttempt list \<Rightarrow> annotations \<Rightarrow>
   time \<Rightarrow> ActivityFailure \<Rightarrow> go_error \<Rightarrow> ('s, 'm, 'v progress) wprog" where
  "failActivity R A inputAny attempts bag completedAt failure runErr =
     (let failedRecord = activityRecordOf R A inputAny ACTIVITY_STATUS_FAILED attempts bag
           \<lparr>ar_Failure := Some failure, ar_CompletedAt := Some (Timestamp_New R completedAt)\<rparr> in
     andThen (attempt (cPutActivity (rt_Store R) (ac_ctx A) failedRecord)) (\<lambda>put.
     case put of
       Inl err \<Rightarrow> fail (workflowInfrastructureError ''persist failed activity'' err)
     | Inr _ \<Rightarrow> andThen (reconcileRetryTimer R A failedRecord) (\<lambda>_.
         releaseActivityClaim A (claimsOf (ac_flow A))
           (Inl (ActivityError (af_Code failure) (af_Message failure) 0 (Some runErr))))))"

text \<open>The timer first, then the record, then the wake of this invocation.\<close>

definition durableRetry ::
  "('s, 'r) engine_scheme \<Rightarrow> 's activityCall \<Rightarrow> ActivityRecord \<Rightarrow> duration \<Rightarrow> ('s, 'm, 'v progress) wprog" where
  "durableRetry R A retryingRecord0 interval =
     andThen (time_now R) (\<lambda>now.
     let retryingRecord = retryingRecord0\<lparr>ar_NextAttemptAt := Some (Timestamp_New R (now + interval))\<rparr> in
     andThen (attempt (ensureActivityRetryTimer R (ac_ctx A) (ac_flow A) (ac_activityID A) (ac_retryTimerID A)
         (Some retryingRecord) (ac_plan A))) (\<lambda>ensured.
     case ensured of
       Inl timerErr \<Rightarrow> releaseActivityClaim A (claimsOf (ac_flow A)) (Inl timerErr)
     | Inr effectiveWakeAt \<Rightarrow>
     andThen (attempt (releaseActivityClaim A (claimsOf (ac_flow A)) (Inr ()))) (\<lambda>released.
     case released of
       Inl releaseErr \<Rightarrow> fail (activityRetryTimerRepairPending (ac_retryTimerID A) effectiveWakeAt
         ''release activity claim after preparing retry timer'' releaseErr)
     | Inr _ \<Rightarrow>
     andThen (attempt (cPutActivity (rt_Store R) (ac_ctx A) retryingRecord)) (\<lambda>put.
     case put of
       Inl err \<Rightarrow> fail (activityRetryTimerRepairPending (ac_retryTimerID A) effectiveWakeAt
         ''persist RETRYING activity after preparing retry timer'' err)
     | Inr _ \<Rightarrow> andThen (attempt (acknowledgeConsumedWakeTimers R [])) (\<lambda>_.
         fail (TimerPendingError (ac_retryTimerID A) effectiveWakeAt))))))"

definition inProcessRetry ::
  "('s, 'r) engine_scheme \<Rightarrow> 's activityCall \<Rightarrow> ActivityRecord \<Rightarrow> duration \<Rightarrow> ('s, 'm, 'v progress) wprog" where
  "inProcessRetry R A retryingRecord interval =
     andThen (attempt (cPutActivity (rt_Store R) (ac_ctx A) retryingRecord)) (\<lambda>put.
     case put of
       Inl err \<Rightarrow> fail (workflowInfrastructureError ''persist retrying activity'' err)
     | Inr _ \<Rightarrow>
     andThen (attempt (sleepCtx R (ac_ctx A) interval)) (\<lambda>slept.
     case slept of
       Inl err \<Rightarrow> releaseActivityClaim A (claimsOf (ac_flow A))
         (Inl (workflowInfrastructureError ''wait for activity retry backoff'' err))
     | Inr _ \<Rightarrow> ret (Again (ar_Attempts retryingRecord) (ar_Annotations retryingRecord))))"

definition retryActivity ::
  "('s, 'r) engine_scheme \<Rightarrow> 's activityCall \<Rightarrow> Any \<Rightarrow> nat \<Rightarrow> ActivityAttempt list \<Rightarrow> annotations \<Rightarrow>
   ActivityFailure \<Rightarrow> ('s, 'm, 'v progress) wprog" where
  "retryActivity R A inputAny attemptIdx attempts bag failure =
     (let retryingRecord = activityRecordOf R A inputAny ACTIVITY_STATUS_RETRYING attempts bag\<lparr>ar_Failure := Some failure\<rparr> in
     andThen (lift (retryIntervalAfterAttempt (en_Conv R) attemptIdx (ac_plan A))) (\<lambda>policyInterval.
     let retryAfter = asDuration R (af_RetryAfter failure);
         interval = (if retryAfter > policyInterval then retryAfter else policyInterval) in
     if durableThreshold (ac_plan A) > 0 \<and> interval \<ge> durableThreshold (ac_plan A)
     then durableRetry R A retryingRecord interval
     else inProcessRetry R A retryingRecord interval))"

definition runAttempt ::
  "('s, 'r) engine_scheme \<Rightarrow> ('v, 'n) messages_scheme \<Rightarrow> 's activityCall \<Rightarrow> Any \<Rightarrow> ('s, 'm, 'v) handler \<Rightarrow> nat \<Rightarrow>
   ActivityAttempt list \<Rightarrow> annotations \<Rightarrow> ('s, 'm, 'v progress) wprog" where
  "runAttempt R M A inputAny execute attemptIdx attempts bag0 =
     andThen (time_now R) (\<lambda>startedAt.
     andThen (callUser execute bag0) (\<lambda>(call, bag).
     andThen (time_now R) (\<lambda>completedAt.
     let run = invokeUser ''activity'' call;
         attemptOf = (\<lambda>failure. \<lparr>aa_Attempt = attemptIdx, aa_StartedAt = Some (Timestamp_New R startedAt),
           aa_CompletedAt = Some (Timestamp_New R completedAt), aa_Failure = failure\<rparr>) in
     case run of
       Inr (Some result) \<Rightarrow> completeAttempt R M A inputAny (attempts @ [attemptOf None]) bag completedAt result
     | _ \<Rightarrow>
     let invalidResult = \<not> isl run;
         runErr = (case run of Inl e \<Rightarrow> e | Inr _ \<Rightarrow> Plain ''activity returned a nil result'');
         failure = failureFromError R runErr;
         attempts1 = attempts @ [attemptOf (Some failure)];
         stop = (invalidResult \<or> errors_As is_UserPanicError runErr \<noteq> None \<or>
           af_Code failure = UserPanicErrorCode \<or> isNonRetryable (ac_plan A) (af_Code failure)) in
     if attemptIdx \<ge> maxAttempts (ac_plan A) \<or> stop
     then failActivity R A inputAny attempts1 bag completedAt failure runErr
     else retryActivity R A inputAny attemptIdx attempts1 bag failure)))"

text \<open>The loop over the attempts, given their ordinals.\<close>

fun runAttempts ::
  "('s, 'r) engine_scheme \<Rightarrow> ('v, 'n) messages_scheme \<Rightarrow> 's activityCall \<Rightarrow> Any \<Rightarrow> ('s, 'm, 'v) handler \<Rightarrow> nat list \<Rightarrow>
   ActivityAttempt list \<Rightarrow> annotations \<Rightarrow> ('s, 'm, 'v) wprog" where
  "runAttempts R M A inputAny execute [] attempts bag = fail (Plain ''activity exhausted retry plan'')"
| "runAttempts R M A inputAny execute (attemptIdx # rest) attempts bag =
     andThen (runAttempt R M A inputAny execute attemptIdx attempts bag) (\<lambda>step.
     case step of
       Done v \<Rightarrow> ret v
     | Again attempts1 bag1 \<Rightarrow> runAttempts R M A inputAny execute rest attempts1 bag1)"

definition executeActivity ::
  "('s, 'r) engine_scheme \<Rightarrow> ('v, 'n) messages_scheme \<Rightarrow> 's activityCall \<Rightarrow> Any \<Rightarrow> ('s, 'm, 'v) handler \<Rightarrow>
   ActivityRecord option \<Rightarrow> ('s, 'm, 'v) wprog" where
  "executeActivity R M A inputAny execute stored =
     (let attempts = (case stored of None \<Rightarrow> [] | Some record \<Rightarrow> ar_Attempts record);
          bag = (case stored of None \<Rightarrow> Map.empty | Some record \<Rightarrow> ar_Annotations record);
          startIdx = (length attempts mod 2 ^ 32 + 1) mod 2 ^ 32 in
      runAttempts R M A inputAny execute [startIdx..<Suc (maxAttempts (ac_plan A))] attempts bag)"

text \<open>From the stored record on.\<close>

definition runRecorded ::
  "('s, 'r) engine_scheme \<Rightarrow> ('v, 'n) messages_scheme \<Rightarrow> 's activityCall \<Rightarrow> 'v \<Rightarrow> 'v construct \<Rightarrow> ('s, 'm, 'v) handler \<Rightarrow>
   ('s, 'm, 'v) wprog" where
  "runRecorded R M A input newResult execute =
     andThen (attempt (cGetActivity (rt_Store R) (ac_ctx A) (ac_key A))) (\<lambda>got.
     case got of
       Inl err \<Rightarrow> fail (workflowInfrastructureError ''read activity'' err)
     | Inr stored \<Rightarrow>
     andThen (inspectActivity R M A newResult stored) (\<lambda>inspected.
     case inspected of
       Replayed v \<Rightarrow> ret v
     | Proceed \<Rightarrow>
     andThen (lift (any_New M input)) (\<lambda>inputAny.
     andThen (claimActivity R M A newResult stored) (\<lambda>held.
     case held of
       Settled v \<Rightarrow> ret v
     | Attempts current \<Rightarrow> executeActivity R M A inputAny execute current))))"

definition runActivity ::
  "('s, 'r) engine_scheme \<Rightarrow> ('v, 'n) messages_scheme \<Rightarrow> context \<Rightarrow> 's flow option \<Rightarrow> string \<Rightarrow> string \<Rightarrow> RetryPolicy option \<Rightarrow>
   string \<Rightarrow> 'v option \<Rightarrow> 'v construct option \<Rightarrow> ('s, 'm, 'v) handler option \<Rightarrow> ('s, 'm, 'v) wprog" where
  "runActivity R M ctx workflow activityID activityType retryPolicy retryTimerID input newResult execute =
     (case workflow of None \<Rightarrow> fail (Plain ''workflow is required'') | Some flow \<Rightarrow>
     andThen (lift (protovalidate (ActivityOptions_rules
       \<lparr>ao_ActivityId = activityID, ao_RetryPolicy = retryPolicy, ao_RetryTimerId = retryTimerID\<rparr>))) (\<lambda>_.
     if activityType = [] then fail (Plain ''activity type is required'')
     else case input of None \<Rightarrow> fail (Plain ''activity input is required'') | Some message \<Rightarrow>
     case newResult of None \<Rightarrow> fail (Plain ''activity result constructor is required'') | Some newMessage \<Rightarrow>
     case execute of None \<Rightarrow> fail (Plain ''activity executor is required'') | Some body \<Rightarrow>
     andThen (lift (planRetries R (en_Conv R) retryPolicy)) (\<lambda>plan.
     runRecorded R M \<lparr>ac_flow = flow, ac_ctx = ctx, ac_activityID = activityID, ac_activityType = activityType,
       ac_policy = normalizeRetryPolicy R retryPolicy plan, ac_retryTimerID = retryTimerID, ac_plan = plan\<rparr>
       message newMessage body)))"

section \<open>The public entry points\<close>

definition messagePairType :: "('v, 'n) messages_scheme \<Rightarrow> string \<Rightarrow> 'v \<Rightarrow> 'v \<Rightarrow> string" where
  "messagePairType M kind input output = kind @ '':'' @ msg_FullName M input @ ''->'' @ msg_FullName M output"

definition ExecuteActivity ::
  "('s, 'r) engine_scheme \<Rightarrow> ('v, 'n) messages_scheme \<Rightarrow> context \<Rightarrow> 's flow option \<Rightarrow> ActivityOptions option \<Rightarrow>
   'v option \<Rightarrow> 'v construct option \<Rightarrow> ('v \<Rightarrow> ('s, 'm, 'v) handler) option \<Rightarrow> ('s, 'm, 'v) wprog" where
  "ExecuteActivity R M ctx workflow options input newResult execute =
     andThen (lift (Current workflow)) (\<lambda>flow.
     case options of None \<Rightarrow> fail (Plain ''activity options are required'') | Some opts \<Rightarrow>
     andThen (lift (protovalidate (ActivityOptions_rules opts))) (\<lambda>_.
     case input of None \<Rightarrow> fail (Plain ''activity input is required'') | Some message \<Rightarrow>
     case newResult of None \<Rightarrow> fail (Plain ''activity result constructor is required'') | Some newMessage \<Rightarrow>
     case execute of None \<Rightarrow> fail (Plain ''activity executor is required'') | Some body \<Rightarrow>
     andThen (lift (invokeUserConstructor ''activity result constructor'' newMessage)) (\<lambda>template.
     case template of None \<Rightarrow> fail (Plain ''activity result constructor returned nil'') | Some result \<Rightarrow>
     runActivity R M ctx (Some flow) (ao_ActivityId opts) (messagePairType M ''activity'' message result)
       (ao_RetryPolicy opts) (ao_RetryTimerId opts) input newResult (Some (body message)))))"

end
