(* ===== verification/ActivityDurable.thy ===== *)
theory ActivityDurable
  imports Activity
begin

text \<open>
  What an activity leaves in the store, for every handler. The handler is not assumed to leave
  the run-scoped cache or the database alone, so the proofs here follow the database itself
  and not the cache: reads that bypass the cache, writes, and frames.
\<close>

section \<open>Frames\<close>

text \<open>Everything in the database but the timers.\<close>

definition apart :: "database \<Rightarrow> database" where
  "apart d = d\<lparr>db_timer := (\<lambda>_. None)\<rparr>"

lemma apart_put_timer [simp]: "apart (put_timer r d) = apart d"
  by (simp add: apart_def put_timer_def)

lemma apart_eq:
  assumes "apart d = apart d'"
  shows "db_activity d = db_activity d'" "db_workflow d = db_workflow d'" "db_event d = db_event d'"
  using assms by (cases d; cases d'; simp add: apart_def)+

lemma keeps_gets [frame]: "keeps ob (gets f)"
  by (simp add: keeps_def gets_def)

lemma keeps_modify: "(\<And>w. ob (f w) = ob w) \<Longrightarrow> keeps ob (modify f)"
  by (simp add: keeps_def modify_def)

lemma keeps_onInner: "keeps ob m \<Longrightarrow> keeps (\<lambda>w. ob (inner w)) (onInner m)"
  by (rule keepsI) (auto simp: onInner_def split: prod.splits dest: keepsD)

lemma keeps_onCache [frame]: "keeps (\<lambda>w. ob (inner w)) (onCache f)"
  by (rule keeps_modify) simp

lemma keeps_reads: "reads db m P \<Longrightarrow> keeps (\<lambda>s. ob (db s)) m"
  by (rule keepsI) (auto simp: reads_def)

lemma keeps_writes: "writes db m f \<Longrightarrow> (\<And>d. ob (f d) = ob d) \<Longrightarrow> keeps (\<lambda>s. ob (db s)) m"
  by (rule keepsI) (fastforce simp: writes_def)

lemma wpre_keeps: "keeps ob m \<Longrightarrow> wpre m Q E s \<Longrightarrow> wpre m (\<lambda>a s1. Q a s1 \<and> ob s1 = ob s) (\<lambda>e s1. E e s1 \<and> ob s1 = ob s) s"
  by (auto simp: wpre_def split: prod.splits sum.splits dest: keepsD)

lemma wpre_frame:
  assumes "keeps ob m" and "\<And>a s1. ob s1 = ob s \<Longrightarrow> Q a s1" and "\<And>e s1. ob s1 = ob s \<Longrightarrow> E e s1"
  shows "wpre m Q E s"
  by (rule wpreI) (use assms keepsD [OF assms(1)] in blast)+

lemma wpre_any: "(\<And>a s1. Q a s1) \<Longrightarrow> (\<And>e s1. E e s1) \<Longrightarrow> wpre m Q E s"
  by (rule wpreI) simp_all

lemma wp_skip: "(\<And>a s1. wpre (f a) Q E s1) \<Longrightarrow> (\<And>e s1. E e s1) \<Longrightarrow> wpre (andThen m f) Q E s"
  unfolding wpre_andThen by (rule wpre_any)

lemma wpre_ifI: "(b \<Longrightarrow> wpre m Q E s) \<Longrightarrow> (\<not> b \<Longrightarrow> wpre n Q E s) \<Longrightarrow> wpre (if b then m else n) Q E s"
  by simp

lemma wpre_True [simp]: "wpre m (\<lambda>_ _. True) (\<lambda>_ _. True) s"
  by (rule wpre_any) simp_all

lemma keeps_loadRecord: "keeps ob get \<Longrightarrow> keeps (\<lambda>w. ob (inner w)) (loadRecord get validate)"
  unfolding loadRecord_def by (intro frame keeps_onInner)

lemma keeps_cachedGet: "keeps (\<lambda>w. ob (inner w)) load \<Longrightarrow> keeps (\<lambda>w. ob (inner w)) (cachedGet scoped slots b i keep load)"
  unfolding cachedGet_def by (intro frame)

lemma keeps_refresh: "keeps (\<lambda>w. ob (inner w)) load \<Longrightarrow> keeps (\<lambda>w. ob (inner w)) (refresh scoped keep load)"
  unfolding refresh_def by (intro frame)

context runtime_laws
begin

text \<open>Reads keep the database, and so everything that is seen of it; a timer write keeps the rest.\<close>

lemma keeps_cached_reads [frame]:
  "keeps (\<lambda>w. ob (db (inner w))) (cGetTimer (rt_Store R) ctx tk)"
  "keeps (\<lambda>w. ob (db (inner w))) (cGetActivity (rt_Store R) ctx ak)"
  "keeps (\<lambda>w. ob (db (inner w))) (getTimerAuthoritative R ctx tk)"
  "keeps (\<lambda>w. ob (db (inner w))) (getActivityAuthoritative R ctx ak)"
  unfolding cGetTimer_def cGetActivity_def getTimerAuthoritative_def getActivityAuthoritative_def refreshTimer_def refreshActivity_def
    loadTimer_def loadActivity_def
  by (intro frame keeps_cachedGet [where ob = "\<lambda>s. ob (db s)"] keeps_refresh [where ob = "\<lambda>s. ob (db s)"]
      keeps_loadRecord [where ob = "\<lambda>s. ob (db s)"] keeps_reads [OF GetTimer_law] keeps_reads [OF GetActivity_law])+

lemma keeps_time_now [frame]: "keeps (\<lambda>w. ob (db (inner w))) (time_now R)"
  unfolding time_now_def
  by (rule keeps_onInner [where ob = "\<lambda>s. ob (db s)"], rule keepsI) (auto simp: clock_law split: prod.splits dest!: sym [of _ "snd _"], metis clock_law snd_conv)

lemma keeps_cPutTimer [frame]: "keeps (\<lambda>w. apart (db (inner w))) (cPutTimer (rt_Store R) ctx r)"
  unfolding cPutTimer_def Let_def
  by (intro keeps_andThen keeps_onInner [where ob = "\<lambda>s. apart (db s)"] keeps_writes [OF PutTimer_law] apart_put_timer
      keeps_onCache [where ob = "\<lambda>s. apart (db s)"])

lemma keeps_registry [frame]:
  "keeps (\<lambda>w. ob (db (inner w))) (forgetConsumedWakeTimer i)" "keeps (\<lambda>w. ob (db (inner w))) (registerConsumedWakeTimer k)"
  unfolding forgetConsumedWakeTimer_def registerConsumedWakeTimer_def by (rule keeps_modify, simp)+

lemma keeps_acknowledgeTimer [frame]: "keeps (\<lambda>w. apart (db (inner w))) (acknowledgeTimer R e)"
  unfolding acknowledgeTimer_def Let_def by (intro frame)

lemma keeps_acknowledge_loop [frame]: "keeps (\<lambda>w. apart (db (inner w))) (acknowledge_loop R es errs)"
  by (induction es arbitrary: errs) (auto intro!: frame)

lemma keeps_acknowledge [frame]: "keeps (\<lambda>w. apart (db (inner w))) (acknowledgeConsumedWakeTimers R i)"
  unfolding acknowledgeConsumedWakeTimers_def by (intro frame)

lemma keeps_retry_timer [frame]:
  "keeps (\<lambda>w. apart (db (inner w))) (putActivityRetryTimerVerified R ctx flow a i d t op)"
  "keeps (\<lambda>w. apart (db (inner w))) (markActivityRetryTimerFired R ctx flow a i)"
  "keeps (\<lambda>w. apart (db (inner w))) (rearmPrepared R ctx flow a i op t d st)"
  unfolding putActivityRetryTimerVerified_def putActivityRetryTimer_def verifyActivityRetryTimer_def markActivityRetryTimerFired_def
    rearmPrepared_def Let_def by (intro frame)+

text \<open>A read that bypasses the cache returns what the database holds; a successful write is in it.\<close>

lemma wp_getActivityAuthoritative_db:
  assumes "\<And>w1. db (inner w1) = db (inner w) \<Longrightarrow> Q (db_activity (db (inner w)) key) w1"
    and "\<And>e w1. db (inner w1) = db (inner w) \<Longrightarrow> E e w1"
  shows "wpre (getActivityAuthoritative R ctx key) Q E w"
  unfolding getActivityAuthoritative_def refreshActivity_def refresh_def wpre_andThen wpre_gets
  by (auto simp: wp intro!: wp_loads [OF loads_activity] assms)

lemma wp_cPutActivity_db:
  assumes "\<And>w1. db (inner w1) = put_activity r (db (inner w)) \<Longrightarrow> Q () w1"
    and "\<And>e w1. db (inner w1) = put_activity r (db (inner w)) \<or> db (inner w1) = db (inner w) \<Longrightarrow> E e w1"
  shows "wpre (cPutActivity (rt_Store R) ctx r) Q E w"
  unfolding cPutActivity_def Let_def wpre_andThen wpre_onInner wpre_modify
  by (rule wp_writes [OF PutActivity_law]) (auto intro!: assms)

end

text \<open>A record whose activity is over.\<close>

definition terminal :: "ActivityRecord \<Rightarrow> bool" where
  "terminal r \<longleftrightarrow> ar_Status r = ACTIVITY_STATUS_COMPLETED \<or> ar_Status r = ACTIVITY_STATUS_FAILED"

text \<open>
  The message \<open>v\<close> is the result that a completed record holds: it was packed into it, or
  unpacked from it.
\<close>

definition result_stored ::
  "('v, 'n) messages_scheme \<Rightarrow> string \<Rightarrow> 'v construct \<Rightarrow> ActivityRecord option \<Rightarrow> 'v \<Rightarrow> bool" where
  "result_stored M activityType newResult stored v \<longleftrightarrow> (\<exists>r any. stored = Some r \<and> ar_Status r = ACTIVITY_STATUS_COMPLETED \<and>
     ar_ActivityType r = activityType \<and> ar_Result r = Some any \<and>
     (any_New M v = Inr any \<or> (\<exists>t. newResult = Inr (Some t) \<and> any_UnmarshalTo M any t = Inr v)))"

lemma replayRecord_stored:
  assumes "replayRecord M r activityType newResult = Inr v"
  shows "result_stored M activityType newResult (Some r) v"
  using assms unfolding replayRecord_def result_stored_def
  by (auto simp: assertActivityIdentity_def invokeUserConstructor_def invokeUser_def split: sum.splits ActivityStatus.splits option.splits if_splits)

text \<open>
  A sound record: its attempts are numbered from one and within the policy, and if it is
  RETRYING (with a representable next attempt) the checks made on resumption accept it.
\<close>

definition record_sound ::
  "'w wkt_scheme \<Rightarrow> (float64 \<Rightarrow> int) \<Rightarrow> RetryPolicy option \<Rightarrow> string \<Rightarrow> retryPlan \<Rightarrow> ActivityRecord \<Rightarrow> bool" where
  "record_sound W conv policy retryTimerID plan r \<longleftrightarrow> ar_Attempts r \<noteq> [] \<and> length (ar_Attempts r) \<le> maxAttempts plan \<and>
     (\<forall>i < length (ar_Attempts r). aa_Attempt (ar_Attempts r ! i) = Suc i) \<and>
     (ar_Status r = ACTIVITY_STATUS_RETRYING \<and> (\<forall>t \<in> set_option (ar_NextAttemptAt r). Timestamp_CheckValid W t) \<longrightarrow>
       assertRetryingActivity W conv r policy retryTimerID plan = Inr ())"

text \<open>An error as Go has it: the retry-after of an \<open>ActivityError\<close> is a \<open>time.Duration\<close>.\<close>

fun typed_node :: "go_error \<Rightarrow> bool" where
  "typed_node (ActivityError c m retryAfter cause) = int64_range retryAfter"
| "typed_node _ = True"

definition typed_handler :: "('s, 'm, 'v) handler \<Rightarrow> bool" where
  "typed_handler execute \<longleftrightarrow> (\<forall>bag w err b w1. execute bag w = ((Returned (Inl err), b), w1) \<longrightarrow> (\<forall>x \<in> set (chain err). typed_node x))"

lemma assertAttempts_append:
  "assertAttempts W i (xs @ [a]) = Inr () \<longleftrightarrow> assertAttempts W i xs = Inr () \<and> aa_Attempt a = i + length xs + 1 \<and>
     (\<exists>f ra. aa_Failure a = Some f \<and> retryPolicyDuration W (af_RetryAfter f) = Inr ra \<and> 0 \<le> ra)"
  by (induction W i xs rule: assertAttempts.induct) (auto split: option.splits sum.splits if_splits)

lemma assertAttempts_numbered:
  "assertAttempts W i xs = Inr () \<Longrightarrow> j < length xs \<Longrightarrow> aa_Attempt (xs ! j) = i + j + 1"
  by (induction W i xs arbitrary: j rule: assertAttempts.induct)
    (auto simp: nth_Cons split: option.splits sum.splits if_splits nat.splits)

lemma assertRetrying_attempts:
  "assertRetryingActivity W conv r policy i plan = Inr () \<Longrightarrow>
     assertAttempts W 0 (ar_Attempts r) = Inr () \<and> length (ar_Attempts r) < maxAttempts plan"
  unfolding assertRetryingActivity_def by (auto simp: Let_def split: if_splits sum.splits)

text \<open>The claim store of a workflow keeps no record of the database.\<close>

definition claims_apart :: "('s \<Rightarrow> database) \<Rightarrow> 's ClaimStore option \<Rightarrow> bool" where
  "claims_apart db claims \<longleftrightarrow> (\<forall>C. claims = Some C \<longrightarrow> (\<forall>ctx k r. keeps db (cs_GetClaim C ctx k) \<and>
     keeps db (cs_TryCreateClaim C ctx r) \<and> keeps db (cs_DeleteClaim C ctx k) \<and> keeps db (cs_ClaimCapability C ctx)))"

lemma claims_apart_some: "claims_apart db (wf_claimStore flow) \<Longrightarrow> claims_apart db (claimsOf flow)"
  by (simp add: claimsOf_def claims_apart_def)

lemma keeps_ob: "keeps db m \<Longrightarrow> keeps (\<lambda>s. ob (db s)) m"
  by (simp add: keeps_def)

lemma keeps_onInner_db: "keeps db m \<Longrightarrow> keeps (\<lambda>w. ob (db (inner w))) (onInner m)"
  by (rule keeps_onInner [where ob = "\<lambda>s. ob (db s)"]) (rule keeps_ob)

lemma keeps_claims:
  assumes "claims_apart db (Some C)"
  shows "keeps (\<lambda>w. ob (db (inner w))) (onInner (cs_GetClaim C ctx k))"
    "keeps (\<lambda>w. ob (db (inner w))) (onInner (cs_TryCreateClaim C ctx r))"
    "keeps (\<lambda>w. ob (db (inner w))) (onInner (cs_DeleteClaim C ctx k))"
    "keeps (\<lambda>w. ob (db (inner w))) (onInner (cs_ClaimCapability C ctx))"
  using assms by (auto simp: claims_apart_def intro!: keeps_onInner_db [of db])

lemma keeps_release:
  assumes "claims_apart db claims"
  shows "keeps (\<lambda>w. ob (db (inner w))) (releaseActivityClaim A claims result)"
  unfolding releaseActivityClaim_def
  using assms by (auto intro!: frame keeps_claims split: option.split)

context engine_laws
begin

lemma keeps_engine [frame]:
  "keeps (\<lambda>w. apart (db (inner w))) (ensureActivityRetryTimer R ctx flow a i retrying plan)"
  "keeps (\<lambda>w. apart (db (inner w))) (preparedActivityRetryTimer R ctx flow a i plan)"
  "keeps (\<lambda>w. apart (db (inner w))) (newerPreparedActivityRetryTimer R ctx flow a i rec plan)"
  unfolding ensureActivityRetryTimer_def repairActivityRetryTimer_def preparedActivityRetryTimer_def newerPreparedActivityRetryTimer_def
  by (intro frame)+

lemma keeps_steps [frame]:
  "keeps (\<lambda>w. apart (db (inner w))) (reconcileRetryTimer R A rec)"
  "keeps (\<lambda>w. apart (db (inner w))) (pendingUntil R A t)"
  "keeps (\<lambda>w. ob (db (inner w))) (sleepCtx R ctx d)"
  unfolding reconcileRetryTimer_def pendingUntil_def sleepCtx_def
  by (intro frame keeps_onInner_db ctx_err_law wait_law)+

lemma keeps_pendingIf [frame]: "keeps (\<lambda>w. apart (db (inner w))) (pendingIf R A p)"
  unfolding pendingIf_def by (intro frame)

lemma keeps_resumeRetrying [frame]: "keeps (\<lambda>w. apart (db (inner w))) (resumeRetrying R A rec)"
  unfolding resumeRetrying_def by (intro frame)

lemma keeps_inspectActivity [frame]: "keeps (\<lambda>w. apart (db (inner w))) (inspectActivity R M A nr stored)"
  unfolding inspectActivity_def by (intro frame)

lemma keeps_acquire:
  assumes "claims_apart db (Some C)"
  shows "keeps (\<lambda>w. apart (db (inner w))) (acquireActivityClaim R M A nr C n)"
proof (induction n)
  case (Suc n)
  show ?case
    unfolding acquireActivityClaim.simps using Suc
    by (auto intro!: frame keeps_claims [OF assms] split: bool.split)
qed (simp add: frame)

section \<open>Replay\<close>

lemma inspect_replayed:
  "wpre (inspectActivity R M A nr stored)
     (\<lambda>x _. (\<forall>v. x = Replayed v \<longrightarrow> (\<exists>r. stored = Some r \<and> replayRecord M r (ac_activityType A) nr = Inr v)) \<and>
       (x = Proceed \<longrightarrow> (\<forall>r. stored = Some r \<longrightarrow> ar_Status r = ACTIVITY_STATUS_RETRYING \<and>
          assertRetryingActivity R (en_Conv R) r (ac_policy A) (ac_retryTimerID A) (ac_plan A) = Inr ()))) (\<lambda>_ _. True) w"
proof (cases stored)
  case None
  then show ?thesis unfolding inspectActivity_def by (simp add: wpre_ret wpre_andThen wpre_if wpre_any)
next
  case (Some r)
  show ?thesis
  proof (cases "ar_Status r = ACTIVITY_STATUS_RETRYING")
    case True
    then show ?thesis unfolding inspectActivity_def resumeRetrying_def Some
      by (simp add: wpre_ret wpre_andThen wpre_lift wpre_if wpre_any split: sum.split)
  next
    case False
    then show ?thesis unfolding inspectActivity_def Some
      by (simp add: wpre_ret wpre_andThen wpre_lift wpre_if wpre_fail wpre_any split: sum.split)
  qed
qed

lemma andThen_cong:
  "(\<And>a s1. m s = (Inr a, s1) \<Longrightarrow> f a s1 = g a s1) \<Longrightarrow> andThen m f s = andThen m g s"
  by (auto simp: andThen_def split: prod.splits sum.splits)

lemma inspect_terminal:
  assumes "terminal r"
  shows "wpre (inspectActivity R M A nr (Some r)) (\<lambda>x _. \<exists>v. x = Replayed v \<and> replayRecord M r (ac_activityType A) nr = Inr v) (\<lambda>_ _. True) w"
proof (rule wpre_mono [OF inspect_replayed], goal_cases)
  case (1 x w1)
  with assms show ?case by (cases x) (auto simp: terminal_def)
qed simp

lemma read_terminal:
  assumes c: "coherent {} (db (inner w)) (cache w)"
    and got: "attempt (cGetActivity (rt_Store R) ctx key) w = (Inr (Inr stored), w1)"
  shows "stored = db_activity (db (inner w)) key" "apart (db (inner w1)) = apart (db (inner w))"
proof -
  have "wpre (attempt (cGetActivity (rt_Store R) ctx key))
      (\<lambda>x w1. (\<forall>s. x = Inr s \<longrightarrow> s = db_activity (db (inner w)) key) \<and> db (inner w1) = db (inner w)) (\<lambda>_ _. True) w"
    unfolding wpre_attempt by (rule wp_cGetActivity [OF c]) (auto simp: after_db)
  from wpre_InrD [OF this got] show "stored = db_activity (db (inner w)) key" "apart (db (inner w1)) = apart (db (inner w))"
    by auto
qed

lemma replay_runRecorded:
  assumes c: "coherent {} (db (inner w)) (cache w)" and r: "db_activity (db (inner w)) (ac_key A) = Some r" "terminal r"
  shows "runRecorded R M A input nr execute w = runRecorded R M A input nr execute' w" (is ?same)
    and "wpre (runRecorded R M A input nr execute)
      (\<lambda>v w1. replayRecord M r (ac_activityType A) nr = Inr v \<and> apart (db (inner w1)) = apart (db (inner w)))
      (\<lambda>_ w1. apart (db (inner w1)) = apart (db (inner w))) w" (is ?wp)
proof -
  show ?same
    unfolding runRecorded_def
  proof (rule andThen_cong, goal_cases)
    case (1 got w1)
    show ?case
    proof (cases got)
      case (Inr stored)
      from read_terminal(1) [OF c 1 [unfolded Inr]] r have "stored = Some r" by simp
      have "andThen (inspectActivity R M A nr (Some r)) f w1 = andThen (inspectActivity R M A nr (Some r)) g w1"
        if "\<And>v. f (Replayed v) = g (Replayed v)" for f g
        by (rule andThen_cong) (use wpre_InrD [OF inspect_terminal [OF r(2)]] that in metis)
      then show ?thesis unfolding Inr \<open>stored = Some r\<close> sum.case by this simp
    qed simp
  qed
  have tail: "wpre (andThen (inspectActivity R M A nr (Some r)) f)
      (\<lambda>v w1. replayRecord M r (ac_activityType A) nr = Inr v \<and> apart (db (inner w1)) = apart (db (inner w)))
      (\<lambda>_ w1. apart (db (inner w1)) = apart (db (inner w))) w1"
    if "\<And>v. f (Replayed v) = ret v" "apart (db (inner w1)) = apart (db (inner w))" for f w1
    unfolding wpre_andThen
    by (rule wpre_mono [OF wpre_keeps [OF keeps_inspectActivity inspect_terminal [OF r(2)]]])
      (use that in \<open>auto simp: wpre_ret\<close>)
  show ?wp
    unfolding runRecorded_def wpre_andThen [of "attempt _"] wpre_attempt
    by (rule wp_cGetActivity [OF c]) (use r in \<open>auto simp: wpre_fail after_db intro!: tail\<close>)
qed

section \<open>Results\<close>

lemma activityKey_simps [simp]:
  "withDefaults (activityKey flow i) = activityKey flow i" "Proto (activityKey flow i) = activityKey flow i"
  by (simp_all add: activityKey_def DefaultNamespace_def Proto_def)

lemma activityRecordOf_simps [simp]:
  "ar_Key (activityRecordOf W A x st atts bag) = Some (ac_key A)" "ar_Attempts (activityRecordOf W A x st atts bag) = atts"
  "ar_Status (activityRecordOf W A x st atts bag) = st" "ar_ActivityType (activityRecordOf W A x st atts bag) = ac_activityType A"
  "ar_Annotations (activityRecordOf W A x st atts bag) = bag"
  by (simp_all add: activityRecordOf_def)

lemma db_activity_put: "ar_Key r = Some (ac_key A) \<Longrightarrow> db_activity (put_activity r d) (ac_key A) = Some r"
  by (simp add: put_activity_def set_key_def)

lemma wp_release:
  assumes "claims_apart db claims"
  shows "wpre (releaseActivityClaim A claims result) (\<lambda>x w1. result = Inr x \<and> db (inner w1) = db (inner w)) (\<lambda>_ w1. db (inner w1) = db (inner w)) w"
proof -
  have "wpre (releaseActivityClaim A claims result) (\<lambda>x _. result = Inr x) (\<lambda>_ _. True) w"
    unfolding releaseActivityClaim_def by (auto simp: wp intro!: wpre_any split: option.split sum.split)
  from wpre_keeps [OF keeps_release [OF assms, where ob = id] this] show ?thesis by simp
qed

lemma wp_completeAttempt:
  assumes "claims_apart db (claimsOf (ac_flow A))"
  shows "wpre (completeAttempt R M A inputAny attempts bag completedAt result)
    (\<lambda>p w1. p = Done result \<and> (\<exists>any. any_New M result = Inr any \<and> db_activity (db (inner w1)) (ac_key A) =
       Some (activityRecordOf R A inputAny ACTIVITY_STATUS_COMPLETED attempts bag
         \<lparr>ar_Result := Some any, ar_CompletedAt := Some (Timestamp_New R completedAt)\<rparr>))) (\<lambda>_ _. True) w"
proof -
  have tail: "wpre (andThen (reconcileRetryTimer R A r) (\<lambda>_. releaseActivityClaim A (claimsOf (ac_flow A)) (Inr (Done result))))
      (\<lambda>p w2. p = Done result \<and> db_activity (db (inner w2)) (ac_key A) = x) (\<lambda>_ _. True) w1"
    if "db_activity (db (inner w1)) (ac_key A) = x" for r w1 x
    unfolding wpre_andThen
    by (rule wpre_frame [OF keeps_steps(1)], rule wpre_mono [OF wp_release [OF assms]])
      (use that in \<open>auto dest: apart_eq(1)\<close>)
  show ?thesis
    unfolding completeAttempt_def Let_def wpre_andThen [of "lift _"] wpre_lift wpre_andThen [of "attempt _"] wpre_attempt
    by (auto simp: wpre_fail db_activity_put intro!: wp_cPutActivity_db tail split: sum.split)
qed

lemma wp_notDone:
  "wpre (failActivity R A inputAny attempts bag completedAt failure runErr) (\<lambda>p _. \<forall>v. p \<noteq> Done v) (\<lambda>_ _. True) w"
  "wpre (retryActivity R A inputAny idx attempts bag failure) (\<lambda>p _. \<forall>v. p \<noteq> Done v) (\<lambda>_ _. True) w"
proof -
  have release: "wpre (releaseActivityClaim A claims (Inl e)) (\<lambda>p _. \<forall>v. p \<noteq> Done v) (\<lambda>_ _. True) w" for claims e w
    unfolding releaseActivityClaim_def by (simp add: wp wpre_any split: option.split sum.split)
  show "wpre (failActivity R A inputAny attempts bag completedAt failure runErr) (\<lambda>p _. \<forall>v. p \<noteq> Done v) (\<lambda>_ _. True) w"
    unfolding failActivity_def Let_def wpre_andThen wpre_attempt by (simp add: wp wpre_any release)
  show "wpre (retryActivity R A inputAny idx attempts bag failure) (\<lambda>p _. \<forall>v. p \<noteq> Done v) (\<lambda>_ _. True) w"
    unfolding retryActivity_def durableRetry_def inProcessRetry_def Let_def wpre_andThen wpre_attempt wpre_if wpre_lift
    by (simp add: wp wpre_any release split: sum.split)
qed

lemma wp_runAttempt_result:
  assumes "claims_apart db (claimsOf (ac_flow A))"
  shows "wpre (runAttempt R M A inputAny execute idx attempts bag)
    (\<lambda>p w1. \<forall>v. p = Done v \<longrightarrow> result_stored M (ac_activityType A) nr (db_activity (db (inner w1)) (ac_key A)) v) (\<lambda>_ _. True) w"
proof -
  let ?Q = "\<lambda>p w1. \<forall>v. p = Done v \<longrightarrow> result_stored M (ac_activityType A) nr (db_activity (db (inner w1)) (ac_key A)) v"
  have fin: "wpre (completeAttempt R M A inputAny atts b c result) ?Q (\<lambda>_ _. True) w" for atts b c result w
    by (rule wpre_mono [OF wp_completeAttempt [OF assms]]) (auto simp: result_stored_def activityRecordOf_def)
  have rest: "wpre (failActivity R A inputAny atts b c f e) ?Q (\<lambda>_ _. True) w"
    "wpre (retryActivity R A inputAny idx atts b f) ?Q (\<lambda>_ _. True) w" for atts b c f e w
    by (rule wpre_mono [OF wp_notDone(1)]; simp) (rule wpre_mono [OF wp_notDone(2)]; simp)
  show ?thesis
    unfolding runAttempt_def Let_def
    by (rule wp_skip, rule wp_skip, unfold split_beta, rule wp_skip)
      (auto simp: wpre_if fin rest split: sum.split option.split)
qed

lemma wp_runAttempts_result:
  assumes "claims_apart db (claimsOf (ac_flow A))"
  shows "wpre (runAttempts R M A inputAny execute idxs attempts bag)
    (\<lambda>v w1. result_stored M (ac_activityType A) nr (db_activity (db (inner w1)) (ac_key A)) v) (\<lambda>_ _. True) w"
proof (induction idxs arbitrary: attempts bag w)
  case Nil
  show ?case by (simp add: wpre_fail)
next
  case (Cons idx idxs)
  show ?case
    unfolding runAttempts.simps wpre_andThen
  proof (rule wpre_mono [OF wp_runAttempt_result [OF assms, where nr = nr]], goal_cases)
    case (1 p w1)
    then show ?case using Cons.IH by (cases p) (simp_all add: wpre_ret)
  qed simp
qed

lemma wp_inspectHolding:
  assumes "claims_apart db (Some C)"
  shows "wpre (inspectHolding R M A nr C)
    (\<lambda>h w1. (\<forall>v. h = Settled v \<longrightarrow> result_stored M (ac_activityType A) nr (db_activity (db (inner w1)) (ac_key A)) v) \<and>
       (\<forall>found. h = Attempts found \<longrightarrow> found = db_activity (db (inner w)) (ac_key A) \<and> (\<forall>r. found = Some r \<longrightarrow>
          ar_Status r = ACTIVITY_STATUS_RETRYING \<and>
          assertRetryingActivity R (en_Conv R) r (ac_policy A) (ac_retryTimerID A) (ac_plan A) = Inr ())) \<and>
       apart (db (inner w1)) = apart (db (inner w)))
    (\<lambda>_ w1. apart (db (inner w1)) = apart (db (inner w))) w" (is "wpre _ ?Q ?E w")
  unfolding inspectHolding_def wpre_andThen [of "attempt (getActivityAuthoritative _ _ _)"] wpre_attempt [of "getActivityAuthoritative _ _ _"]
proof (rule wp_getActivityAuthoritative_db, goal_cases)
  case (1 w1)
  let ?r = "db_activity (db (inner w)) (ac_key A)"
  have rel: "wpre (releaseActivityClaim A (Some C) (Inl e)) ?Q ?E w2" if "apart (db (inner w2)) = apart (db (inner w))" for e w2
    by (rule wpre_mono [OF wp_release [OF assms]]) (use that in auto)
  have rep: "wpre (releaseActivityClaim A (Some C) (Inr (Settled v))) ?Q ?E w2"
    if "apart (db (inner w2)) = apart (db (inner w))" "?r = Some r" "replayRecord M r (ac_activityType A) nr = Inr v" for v w2 r
    by (rule wpre_mono [OF wp_release [OF assms]]) (use that replayRecord_stored [OF that(3)] apart_eq(1) [OF that(1)] in auto)
  have "wpre (andThen (attempt (inspectActivity R M A nr ?r)) (\<lambda>inspected.
      case inspected of Inl err \<Rightarrow> releaseActivityClaim A (Some C) (Inl err)
      | Inr (Replayed v) \<Rightarrow> releaseActivityClaim A (Some C) (Inr (Settled v))
      | Inr Proceed \<Rightarrow> ret (Attempts ?r))) ?Q ?E w1"
    unfolding wpre_andThen wpre_attempt
  proof (rule wpre_mono [OF wpre_keeps [OF keeps_inspectActivity inspect_replayed]], goal_cases)
    case (1 x w2)
    with \<open>db (inner w1) = db (inner w)\<close> rep show ?case by (cases x) (auto simp: wpre_ret)
  next
    case (2 e w2)
    with \<open>db (inner w1) = db (inner w)\<close> rel show ?case by simp
  qed
  then show ?case by simp
next
  case (2 e w1)
  show ?case by (simp, rule wpre_mono [OF wp_release [OF assms]]) (use 2 in auto)
qed

lemma wp_acquire_replayed:
  fixes w :: "('s, 'z) world_scheme"
  assumes "claims_apart db (Some C)"
  shows "wpre (acquireActivityClaim R M A nr C n)
    (\<lambda>x w1. \<forall>v. x = Replayed v \<longrightarrow> result_stored M (ac_activityType A) nr (db_activity (db (inner w1)) (ac_key A)) v) (\<lambda>_ _. True) w"
proof (induction n arbitrary: w)
  case 0
  show ?case by (simp add: wpre_fail)
next
  case (Suc n)
  let ?Q = "\<lambda>x w1. \<forall>v. x = Replayed v \<longrightarrow> result_stored M (ac_activityType A) nr (db_activity (db (inner w1)) (ac_key A)) v"
  have replay: "wpre (andThen (reconcileRetryTimer R A r) (\<lambda>_. andThen (lift (replayRecord M r (ac_activityType A) nr)) (\<lambda>v. ret (Replayed v))))
      ?Q (\<lambda>_ _. True) w1" if "db_activity (db (inner w1)) (ac_key A) = Some r" for r w1
    unfolding wpre_andThen wpre_lift
    by (rule wpre_frame [OF keeps_steps(1)])
      (use that in \<open>auto simp: wpre_ret split: sum.split dest!: apart_eq(1) replayRecord_stored\<close>)
  have fresh: "wpre (andThen (attempt (getActivityAuthoritative R ctx (ac_key A))) f) ?Q (\<lambda>_ _. True) w1"
    if "\<And>w2. db (inner w2) = db (inner w1) \<Longrightarrow> wpre (f (Inr (db_activity (db (inner w1)) (ac_key A)))) ?Q (\<lambda>_ _. True) w2"
      "\<And>e w2. wpre (f (Inl e)) ?Q (\<lambda>_ _. True) w2" for f ctx w1
    unfolding wpre_andThen wpre_attempt by (rule wp_getActivityAuthoritative_db) (use that in auto)
  have look: "wpre (andThen (attempt m) (\<lambda>existing. case existing of
       Inl getErr \<Rightarrow> fail (workflowInfrastructureError ''read competing activity claim'' getErr)
     | Inr claim \<Rightarrow> if P claim then fail (b claim) else acquireActivityClaim R M A nr C n)) ?Q (\<lambda>_ _. True) w1" for m P b and w1 :: "('s, 'z) world_scheme"
    unfolding wpre_andThen wpre_attempt by (rule wpre_any) (use Suc in \<open>auto simp: wpre_fail split: sum.split\<close>)
  show ?case
    unfolding acquireActivityClaim.simps
    by (rule wp_skip, rule wp_skip) (auto simp: wpre_ret wpre_fail simp del: not_None_eq split: sum.split bool.split option.split intro!: fresh look replay)
qed

lemma wp_claimActivity:
  assumes "claims_apart db (claimsOf (ac_flow A))"
    and stored: "stored = db_activity (db (inner w)) (ac_key A)"
    and ok: "\<And>r. stored = Some r \<Longrightarrow> ar_Status r = ACTIVITY_STATUS_RETRYING \<and>
      assertRetryingActivity R (en_Conv R) r (ac_policy A) (ac_retryTimerID A) (ac_plan A) = Inr ()"
  shows "wpre (claimActivity R M A nr stored)
    (\<lambda>h w1. (\<forall>v. h = Settled v \<longrightarrow> result_stored M (ac_activityType A) nr (db_activity (db (inner w1)) (ac_key A)) v) \<and>
       (\<forall>found. h = Attempts found \<longrightarrow> found = db_activity (db (inner w)) (ac_key A) \<and> (\<forall>r. found = Some r \<longrightarrow>
          ar_Status r = ACTIVITY_STATUS_RETRYING \<and>
          assertRetryingActivity R (en_Conv R) r (ac_policy A) (ac_retryTimerID A) (ac_plan A) = Inr ())) \<and>
       apart (db (inner w1)) = apart (db (inner w)))
    (\<lambda>_ w1. apart (db (inner w1)) = apart (db (inner w))) w"
proof (cases "claimsOf (ac_flow A)")
  case None
  with stored ok show ?thesis by (simp add: claimActivity_def wpre_ret)
next
  case (Some C)
  note C = assms(1) [unfolded Some]
  show ?thesis
    unfolding claimActivity_def Some option.case wpre_andThen
  proof (rule wpre_mono [OF wpre_keeps [OF keeps_acquire [OF C] wp_acquire_replayed [OF C]]], goal_cases)
    case (1 x w1)
    show ?case
    proof (cases x)
      case (Replayed v)
      with 1 show ?thesis by (simp add: wpre_ret)
    next
      case Proceed
      have "db_activity (db (inner w1)) (ac_key A) = db_activity (db (inner w)) (ac_key A)" using 1 apart_eq(1) by metis
      with Proceed 1 show ?thesis by simp (rule wpre_mono [OF wp_inspectHolding [OF C]], auto)
    qed
  qed simp
qed

lemma wp_runRecorded_result:
  assumes c: "coherent {} (db (inner w)) (cache w)" and claims: "claims_apart db (claimsOf (ac_flow A))"
  shows "wpre (runRecorded R M A input nr execute)
    (\<lambda>v w1. result_stored M (ac_activityType A) nr (db_activity (db (inner w1)) (ac_key A)) v) (\<lambda>_ _. True) w"
proof -
  let ?Q = "\<lambda>v w1. result_stored M (ac_activityType A) nr (db_activity (db (inner w1)) (ac_key A)) v"
  have claim: "wpre (andThen (claimActivity R M A nr stored) (\<lambda>h. case h of Settled v \<Rightarrow> ret v
      | Attempts current \<Rightarrow> executeActivity R M A inputAny execute current)) ?Q (\<lambda>_ _. True) w1"
    if "stored = db_activity (db (inner w1)) (ac_key A)"
      "\<And>r. stored = Some r \<Longrightarrow> ar_Status r = ACTIVITY_STATUS_RETRYING \<and>
        assertRetryingActivity R (en_Conv R) r (ac_policy A) (ac_retryTimerID A) (ac_plan A) = Inr ()" for stored inputAny w1
    unfolding wpre_andThen
  proof (rule wpre_mono [OF wp_claimActivity [OF claims that]], assumption, goal_cases)
    case (1 h w2)
    then show ?case by (cases h) (simp_all add: wpre_ret executeActivity_def Let_def wp_runAttempts_result [OF claims])
  qed simp
  have main: "wpre (andThen (inspectActivity R M A nr stored) (\<lambda>i. case i of Replayed v \<Rightarrow> ret v
      | Proceed \<Rightarrow> andThen (lift (any_New M input)) (\<lambda>inputAny. andThen (claimActivity R M A nr stored) (\<lambda>h. case h of Settled v \<Rightarrow> ret v
          | Attempts current \<Rightarrow> executeActivity R M A inputAny execute current)))) ?Q (\<lambda>_ _. True) w1"
    if s: "stored = db_activity (db (inner w1)) (ac_key A)" for stored w1
    unfolding wpre_andThen [of "inspectActivity _ _ _ _ _"]
  proof (rule wpre_mono [OF wpre_keeps [OF keeps_inspectActivity inspect_replayed]], goal_cases)
    case (1 x w2)
    then have "stored = db_activity (db (inner w2)) (ac_key A)" using s apart_eq(1) by metis
    with 1 show ?case
      by (cases x) (auto simp: wpre_ret wpre_andThen [of "lift _"] wpre_lift split: sum.split dest: replayRecord_stored intro!: claim)
  qed simp
  show ?thesis
    unfolding runRecorded_def wpre_andThen [of "attempt (cGetActivity _ _ _)"] wpre_attempt
  proof (rule wp_cGetActivity [OF c], goal_cases)
    case (2 w1)
    have "db_activity (db (inner w)) (ac_key A) = db_activity (db (inner w1)) (ac_key A)" using after_db [OF 2] by simp
    from main [OF this] show ?case by simp
  qed (simp_all add: wpre_fail)
qed

section \<open>The attempt history\<close>

lemma failure_retryAfter:
  assumes "\<forall>x \<in> set (chain err). typed_node x"
  shows "\<exists>ra. retryPolicyDuration R (af_RetryAfter (failureFromError R err)) = Inr ra \<and> 0 \<le> ra"
proof -
  have none: "retryPolicyDuration R None = Inr 0" by (simp add: retryPolicyDuration_def)
  have "int64_range ra" if "errors_As is_ActivityError err = Some (ActivityError c m ra cause)" for c m ra cause
    using assms errors_As_eq_Some [OF that] by force
  then have "af_RetryAfter (failureFromError R err) = None \<or>
      (\<exists>ra. int64_range ra \<and> 0 < ra \<and> af_RetryAfter (failureFromError R err) = Some (Duration_New R ra))"
    by (auto simp: failureFromError_def split: option.split go_error.split)
  then show ?thesis using none by (auto simp: retryPolicyDuration_def)
qed

abbreviation stored_in :: "'s activityCall \<Rightarrow> ('s, 'm) world_scheme \<Rightarrow> ActivityRecord option" where
  "stored_in A w \<equiv> db_activity (db (inner w)) (ac_key A)"

abbreviation sound :: "'s activityCall \<Rightarrow> ActivityRecord \<Rightarrow> bool" where
  "sound A \<equiv> record_sound R (en_Conv R) (ac_policy A) (ac_retryTimerID A) (ac_plan A)"

text \<open>The stored record is \<open>x\<close> as before, or a sound one.\<close>

definition kept :: "'s activityCall \<Rightarrow> ActivityRecord option \<Rightarrow> ('s, 'm) world_scheme \<Rightarrow> bool" where
  "kept A x w \<longleftrightarrow> stored_in A w = x \<or> (\<exists>r. stored_in A w = Some r \<and> sound A r)"

lemma kept_apart: "apart (db (inner w1)) = apart (db (inner w)) \<Longrightarrow> kept A x w1 = kept A x w"
  by (auto simp: kept_def dest: apart_eq(1))

lemma kept_frame:
  assumes "keeps (\<lambda>w. apart (db (inner w))) m" and "kept A x w"
    and "\<And>a w1. kept A x w1 \<Longrightarrow> Q a w1" and "\<And>e w1. kept A x w1 \<Longrightarrow> E e w1"
  shows "wpre m Q E w"
  by (rule wpre_frame [OF assms(1)]) (use assms(2-4) kept_apart in blast)+

lemma kept_put:
  assumes "sound A r" and "ar_Key r = Some (ac_key A)" and "kept A x w"
    and "\<And>w1. kept A x w1 \<Longrightarrow> Q () w1" and "\<And>e w1. kept A x w1 \<Longrightarrow> E e w1"
  shows "wpre (cPutActivity (rt_Store R) ctx r) Q E w"
  by (rule wp_cPutActivity_db) (use assms in \<open>auto simp: kept_def db_activity_put\<close>)

lemma kept_release:
  assumes "claims_apart db claims" and "kept A x w"
    and "\<And>a w1. result = Inr a \<Longrightarrow> kept A x w1 \<Longrightarrow> Q a w1" and "\<And>e w1. kept A x w1 \<Longrightarrow> E e w1"
  shows "wpre (releaseActivityClaim A claims result) Q E w"
  by (rule wpre_mono [OF wp_release [OF assms(1)]]) (use assms(2-4) in \<open>auto simp: kept_def\<close>)

lemma sound_terminal:
  assumes "assertAttempts R 0 atts = Inr ()" and "aa_Attempt a = Suc (length atts)" and "length atts < maxAttempts (ac_plan A)"
    and "ar_Attempts r = atts @ [a]" and "ar_Status r \<noteq> ACTIVITY_STATUS_RETRYING"
  shows "sound A r"
  using assms assertAttempts_numbered [OF assms(1)] by (auto simp: record_sound_def nth_append less_Suc_eq)

lemma sound_retrying:
  assumes h: "assertAttempts R 0 atts = Inr ()" "length atts < maxAttempts (ac_plan A)" "atts = xs @ [a]" "aa_Failure a = Some failure"
    and code: "af_Code failure \<noteq> UserPanicErrorCode" "\<not> isNonRetryable (ac_plan A) (af_Code failure)"
    and i: "retryIntervalAfterAttempt (en_Conv R) (length atts) (ac_plan A) = Inr interval"
    and r: "r = activityRecordOf R A inputAny ACTIVITY_STATUS_RETRYING atts bag\<lparr>ar_Failure := Some failure\<rparr>"
    and nx: "nx = (if durableThreshold (ac_plan A) > 0 \<and> max interval (asDuration R (af_RetryAfter failure)) \<ge> durableThreshold (ac_plan A)
       then Some t else None)"
  shows "sound A (r\<lparr>ar_NextAttemptAt := nx\<rparr>)"
proof -
  have num: "aa_Attempt (last atts) = length atts" using assertAttempts_append [of R 0 xs a] h by simp
  have "assertRetryingActivity R (en_Conv R) (r\<lparr>ar_NextAttemptAt := nx\<rparr>) (ac_policy A) (ac_retryTimerID A) (ac_plan A) = Inr ()"
    if "\<forall>t \<in> set_option nx. Timestamp_CheckValid R t"
    using h code i that num by (simp add: assertRetryingActivity_def r nx activityRecordOf_def Let_def)
  then show ?thesis
    using assertAttempts_numbered [OF h(1)] h by (auto simp: record_sound_def r activityRecordOf_def)
qed

lemma kept_completeAttempt:
  assumes C: "claims_apart db (claimsOf (ac_flow A))" and k: "kept A x w"
    and h: "assertAttempts R 0 atts = Inr ()" "aa_Attempt a = Suc (length atts)" "length atts < maxAttempts (ac_plan A)"
  shows "wpre (completeAttempt R M A inputAny (atts @ [a]) bag t result) (\<lambda>p w1. kept A x w1 \<and> (\<forall>as b. p \<noteq> Again as b)) (\<lambda>_. kept A x) w"
proof -
  have s: "sound A (activityRecordOf R A inputAny ACTIVITY_STATUS_COMPLETED (atts @ [a]) bag\<lparr>ar_Result := v, ar_CompletedAt := u\<rparr>)" for v u
    by (rule sound_terminal [OF h]) simp_all
  have tail: "wpre (andThen (reconcileRetryTimer R A r) (\<lambda>_. releaseActivityClaim A (claimsOf (ac_flow A)) (Inr (Done result))))
      (\<lambda>p w1. kept A x w1 \<and> (\<forall>as b. p \<noteq> Again as b)) (\<lambda>_. kept A x) w1" if "kept A x w1" for r w1
    unfolding wpre_andThen by (rule kept_frame [OF keeps_steps(1) that], rule kept_release [OF C]) auto
  show ?thesis
    unfolding completeAttempt_def Let_def wpre_andThen [of "lift _"] wpre_lift wpre_andThen [of "attempt _"] wpre_attempt
    using k by (auto simp: wpre_fail intro!: kept_put [OF s, where x = x] tail split: sum.split)
qed

lemma kept_failActivity:
  assumes C: "claims_apart db (claimsOf (ac_flow A))" and k: "kept A x w"
    and h: "assertAttempts R 0 atts = Inr ()" "aa_Attempt a = Suc (length atts)" "length atts < maxAttempts (ac_plan A)"
  shows "wpre (failActivity R A inputAny (atts @ [a]) bag t failure err) (\<lambda>p w1. kept A x w1 \<and> (\<forall>as b. p \<noteq> Again as b)) (\<lambda>_. kept A x) w"
proof -
  have s: "sound A (activityRecordOf R A inputAny ACTIVITY_STATUS_FAILED (atts @ [a]) bag\<lparr>ar_Failure := v, ar_CompletedAt := u\<rparr>)" for v u
    by (rule sound_terminal [OF h]) simp_all
  have tail: "wpre (andThen (reconcileRetryTimer R A r) (\<lambda>_. releaseActivityClaim A (claimsOf (ac_flow A)) (Inl e)))
      (\<lambda>p w1. kept A x w1 \<and> (\<forall>as b. p \<noteq> Again as b)) (\<lambda>_. kept A x) w1" if "kept A x w1" for r e w1
    unfolding wpre_andThen by (rule kept_frame [OF keeps_steps(1) that], rule kept_release [OF C]) auto
  show ?thesis
    unfolding failActivity_def Let_def wpre_andThen [of "attempt _"] wpre_attempt
    using k by (auto simp: wpre_fail intro!: kept_put [OF s, where x = x] tail split: sum.split)
qed

lemma kept_durableRetry:
  assumes C: "claims_apart db (claimsOf (ac_flow A))" and k: "kept A x w"
    and s: "\<And>t. sound A (r\<lparr>ar_NextAttemptAt := Some t\<rparr>)" and key: "ar_Key r = Some (ac_key A)"
  shows "wpre (durableRetry R A r interval) (\<lambda>_ _. False) (\<lambda>_. kept A x) w"
proof -
  let ?E = "\<lambda>_. kept A x"
  have ack: "wpre (andThen (attempt (acknowledgeConsumedWakeTimers R [])) (\<lambda>_. fail e)) (\<lambda>_ _. False) ?E w1" if "kept A x w1" for e w1
    unfolding wpre_andThen wpre_attempt by (rule kept_frame [OF keeps_acknowledge that]) (auto simp: wpre_fail)
  have put: "wpre (andThen (attempt (cPutActivity (rt_Store R) (ac_ctx A) (r\<lparr>ar_NextAttemptAt := Some t\<rparr>))) (\<lambda>put. case put of
      Inl err \<Rightarrow> fail (activityRetryTimerRepairPending i u op err)
      | Inr _ \<Rightarrow> andThen (attempt (acknowledgeConsumedWakeTimers R [])) (\<lambda>_. fail e))) (\<lambda>_ _. False) ?E w1" if "kept A x w1" for i t u op e w1
    unfolding wpre_andThen [of "attempt (cPutActivity _ _ _)"] wpre_attempt [of "cPutActivity _ _ _"]
    by (rule kept_put [OF s _ that]) (auto simp: wpre_fail key intro: ack)
  have rel: "wpre (releaseActivityClaim A (claimsOf (ac_flow A)) (Inl e)) (\<lambda>_ _. False) ?E w1" if "kept A x w1" for e w1
    by (rule kept_release [OF C that]) auto
  have rel2: "wpre (andThen (attempt (releaseActivityClaim A (claimsOf (ac_flow A)) (Inr ()))) f) (\<lambda>_ _. False) ?E w1"
    if "kept A x w1" "\<And>w2. kept A x w2 \<Longrightarrow> wpre (f (Inr ())) (\<lambda>_ _. False) ?E w2" "\<And>e w2. kept A x w2 \<Longrightarrow> wpre (f (Inl e)) (\<lambda>_ _. False) ?E w2" for f w1
    unfolding wpre_andThen wpre_attempt by (rule kept_release [OF C that(1)]) (use that(2,3) in auto)
  have ens: "wpre (andThen (attempt (ensureActivityRetryTimer R ctx fl a i rec plan)) f) (\<lambda>_ _. False) ?E w1"
    if "kept A x w1" "\<And>y w2. kept A x w2 \<Longrightarrow> wpre (f y) (\<lambda>_ _. False) ?E w2" for ctx a i rec plan f w1 and fl :: "'s flow"
    unfolding wpre_andThen wpre_attempt by (rule kept_frame [OF keeps_engine(1) that(1)]) (use that(2) in auto)
  show ?thesis
    unfolding durableRetry_def Let_def wpre_andThen [of "time_now R"]
    by (rule kept_frame [OF keeps_time_now [where ob = apart] k])
      (auto intro!: ens rel rel2 put simp: wpre_fail split: sum.split)
qed

lemma kept_inProcessRetry:
  assumes C: "claims_apart db (claimsOf (ac_flow A))" and k: "kept A x w" and s: "sound A r" and key: "ar_Key r = Some (ac_key A)"
  shows "wpre (inProcessRetry R A r interval) (\<lambda>p w1. kept A x w1 \<and> (\<forall>as b. p = Again as b \<longrightarrow> as = ar_Attempts r)) (\<lambda>_. kept A x) w"
    (is "wpre _ ?Q ?E w")
proof -
  have slept: "wpre (andThen (attempt (sleepCtx R (ac_ctx A) interval)) (\<lambda>slept. case slept of
       Inl err \<Rightarrow> releaseActivityClaim A (claimsOf (ac_flow A)) (Inl (workflowInfrastructureError ''wait for activity retry backoff'' err))
     | Inr _ \<Rightarrow> ret (Again (ar_Attempts r) (ar_Annotations r)))) ?Q ?E w1" if "kept A x w1" for w1
    unfolding wpre_andThen wpre_attempt
    by (rule kept_frame [OF keeps_steps(3) [where ob = apart] that]) (auto simp: wpre_ret intro!: kept_release [OF C])
  show ?thesis
    unfolding inProcessRetry_def wpre_andThen [of "attempt (cPutActivity _ _ _)"] wpre_attempt [of "cPutActivity _ _ _"]
    by (rule kept_put [OF s key k]) (simp_all only: sum.case wpre_fail slept)
qed

lemma kept_retryActivity:
  assumes C: "claims_apart db (claimsOf (ac_flow A))" and k: "kept A x w"
    and h: "assertAttempts R 0 atts = Inr ()" "length atts < maxAttempts (ac_plan A)" "atts = xs @ [a]" "aa_Failure a = Some failure"
    and code: "af_Code failure \<noteq> UserPanicErrorCode" "\<not> isNonRetryable (ac_plan A) (af_Code failure)"
  shows "wpre (retryActivity R A inputAny (length atts) atts bag failure)
    (\<lambda>p w1. kept A x w1 \<and> (\<forall>as b. p = Again as b \<longrightarrow> as = atts)) (\<lambda>_. kept A x) w"
proof (cases "retryIntervalAfterAttempt (en_Conv R) (length atts) (ac_plan A)")
  case (Inl e)
  with k show ?thesis by (simp add: retryActivity_def wp)
next
  case (Inr interval)
  let ?r = "activityRecordOf R A inputAny ACTIVITY_STATUS_RETRYING atts bag\<lparr>ar_Failure := Some failure\<rparr>"
  let ?i = "if asDuration R (af_RetryAfter failure) > interval then asDuration R (af_RetryAfter failure) else interval"
  have i: "?i = max interval (asDuration R (af_RetryAfter failure))" by simp
  note s = sound_retrying [OF h code Inr refl refl]
  have inproc: "wpre (inProcessRetry R A ?r ?i) (\<lambda>p w1. kept A x w1 \<and> (\<forall>as b. p = Again as b \<longrightarrow> as = atts)) (\<lambda>_. kept A x) w"
    if "\<not> (durableThreshold (ac_plan A) > 0 \<and> ?i \<ge> durableThreshold (ac_plan A))"
  proof -
    have "sound A ?r" using s [where inputAny = inputAny and bag = bag] that unfolding i by (simp add: activityRecordOf_def)
    from kept_inProcessRetry [OF C k this] show ?thesis by (simp add: activityRecordOf_def split del: if_split)
  qed
  have "wpre (durableRetry R A ?r ?i) (\<lambda>_ _. False) (\<lambda>_. kept A x) w"
    if d: "durableThreshold (ac_plan A) > 0 \<and> ?i \<ge> durableThreshold (ac_plan A)"
    by (rule kept_durableRetry [OF C k]) (use s d in \<open>simp_all add: i\<close>)
  then have "wpre (durableRetry R A ?r ?i) (\<lambda>p w1. kept A x w1 \<and> (\<forall>as b. p = Again as b \<longrightarrow> as = atts)) (\<lambda>_. kept A x) w"
    if d: "durableThreshold (ac_plan A) > 0 \<and> ?i \<ge> durableThreshold (ac_plan A)" using d by (auto elim: wpre_mono)
  from this inproc show ?thesis
    unfolding retryActivity_def Let_def Inr andThen_lift_Inr by (rule wpre_ifI)
qed

text \<open>A handler that leaves the record of its own activity to the engine.\<close>

abbreviation minds_record :: "'s activityCall \<Rightarrow> ('s, 'm, 'v) handler \<Rightarrow> bool" where
  "minds_record A execute \<equiv> (\<forall>bag w. stored_in A (snd (execute bag w)) = stored_in A w)"

lemma kept_callUser:
  assumes "minds_record A execute" and "kept A x w"
    and "\<And>call b w1. (\<exists>w0 bag0. execute bag0 w0 = ((call, b), w1)) \<Longrightarrow> kept A x w1 \<Longrightarrow> Q (call, b) w1"
  shows "wpre (callUser execute bag) Q E w"
proof -
  obtain call b w1 where e: "execute bag w = ((call, b), w1)" by (metis prod.exhaust)
  moreover have "kept A x w1" using assms(1) [rule_format, of bag w] assms(2) e by (simp add: kept_def)
  ultimately have "Q (call, b) w1" using assms(3) by blast
  with e show ?thesis by (simp add: wpre_def callUser_def)
qed

lemma typed_outcome:
  assumes "typed_handler execute" and "execute bag w = ((call, b), w1)" and "invokeUser boundary call = Inl err"
  shows "\<forall>x \<in> set (chain err). typed_node x"
  using assms by (auto simp: invokeUser_def typed_handler_def split: outcome.splits) blast

lemma kept_failed:
  assumes C: "claims_apart db (claimsOf (ac_flow A))" and k: "kept A x w"
    and h: "assertAttempts R 0 attempts = Inr ()" "length attempts < maxAttempts (ac_plan A)"
    and typed: "\<forall>x \<in> set (chain err). typed_node x"
    and a: "aa_Attempt a = Suc (length attempts)" "aa_Failure a = Some (failureFromError R err)"
    and stop: "af_Code (failureFromError R err) = UserPanicErrorCode \<or> isNonRetryable (ac_plan A) (af_Code (failureFromError R err)) \<Longrightarrow> stop"
  shows "wpre (if Suc (length attempts) \<ge> maxAttempts (ac_plan A) \<or> stop
      then failActivity R A inputAny (attempts @ [a]) bag t (failureFromError R err) err
      else retryActivity R A inputAny (Suc (length attempts)) (attempts @ [a]) bag (failureFromError R err))
    (\<lambda>p w1. kept A x w1 \<and> (\<forall>as b. p = Again as b \<longrightarrow> as = attempts @ [a] \<and> assertAttempts R 0 as = Inr () \<and> length as < maxAttempts (ac_plan A)))
    (\<lambda>_. kept A x) w"
proof (rule wpre_ifI, goal_cases)
  case 1
  show ?case by (rule wpre_mono [OF kept_failActivity [OF C k h(1) a(1) h(2)]]) auto
next
  case 2
  have ok: "assertAttempts R 0 (attempts @ [a]) = Inr ()"
    using h(1) a failure_retryAfter [OF typed] by (simp add: assertAttempts_append)
  have "wpre (retryActivity R A inputAny (length (attempts @ [a])) (attempts @ [a]) bag (failureFromError R err))
      (\<lambda>p w1. kept A x w1 \<and> (\<forall>as b. p = Again as b \<longrightarrow> as = attempts @ [a])) (\<lambda>_. kept A x) w"
    by (rule kept_retryActivity [OF C k ok _ refl a(2)]) (use 2 stop in auto)
  from this [unfolded length_append_singleton] show ?case by (rule wpre_mono) (use ok 2 in auto)
qed

lemma kept_runAttempt:
  assumes C: "claims_apart db (claimsOf (ac_flow A))" and k: "kept A x w" and e: "minds_record A execute" "typed_handler execute"
    and h: "assertAttempts R 0 attempts = Inr ()" "length attempts < maxAttempts (ac_plan A)"
  shows "wpre (runAttempt R M A inputAny execute (Suc (length attempts)) attempts bag)
    (\<lambda>p w1. kept A x w1 \<and> (\<forall>as b. p = Again as b \<longrightarrow> length as = Suc (length attempts) \<and> assertAttempts R 0 as = Inr () \<and> length as < maxAttempts (ac_plan A)))
    (\<lambda>_. kept A x) w" (is "wpre _ ?Q ?E w")
proof -
  have complete: "wpre (completeAttempt R M A inputAny (attempts @ [a]) b c result) ?Q ?E w1"
    if "kept A x w1" "aa_Attempt a = Suc (length attempts)" for a b c result w1
    by (rule wpre_mono [OF kept_completeAttempt [OF C that(1) h(1) that(2) h(2)]]) auto
  note failed = wpre_mono [OF kept_failed [OF C _ h]]
  have rest: "wpre (let run = invokeUser ''activity'' call;
         attemptOf = (\<lambda>failure. \<lparr>aa_Attempt = Suc (length attempts), aa_StartedAt = s, aa_CompletedAt = u, aa_Failure = failure\<rparr>) in
     case run of
       Inr (Some result) \<Rightarrow> completeAttempt R M A inputAny (attempts @ [attemptOf None]) b t result
     | _ \<Rightarrow>
     let invalidResult = \<not> isl run;
         runErr = (case run of Inl e \<Rightarrow> e | Inr _ \<Rightarrow> Plain ''activity returned a nil result'');
         failure = failureFromError R runErr;
         attempts1 = attempts @ [attemptOf (Some failure)];
         stop = (invalidResult \<or> errors_As is_UserPanicError runErr \<noteq> None \<or>
           af_Code failure = UserPanicErrorCode \<or> isNonRetryable (ac_plan A) (af_Code failure)) in
     if Suc (length attempts) \<ge> maxAttempts (ac_plan A) \<or> stop
     then failActivity R A inputAny attempts1 b t failure runErr
     else retryActivity R A inputAny (Suc (length attempts)) attempts1 b failure) ?Q ?E w1"
    if "kept A x w1" "\<exists>w0 bag0 w2. execute bag0 w0 = ((call, b), w2)" for call b s u t w1
  proof (cases "invokeUser ''activity'' call")
    case (Inl err)
    with typed_outcome [OF e(2)] that(2) have "\<forall>x \<in> set (chain err). typed_node x" by blast
    from failed [OF that(1) this] show ?thesis unfolding Inl Let_def sum.case by this auto
  next
    case (Inr r)
    show ?thesis
    proof (cases r)
      case None
      from failed [OF that(1), of "Plain ''activity returned a nil result''"]
      show ?thesis unfolding Inr None Let_def sum.case option.case by this auto
    next
      case (Some result)
      with Inr complete [OF that(1)] show ?thesis by simp
    qed
  qed
  show ?thesis
    unfolding runAttempt_def wpre_andThen
    by (rule kept_frame [OF keeps_time_now [where ob = apart] k], rule kept_callUser [OF e(1)], assumption, unfold split wpre_andThen,
        rule kept_frame [OF keeps_time_now [where ob = apart]], assumption, rule rest) auto
qed

lemma kept_runAttempts:
  assumes C: "claims_apart db (claimsOf (ac_flow A))" and e: "minds_record A execute" "typed_handler execute"
    and "kept A x w" "assertAttempts R 0 attempts = Inr ()" "length attempts < maxAttempts (ac_plan A)"
    and "idxs = [Suc (length attempts)..<Suc n]"
  shows "wpre (runAttempts R M A inputAny execute idxs attempts bag) (\<lambda>_. kept A x) (\<lambda>_. kept A x) w"
  using assms(4-)
proof (induction idxs arbitrary: attempts bag w)
  case Nil
  then show ?case by (simp add: wpre_fail)
next
  case (Cons idx idxs)
  from Cons.prems(4) [symmetric, unfolded upt_eq_Cons_conv]
  have idx: "idx = Suc (length attempts)" and idxs: "idxs = [Suc (Suc (length attempts))..<Suc n]"
    by (auto simp del: upt_Suc)
  show ?case
    unfolding runAttempts.simps wpre_andThen idx
  proof (rule wpre_mono [OF kept_runAttempt [OF C Cons.prems(1) e Cons.prems(2,3)]], goal_cases)
    case (1 p w1)
    show ?case
    proof (cases p)
      case (Again as b)
      show ?thesis unfolding Again progress.case by (rule Cons.IH) (use 1 Again idxs in simp_all)
    qed (use 1 in \<open>simp add: wpre_ret\<close>)
  qed
qed

lemma kept_executeActivity:
  assumes C: "claims_apart db (claimsOf (ac_flow A))" and e: "minds_record A execute" "typed_handler execute" and k: "kept A x w"
    and plan: "plan_ok (ac_plan A)"
    and current: "\<And>r. current = Some r \<Longrightarrow>
      assertRetryingActivity R (en_Conv R) r (ac_policy A) (ac_retryTimerID A) (ac_plan A) = Inr ()"
  shows "wpre (executeActivity R M A inputAny execute current) (\<lambda>_. kept A x) (\<lambda>_. kept A x) w"
proof -
  define attempts where "attempts = (case current of None \<Rightarrow> [] | Some r \<Rightarrow> ar_Attempts r)"
  have h: "assertAttempts R 0 attempts = Inr ()" "length attempts < maxAttempts (ac_plan A)"
    using plan by (auto simp: attempts_def plan_ok_def split: option.split dest!: current assertRetrying_attempts)
  moreover have "(length attempts mod 2 ^ 32 + 1) mod 2 ^ 32 = Suc (length attempts)"
    using h(2) plan by (simp add: plan_ok_def MaximumRetryAttempts_def)
  ultimately show ?thesis
    unfolding executeActivity_def attempts_def [symmetric] Let_def by (intro kept_runAttempts [OF C e k]) (simp_all del: upt_Suc)
qed

lemma kept_runRecorded:
  fixes w :: "('s, 'z) world_scheme"
  assumes c: "coherent {} (db (inner w)) (cache w)" and C: "claims_apart db (claimsOf (ac_flow A))"
    and e: "minds_record A execute" "typed_handler execute" and plan: "plan_ok (ac_plan A)"
  shows "wpre (runRecorded R M A input nr execute) (\<lambda>_. kept A (stored_in A w)) (\<lambda>_. kept A (stored_in A w)) w"
    (is "wpre _ ?Q ?E w")
proof -
  have same: "kept A (stored_in A w) w1" if "apart (db (inner w1)) = apart (db (inner w))" for w1 :: "('s, 'z) world_scheme"
    using apart_eq(1) [OF that] by (simp add: kept_def)
  have claim: "wpre (andThen (claimActivity R M A nr stored) (\<lambda>h. case h of Settled v \<Rightarrow> ret v
      | Attempts current \<Rightarrow> executeActivity R M A inputAny execute current)) ?Q ?E w1"
    if a: "apart (db (inner w1)) = apart (db (inner w))" and s: "stored = db_activity (db (inner w1)) (ac_key A)"
      "\<And>r. stored = Some r \<Longrightarrow> ar_Status r = ACTIVITY_STATUS_RETRYING \<and>
        assertRetryingActivity R (en_Conv R) r (ac_policy A) (ac_retryTimerID A) (ac_plan A) = Inr ()" for stored inputAny w1
    unfolding wpre_andThen
  proof (rule wpre_mono [OF wp_claimActivity [OF C s]], assumption, goal_cases)
    case (1 h w2)
    then show ?case using a same by (cases h) (auto simp: wpre_ret intro!: kept_executeActivity [OF C e _ plan])
  next
    case (2 err w2)
    with a same show ?case by simp
  qed
  have main: "wpre (andThen (inspectActivity R M A nr stored) (\<lambda>i. case i of Replayed v \<Rightarrow> ret v
      | Proceed \<Rightarrow> andThen (lift (any_New M input)) (\<lambda>inputAny. andThen (claimActivity R M A nr stored) (\<lambda>h. case h of Settled v \<Rightarrow> ret v
          | Attempts current \<Rightarrow> executeActivity R M A inputAny execute current)))) ?Q ?E w1"
    if a: "apart (db (inner w1)) = apart (db (inner w))" and s: "stored = db_activity (db (inner w1)) (ac_key A)" for stored w1
    unfolding wpre_andThen [of "inspectActivity _ _ _ _ _"]
  proof (rule wpre_mono [OF wpre_keeps [OF keeps_inspectActivity inspect_replayed]], goal_cases)
    case (1 y w2)
    then have b: "apart (db (inner w2)) = apart (db (inner w))" "stored = db_activity (db (inner w2)) (ac_key A)"
      using a s apart_eq(1) [of "db (inner w2)" "db (inner w1)"] by simp_all
    with 1 same show ?case
      by (cases y) (auto simp: wpre_ret wpre_andThen [of "lift _"] wpre_lift split: sum.split intro!: claim)
  next
    case (2 err w2)
    with a same show ?case by simp
  qed
  show ?thesis
    unfolding runRecorded_def wpre_andThen [of "attempt (cGetActivity _ _ _)"] wpre_attempt
  proof (rule wp_cGetActivity [OF c], goal_cases)
    case (2 w1)
    have "db (inner w1) = db (inner w)" using after_db [OF 2] by simp
    with main [of w1 "db_activity (db (inner w)) (ac_key A)"] show ?case by simp
  qed (auto simp: wpre_fail intro!: same dest: after_db)
qed

end

section \<open>Properties\<close>

text \<open>The call that \<open>runActivity\<close> makes once its arguments are accepted.\<close>

abbreviation call_of ::
  "('s, 'r) engine_scheme \<Rightarrow> context \<Rightarrow> 's flow \<Rightarrow> string \<Rightarrow> string \<Rightarrow> RetryPolicy option \<Rightarrow> string \<Rightarrow> retryPlan \<Rightarrow> 's activityCall" where
  "call_of R ctx flow activityID activityType policy timerID plan \<equiv>
     \<lparr>ac_flow = flow, ac_ctx = ctx, ac_activityID = activityID, ac_activityType = activityType,
      ac_policy = normalizeRetryPolicy R policy plan, ac_retryTimerID = timerID, ac_plan = plan\<rparr>"

lemma wp_runActivity:
  assumes "\<And>plan. planRetries R (en_Conv R) policy = Inr plan \<Longrightarrow>
      wpre (runRecorded R M (call_of R ctx flow activityID activityType policy timerID plan) input newResult execute) Q E w"
    and "\<And>e. E e w"
  shows "wpre (runActivity R M ctx (Some flow) activityID activityType policy timerID (Some input) (Some newResult) (Some execute)) Q E w"
  unfolding runActivity_def by (auto simp: wpre_andThen [of "lift _"] wpre_lift wpre_fail intro!: assms split: sum.split)


text \<open>
  C23. A result is returned only when it is stored. Whatever the handler does, when \<open>runActivity\<close>
  returns a value the database has a COMPLETED record of that activity and type, and the value
  is the one packed into that record or unpacked from it.
\<close>

theorem activity_result_stored:
  assumes "engine_laws R db" and "coherent {} (db (inner w)) (cache w)" and "claims_apart db (wf_claimStore flow)"
    and "runActivity R M ctx (Some flow) activityID activityType policy timerID (Some input) (Some newResult) (Some execute) w = (Inr v, w1)"
  shows "result_stored M activityType newResult (db_activity (db (inner w1)) (activityKey flow activityID)) v"
proof -
  have "wpre (runActivity R M ctx (Some flow) activityID activityType policy timerID (Some input) (Some newResult) (Some execute))
      (\<lambda>v w1. result_stored M activityType newResult (db_activity (db (inner w1)) (activityKey flow activityID)) v) (\<lambda>_ _. True) w"
    by (rule wp_runActivity)
      (use engine_laws.wp_runRecorded_result [OF assms(1,2), where A = "call_of R ctx flow activityID activityType policy timerID _"]
        claims_apart_some [OF assms(3)] in simp_all)
  from wpre_InrD [OF this assms(4)] show ?thesis .
qed


text \<open>An activity of the in-memory engine, with claims on the same bucket.\<close>

definition claimed_flow :: "memory flow" where
  "claimed_flow = \<lparr>wf_workflowID = ''orders'', wf_runID = ''r1'', wf_claimStore = Some (GoCDKClaims mem_blob),
     wf_claimCapability = CLAIM_CAPABILITY_CREATE_ONLY_CLAIMS, wf_claimOwner = ''worker''\<rparr>"

lemma claimed_flow_ok: "claims_apart (\<lambda>s. database_of mem_env (mem_lookup s)) (wf_claimStore claimed_flow)"
  unfolding claimed_flow_def claims_apart_def by (auto intro!: mem_claims.claims_keep_database)

definition answers :: "string \<Rightarrow> (memory, unit, string) handler" where
  "answers text bag w = ((Returned (Inr (Some text)), bag), w)"

definition busy :: "(memory, unit, string) handler" where
  "busy bag w = ((Returned (Inl (ActivityError ''busy'' [] 2 None)), bag), w)"

text \<open>Charging once, and the stages of a first successful run.\<close>

definition plan_once :: retryPlan where
  "plan_once = \<lparr>maxAttempts = 1, initialInterval = 0, backoffCoefficient = Finite 1, maximumInterval = 0, durableThreshold = 0, nonRetryable = Map.empty\<rparr>"

definition charge_call :: "memory activityCall" where
  "charge_call = call_of mem_engine Caller claimed_flow ''charge'' ''activity:text->text'' None [] plan_once"

lemma charge_call_simps [simp]:
  "ac_flow charge_call = claimed_flow" "ac_ctx charge_call = Caller" "ac_activityID charge_call = ''charge''"
  "ac_plan charge_call = plan_once" "maxAttempts plan_once = 1"
  by (simp_all add: charge_call_def plan_once_def)

definition charge :: "(memory, unit, string) handler \<Rightarrow> memory world \<Rightarrow> string result \<times> memory world" where
  "charge execute = runActivity mem_engine text_messages Caller (Some claimed_flow) ''charge'' ''activity:text->text'' None []
     (Some ''ten'') (Some (Inr (Some []))) (Some execute)"

abbreviation charged :: "memory world \<Rightarrow> ActivityRecord option" where
  "charged w \<equiv> db_activity (database_of mem_env (mem_lookup (inner w))) (activityKey claimed_flow ''charge'')"

lemma stage: "fst (m w) = Inr a \<Longrightarrow> andThen m f w = f a (snd (m w))"
  by (auto simp: andThen_def split: prod.split)

lemma stage_attempt: "fst (m w) = r \<Longrightarrow> andThen (attempt m) f w = f r (snd (m w))"
  by (auto simp: andThen_def attempt_def split: prod.split)

lemma charge_once: "charge execute w = runRecorded mem_engine text_messages charge_call ''ten'' (Inr (Some [])) execute w"
proof -
  have "ActivityOptions_rules \<lparr>ao_ActivityId = ''charge'', ao_RetryPolicy = None, ao_RetryTimerId = []\<rparr>" by code_simp
  then show ?thesis by (simp add: charge_def runActivity_def planRetries_def protovalidate_def charge_call_def plan_once_def)
qed

definition fresh_example :: "memory world" where
  "fresh_example = world_example\<lparr>inner := empty_memory\<rparr>"

lemma fresh_example_ok: "coherent {} d (cache fresh_example)"
  using world_example_ok(1) by (simp add: fresh_example_def)

abbreviation charge_key :: ActivityKey where "charge_key \<equiv> activityKey claimed_flow ''charge''"

abbreviation charge_input :: Any where "charge_input \<equiv> \<lparr>any_type_url = ''text'', any_value = ''ten''\<rparr>"

abbreviation charge_claim :: ClaimRecord where
  "charge_claim \<equiv> newClaim mem_engine (activityClaimKey charge_call) ''worker'' CLAIM_RESOURCE_TYPE_ACTIVITY ''charge'' DefaultClaimLeaseDuration 0"

definition charge_read :: "memory world" where
  "charge_read = snd (time_now mem_engine (snd (cGetActivity (rt_Store mem_engine) Caller charge_key fresh_example)))"

definition charge_claimed :: "memory world" where
  "charge_claimed = snd (getActivityAuthoritative mem_engine Caller charge_key
     (snd (onInner (cs_TryCreateClaim (GoCDKClaims mem_blob) Caller charge_claim) charge_read)))"

fun missing :: "'a option result \<Rightarrow> bool" where
  "missing (Inr None) = True"
| "missing _ = False"

fun done_with :: "string progress result \<Rightarrow> string \<Rightarrow> bool" where
  "done_with (Inr (Done v)) u = (v = u)"
| "done_with _ _ = False"

lemma observed: "missing r \<Longrightarrow> r = Inr None" "done_with p u \<Longrightarrow> p = Inr (Done u)"
  by (cases r rule: missing.cases; simp) (cases "(p, u)" rule: done_with.cases; simp)

lemma charge_stage1: "fst (cGetActivity (rt_Store mem_engine) Caller charge_key fresh_example) = Inr None"
  by (rule observed(1)) code_simp

lemma charge_stage2: "fst (time_now mem_engine (snd (cGetActivity (rt_Store mem_engine) Caller charge_key fresh_example))) = Inr 0"
  by code_simp

lemma charge_stage3: "fst (onInner (cs_TryCreateClaim (GoCDKClaims mem_blob) Caller charge_claim) charge_read) = Inr True"
  by code_simp

lemma charge_stage4: "fst (getActivityAuthoritative mem_engine Caller charge_key
    (snd (onInner (cs_TryCreateClaim (GoCDKClaims mem_blob) Caller charge_claim) charge_read))) = Inr None"
  by (rule observed(1)) code_simp

lemma charge_stage5:
  "fst (runAttempt mem_engine text_messages charge_call charge_input (answers ''paid'') (Suc 0) [] Map.empty charge_claimed) = Inr (Done ''paid'')"
  by (rule observed(2)) code_simp

lemma attempt_ret: "attempt (ret a) = ret (Inr a)"
  by (simp add: attempt_def ret_def fun_eq_iff)

lemma charge_paid: "fst (charge (answers ''paid'') fresh_example) = Inr ''paid''"
proof -
  have claims: "claimsOf claimed_flow = Some (GoCDKClaims mem_blob)" "wf_claimOwner claimed_flow = ''worker''"
    by (simp_all add: claimsOf_def claimed_flow_def)
  have packs: "any_New text_messages ''ten'' = Inr charge_input" by (simp add: text_messages_def)
  have hold: "claimActivity mem_engine text_messages charge_call (Inr (Some [])) None (snd (cGetActivity (rt_Store mem_engine) Caller charge_key fresh_example))
      = (Inr (Attempts None), charge_claimed)"
    unfolding claimActivity_def inspectHolding_def numeral_2_eq_2
    by (simp add: claims stage [where m = "time_now mem_engine", OF charge_stage2] stage_attempt [where m = "onInner _", OF charge_stage3]
        stage_attempt [where m = "getActivityAuthoritative _ _ _", OF charge_stage4] charge_read_def [symmetric] charge_claimed_def [symmetric] inspectActivity_def
        andThen_assoc attempt_ret ret_def)
  show ?thesis
    unfolding charge_once runRecorded_def
    by (simp add: stage_attempt [where m = "cGetActivity _ _ _", OF charge_stage1] inspectActivity_def packs
        andThen_Inr [where m = "claimActivity _ _ _ _ _", OF hold] executeActivity_def stage [where m = "runAttempt _ _ _ _ _ _ _ _", OF charge_stage5] ret_def)
qed

lemma charge_run: "fst (charge execute w) = r \<Longrightarrow> runActivity mem_engine text_messages Caller (Some claimed_flow) ''charge'' ''activity:text->text''
   None [] (Some ''ten'') (Some (Inr (Some []))) (Some execute) w = (r, snd (charge execute w))"
  by (auto simp: charge_def)

theorem activity_result_stored_witness:
  "fst (charge (answers ''paid'') fresh_example) = Inr ''paid'' \<and>
   result_stored text_messages ''activity:text->text'' (Inr (Some [])) (charged (snd (charge (answers ''paid'') fresh_example))) ''paid''"
  using activity_result_stored [OF mem_engine.engine_laws_axioms fresh_example_ok claimed_flow_ok charge_run [OF charge_paid]] charge_paid by simp

text \<open>A later invocation, with a cache of its own.\<close>

definition charged_example :: "memory world" where
  "charged_example = fresh_example\<lparr>inner := inner (snd (charge (answers ''paid'') fresh_example))\<rparr>"



end
