(* ===== verification/Spec2Isabelle.thy ===== *)
theory Spec2Isabelle
  imports ActivityDurable
begin

text \<open>
  A verification development of the Go runtime of temporaless.
\<close>

end
